(* ===== verification/Prelude.thy ===== *)
theory Prelude
  imports Main "HOL-Library.AList" "HOL-Library.Word" "HOL-Library.Char_ord" "HOL-Library.List_Lexorder"
begin

text \<open>
  What the components share: the model of Rust strings (a \<^typ>\<open>string\<close> is the UTF-8
  bytes of a Rust \<open>str\<close>), the functions of the Rust standard library the sources use on
  them, results as sums (\<open>Inl\<close> is \<open>Err\<close>, \<open>Inr\<close> is \<open>Ok\<close>), saturating
  unsigned arithmetic, hash maps as association lists whose order stands for the unspecified
  iteration order, and the collections of rewrite rules the component proofs use.
\<close>

named_theorems rust_str \<open>definitions of the string functions of the standard library\<close>
named_theorems rust_res \<open>definitions of the result combinators\<close>

type_synonym u64 = "64 word"
type_synonym u32 = "32 word"

section \<open>Results\<close>

definition ensure :: "bool \<Rightarrow> 'e \<Rightarrow> 'e + unit" where
  [rust_res]: "ensure b e = (if b then Inr () else Inl e)"

definition res_bind :: "'e + 'a \<Rightarrow> ('a \<Rightarrow> 'e + 'b) \<Rightarrow> 'e + 'b" where
  [rust_res]: "res_bind r f = (case r of Inl e \<Rightarrow> Inl e | Inr a \<Rightarrow> f a)"

definition res_then :: "'e + unit \<Rightarrow> 'e + 'b \<Rightarrow> 'e + 'b" where
  [rust_res]: "res_then r k = (case r of Inl e \<Rightarrow> Inl e | Inr _ \<Rightarrow> k)"

fun res_mapM :: "('a \<Rightarrow> 'e + 'b) \<Rightarrow> 'a list \<Rightarrow> 'e + 'b list" where
  "res_mapM f [] = Inr []"
| "res_mapM f (x # xs) = res_bind (f x) (\<lambda>y. res_bind (res_mapM f xs) (\<lambda>ys. Inr (y # ys)))"

lemma ensure_simps [simp]:
  "ensure b e = Inr u \<longleftrightarrow> b"
  "ensure b e = Inl e' \<longleftrightarrow> \<not> b \<and> e' = e"
  "ensure True e = Inr ()"
  by (auto simp: ensure_def)

lemma res_bind_simps [simp]:
  "res_bind (Inl e) f = Inl e"
  "res_bind (Inr a) f = f a"
  by (simp_all add: res_bind_def)

lemma res_then_simps [simp]:
  "res_then (Inl e) k = Inl e"
  "res_then (Inr u) k = k"
  by (simp_all add: res_then_def)

lemma res_bind_Inr_iff: "res_bind r f = Inr b \<longleftrightarrow> (\<exists>a. r = Inr a \<and> f a = Inr b)"
  by (cases r) auto

lemma res_then_Inr_iff: "res_then r k = Inr b \<longleftrightarrow> r = Inr () \<and> k = Inr b"
  by (cases r) auto

lemma res_mapM_Inr_iff:
  "res_mapM f xs = Inr ys \<longleftrightarrow> list_all2 (\<lambda>x y. f x = Inr y) xs ys"
proof (induction xs arbitrary: ys)
  case Nil
  then show ?case by auto
next
  case (Cons x xs)
  then show ?case by (cases ys) (auto simp: res_bind_Inr_iff)
qed

lemma res_mapM_total:
  assumes "\<forall>x\<in>set xs. \<exists>y. f x = Inr y"
  shows "\<exists>ys. res_mapM f xs = Inr ys"
  using assms by (induction xs) auto

section \<open>Calls that may panic\<close>

datatype 'a call = Panic | Ret 'a

definition call_map :: "('a \<Rightarrow> 'b) \<Rightarrow> 'a call \<Rightarrow> 'b call" where
  "call_map f c = (case c of Panic \<Rightarrow> Panic | Ret a \<Rightarrow> Ret (f a))"

definition call_bind :: "'a call \<Rightarrow> ('a \<Rightarrow> 'b call) \<Rightarrow> 'b call" where
  "call_bind c f = (case c of Panic \<Rightarrow> Panic | Ret a \<Rightarrow> f a)"

lemma call_simps [simp]:
  "call_map f Panic = Panic" "call_map f (Ret a) = Ret (f a)"
  "call_bind Panic g = Panic" "call_bind (Ret a) g = g a"
  by (simp_all add: call_map_def call_bind_def)

lemma call_bind_Ret_iff: "call_bind c f = Ret b \<longleftrightarrow> (\<exists>a. c = Ret a \<and> f a = Ret b)"
  by (cases c) auto

section \<open>Bytes and characters of a Rust string\<close>

definition byte :: "char \<Rightarrow> int" where
  [rust_str]: "byte c = of_char c"

text \<open>Length in bytes of the Unicode white space character a string starts with, 0 if none.\<close>

definition ws3 :: "int \<Rightarrow> int \<Rightarrow> int \<Rightarrow> bool" where
  [rust_str]: "ws3 a b c \<longleftrightarrow>
     (a = 0xE1 \<and> b = 0x9A \<and> c = 0x80) \<or>
     (a = 0xE2 \<and> b = 0x80 \<and> (0x80 \<le> c \<and> c \<le> 0x8A \<or> c = 0xA8 \<or> c = 0xA9 \<or> c = 0xAF)) \<or>
     (a = 0xE2 \<and> b = 0x81 \<and> c = 0x9F) \<or>
     (a = 0xE3 \<and> b = 0x80 \<and> c = 0x80)"

definition ws1 :: "int \<Rightarrow> bool" where
  [rust_str]: "ws1 a \<longleftrightarrow> 9 \<le> a \<and> a \<le> 13 \<or> a = 32"

definition ws2 :: "int \<Rightarrow> int \<Rightarrow> bool" where
  [rust_str]: "ws2 a b \<longleftrightarrow> a = 0xC2 \<and> (b = 0x85 \<or> b = 0xA0)"

definition ws_len :: "string \<Rightarrow> nat" where
  [rust_str]: "ws_len s = (case map byte (take 3 s) of
     [] \<Rightarrow> 0
   | [a] \<Rightarrow> if ws1 a then 1 else 0
   | [a, b] \<Rightarrow> if ws1 a then 1 else if ws2 a b then 2 else 0
   | a # b # c # _ \<Rightarrow> if ws1 a then 1 else if ws2 a b then 2 else if ws3 a b c then 3 else 0)"

text \<open>The same for the white space character that ends a string; it reads the bytes backwards.\<close>

definition ws_len_rev :: "string \<Rightarrow> nat" where
  [rust_str]: "ws_len_rev s = (case map byte (take 3 s) of
     [] \<Rightarrow> 0
   | [a] \<Rightarrow> if ws1 a then 1 else 0
   | [a, b] \<Rightarrow> if ws1 a then 1 else if ws2 b a then 2 else 0
   | a # b # c # _ \<Rightarrow> if ws1 a then 1 else if ws2 b a then 2 else if ws3 c b a then 3 else 0)"

function strip_with :: "(string \<Rightarrow> nat) \<Rightarrow> string \<Rightarrow> string" where
  "strip_with w s = (if s = [] \<or> w s = 0 then s else strip_with w (drop (w s) s))"
  by pat_completeness auto
termination
  by (relation "measure (\<lambda>(w, s). length s)") auto

declare strip_with.simps [simp del]

definition trim_start :: "string \<Rightarrow> string" where
  "trim_start s = strip_with ws_len s"

definition trim_end :: "string \<Rightarrow> string" where
  "trim_end s = rev (strip_with ws_len_rev (rev s))"

text \<open>\<open>str::trim\<close>\<close>

definition trim :: "string \<Rightarrow> string" where
  "trim s = trim_end (trim_start s)"

text \<open>\<open>str::eq_ignore_ascii_case\<close> and \<open>str::to_ascii_lowercase\<close>\<close>

definition ascii_lower_char :: "char \<Rightarrow> char" where
  [rust_str]: "ascii_lower_char c =
     (if 65 \<le> byte c \<and> byte c \<le> 90 then char_of (byte c + 32) else c)"

definition ascii_lower :: "string \<Rightarrow> string" where
  [rust_str]: "ascii_lower s = map ascii_lower_char s"

definition eq_ignore_ascii_case :: "string \<Rightarrow> string \<Rightarrow> bool" where
  [rust_str]: "eq_ignore_ascii_case a b \<longleftrightarrow> ascii_lower a = ascii_lower b"

text \<open>\<open>str::starts_with\<close>, \<open>str::ends_with\<close>, \<open>str::contains\<close>, \<open>str::strip_prefix\<close>\<close>

definition starts_with :: "string \<Rightarrow> string \<Rightarrow> bool" where
  [rust_str]: "starts_with s p \<longleftrightarrow> take (length p) s = p"

definition ends_with :: "string \<Rightarrow> string \<Rightarrow> bool" where
  [rust_str]: "ends_with s p \<longleftrightarrow> starts_with (rev s) (rev p)"

fun str_contains :: "string \<Rightarrow> string \<Rightarrow> bool" where
  "str_contains [] p = (p = [])"
| "str_contains (c # s) p = (starts_with (c # s) p \<or> str_contains s p)"

definition strip_prefix :: "string \<Rightarrow> string \<Rightarrow> string option" where
  [rust_str]: "strip_prefix s p = (if starts_with s p then Some (drop (length p) s) else None)"

lemma starts_with_iff: "starts_with s p \<longleftrightarrow> (\<exists>r. s = p @ r)"
  by (metis append_eq_conv_conj append_take_drop_id starts_with_def)

lemma ends_with_iff: "ends_with s p \<longleftrightarrow> (\<exists>r. s = r @ p)"
proof
  assume "ends_with s p"
  then obtain r where "rev s = rev p @ r" by (auto simp: ends_with_def starts_with_iff)
  then have "s = rev r @ p" by (metis rev_append rev_rev_ident)
  then show "\<exists>r. s = r @ p" by blast
qed (auto simp: ends_with_def starts_with_iff)

text \<open>\<open>[str]::join\<close>\<close>

fun join :: "string \<Rightarrow> string list \<Rightarrow> string" where
  "join sep [] = []"
| "join sep [s] = s"
| "join sep (s # t # ts) = s @ sep @ join sep (t # ts)"

text \<open>\<open>str::split_whitespace\<close>: the maximal runs without white space.\<close>

function split_ws_aux :: "string \<Rightarrow> string \<Rightarrow> string list" where
  "split_ws_aux acc s =
     (if s = [] then (if acc = [] then [] else [rev acc])
      else if ws_len s = 0 then split_ws_aux (hd s # acc) (tl s)
      else (if acc = [] then [] else [rev acc]) @ split_ws_aux [] (drop (ws_len s) s))"
  by pat_completeness auto
termination
  by (relation "measure (\<lambda>(acc, s). length s)") auto

declare split_ws_aux.simps [simp del]

definition split_whitespace :: "string \<Rightarrow> string list" where
  "split_whitespace s = split_ws_aux [] s"

text \<open>\<open>str::chars().take(n)\<close>: a character starts at every byte that is no continuation byte.\<close>

definition is_cont :: "char \<Rightarrow> bool" where
  [rust_str]: "is_cont c \<longleftrightarrow> 128 \<le> byte c \<and> byte c < 192"

fun take_chars :: "nat \<Rightarrow> string \<Rightarrow> string" where
  "take_chars n [] = []"
| "take_chars n (c # s) =
     (if is_cont c then c # take_chars n s
      else case n of 0 \<Rightarrow> [] | Suc m \<Rightarrow> c # take_chars m s)"

text \<open>Decimal digits of a number, as \<open>format!("{}")\<close> writes them.\<close>

function show_pos :: "int \<Rightarrow> string" where
  "show_pos i = (if i < 10 then [char_of (48 + i)] else show_pos (i div 10) @ [char_of (48 + i mod 10)])"
  by pat_completeness auto
termination
  by (relation "measure nat") auto

declare show_pos.simps [simp del]

definition show_int :: "int \<Rightarrow> string" where
  "show_int i = (if i < 0 then ''-'' @ show_pos (- i) else show_pos i)"

section \<open>Stateful operations that may fail\<close>

text \<open>
  A method of the code that changes state and returns a \<open>Result\<close>: the state is returned with the
  result, also where the result is an error.
\<close>

type_synonym ('s, 'e, 'a) stateful = "'s \<Rightarrow> ('e + 'a) \<times> 's"

definition st_return :: "'a \<Rightarrow> ('s, 'e, 'a) stateful" where
  "st_return a s = (Inr a, s)"

definition st_error :: "'e \<Rightarrow> ('s, 'e, 'a) stateful" where
  "st_error e s = (Inl e, s)"

definition st_bind :: "('s, 'e, 'a) stateful \<Rightarrow> ('a \<Rightarrow> ('s, 'e, 'b) stateful) \<Rightarrow> ('s, 'e, 'b) stateful" where
  "st_bind m f s = (case m s of (Inl e, s') \<Rightarrow> (Inl e, s') | (Inr a, s') \<Rightarrow> f a s')"

definition st_seq :: "('s, 'e, unit) stateful \<Rightarrow> ('s, 'e, 'b) stateful \<Rightarrow> ('s, 'e, 'b) stateful" where
  "st_seq m k = st_bind m (\<lambda>_. k)"

definition st_lift :: "'e + 'a \<Rightarrow> ('s, 'e, 'a) stateful" where
  "st_lift r s = (r, s)"

definition st_modify :: "('s \<Rightarrow> 's) \<Rightarrow> ('s, 'e, unit) stateful" where
  "st_modify f s = (Inr (), f s)"

definition st_get :: "('s \<Rightarrow> 'a) \<Rightarrow> ('s, 'e, 'a) stateful" where
  "st_get f s = (Inr (f s), s)"

lemmas st_simps [simp] = st_return_def st_error_def st_lift_def st_modify_def st_get_def

lemma st_bind_Inr_iff: "st_bind m f s = (Inr b, s'') \<longleftrightarrow> (\<exists>a s'. m s = (Inr a, s') \<and> f a s' = (Inr b, s''))"
  by (auto simp: st_bind_def split: prod.splits sum.splits)

lemma st_seq_Inr_iff: "st_seq m k s = (Inr b, s'') \<longleftrightarrow> (\<exists>s'. m s = (Inr (), s') \<and> k s' = (Inr b, s''))"
  by (auto simp: st_seq_def st_bind_Inr_iff)

lemma st_run:
  "m s = (Inr a, s') \<Longrightarrow> st_bind m f s = f a s'"
  "m s = (Inl e, s') \<Longrightarrow> st_bind m f s = (Inl e, s')"
  "k s = (Inr u, s') \<Longrightarrow> st_seq k n s = n s'"
  "k s = (Inl e, s') \<Longrightarrow> st_seq k n s = (Inl e, s')"
  by (simp_all add: st_bind_def st_seq_def)

lemma st_bind_cases:
  assumes "st_bind m f s = (r, s'')"
  obtains (err) e where "m s = (Inl e, s'')" "r = Inl e"
    | (ok) a s' where "m s = (Inr a, s')" "f a s' = (r, s'')"
  using assms by (auto simp: st_bind_def split: prod.splits sum.splits)

text \<open>An operation keeps a part of the state, whatever its result.\<close>

named_theorems keeps_intros \<open>operations that keep a part of the state\<close>

definition keeps :: "('s \<Rightarrow> 'p) \<Rightarrow> ('s, 'e, 'a) stateful \<Rightarrow> bool" where
  "keeps part m \<longleftrightarrow> (\<forall>s. part (snd (m s)) = part s)"

lemma keepsD: "keeps part m \<Longrightarrow> m s = (r, s') \<Longrightarrow> part s' = part s"
  by (metis keeps_def snd_conv)

lemma keeps_basic [keeps_intros]:
  "keeps part (st_return a)" "keeps part (st_error e)" "keeps part (st_get f)" "keeps part (st_lift r)"
  "keeps part (Pair r)"
  by (simp_all add: keeps_def)

lemma keeps_modify [keeps_intros]: "(\<And>s. part (f s) = part s) \<Longrightarrow> keeps part (st_modify f)"
  by (simp add: keeps_def)

lemma keeps_bind [keeps_intros]: "keeps part m \<Longrightarrow> (\<And>a. keeps part (f a)) \<Longrightarrow> keeps part (st_bind m f)"
  unfolding keeps_def st_bind_def by (auto split: prod.splits sum.splits) (metis snd_conv)+

lemma keeps_seq [keeps_intros]: "keeps part m \<Longrightarrow> keeps part k \<Longrightarrow> keeps part (st_seq m k)"
  unfolding st_seq_def by (rule keeps_bind)

lemma keeps_if [keeps_intros]: "(b \<Longrightarrow> keeps part m) \<Longrightarrow> (\<not> b \<Longrightarrow> keeps part k) \<Longrightarrow> keeps part (if b then m else k)"
  by simp

text \<open>An operation preserves a property of the state, whatever its result.\<close>

named_theorems preserves_intros \<open>operations that preserve a property of the state\<close>

definition preserves :: "('s \<Rightarrow> bool) \<Rightarrow> ('s, 'e, 'a) stateful \<Rightarrow> bool" where
  "preserves I m \<longleftrightarrow> (\<forall>s. I s \<longrightarrow> I (snd (m s)))"

lemma preservesD: "preserves I m \<Longrightarrow> I s \<Longrightarrow> m s = (r, s') \<Longrightarrow> I s'"
  by (metis preserves_def snd_conv)

lemma preserves_basic [preserves_intros]:
  "preserves I (st_return a)" "preserves I (st_error e)" "preserves I (st_get f)" "preserves I (Pair r)"
  by (simp_all add: preserves_def)

lemma preserves_modify [preserves_intros]: "(\<And>s. I s \<Longrightarrow> I (f s)) \<Longrightarrow> preserves I (st_modify f)"
  by (simp add: preserves_def)

lemma preserves_bind [preserves_intros]:
  "preserves I m \<Longrightarrow> (\<And>a. preserves I (f a)) \<Longrightarrow> preserves I (st_bind m f)"
  unfolding preserves_def st_bind_def by (fastforce split: prod.splits sum.splits)

lemma preserves_seq [preserves_intros]: "preserves I m \<Longrightarrow> preserves I k \<Longrightarrow> preserves I (st_seq m k)"
  unfolding st_seq_def by (rule preserves_bind)

lemma preserves_if [preserves_intros]:
  "(b \<Longrightarrow> preserves I m) \<Longrightarrow> (\<not> b \<Longrightarrow> preserves I k) \<Longrightarrow> preserves I (if b then m else k)"
  by simp

section \<open>Saturating arithmetic\<close>

definition sat_add :: "u64 \<Rightarrow> u64 \<Rightarrow> u64" where
  "sat_add a b = (if uint a + uint b < 2 ^ 64 then a + b else 0xFFFFFFFFFFFFFFFF)"

definition sat_mul :: "u64 \<Rightarrow> u64 \<Rightarrow> u64" where
  "sat_mul a b = (if uint a * uint b < 2 ^ 64 then a * b else 0xFFFFFFFFFFFFFFFF)"

lemma uint_sat_add: "uint (sat_add a b) = min (uint a + uint b) (2 ^ 64 - 1)"
proof (cases "uint a + uint b < 2 ^ 64")
  case True
  then show ?thesis by (simp add: sat_add_def uint_word_ariths)
next
  case False
  then show ?thesis by (simp add: sat_add_def)
qed

lemma uint_sat_mul: "uint (sat_mul a b) = min (uint a * uint b) (2 ^ 64 - 1)"
proof (cases "uint a * uint b < 2 ^ 64")
  case True
  then show ?thesis by (simp add: sat_mul_def uint_word_ariths)
next
  case False
  then show ?thesis by (simp add: sat_mul_def)
qed

section \<open>Options and lists\<close>

text \<open>\<open>Iterator::filter_map\<close> is \<open>List.map_filter\<close>; \<open>Iterator::reduce\<close> folds without a start value.\<close>

fun reduce :: "('a \<Rightarrow> 'a \<Rightarrow> 'a) \<Rightarrow> 'a list \<Rightarrow> 'a option" where
  "reduce f [] = None"
| "reduce f (x # xs) = Some (foldl f x xs)"

text \<open>\<open>Iterator::position\<close>\<close>

fun position :: "('a \<Rightarrow> bool) \<Rightarrow> 'a list \<Rightarrow> nat option" where
  "position p [] = None"
| "position p (x # xs) = (if p x then Some 0 else map_option Suc (position p xs))"

lemma position_Some:
  "position p xs = Some i \<Longrightarrow> i < length xs \<and> p (xs ! i) \<and> (\<forall>j<i. \<not> p (xs ! j))"
proof (induction xs arbitrary: i)
  case (Cons x xs)
  show ?case
  proof (cases "p x")
    case False
    with Cons.prems obtain k where k: "position p xs = Some k" "i = Suc k" by auto
    from Cons.IH [OF k(1)] False k(2) show ?thesis by (auto simp: nth_Cons split: nat.splits)
  qed (use Cons.prems in auto)
qed simp

lemma position_None: "position p xs = None \<longleftrightarrow> (\<forall>x\<in>set xs. \<not> p x)"
  by (induction xs) auto

text \<open>\<open>Vec::remove\<close> for an index in range.\<close>

definition remove_at :: "nat \<Rightarrow> 'a list \<Rightarrow> 'a list" where
  "remove_at i xs = take i xs @ drop (Suc i) xs"

lemma set_remove_at: "set (remove_at i xs) \<subseteq> set xs"
  by (auto simp: remove_at_def dest: in_set_takeD in_set_dropD)

lemma length_remove_at: "i < length xs \<Longrightarrow> length (remove_at i xs) = length xs - 1"
  by (simp add: remove_at_def)

text \<open>Hash maps with an unspecified iteration order: association lists with distinct keys.\<close>

definition wf_map :: "('k \<times> 'v) list \<Rightarrow> bool" where
  "wf_map m \<longleftrightarrow> distinct (map fst m)"

lemma wf_map_update [intro]: "wf_map m \<Longrightarrow> wf_map (AList.update k v m)"
  by (simp add: wf_map_def distinct_update)

lemma wf_map_delete [intro]: "wf_map m \<Longrightarrow> wf_map (AList.delete k m)"
  by (simp add: wf_map_def distinct_delete)

lemma wf_map_Nil [simp]: "wf_map []"
  by (simp add: wf_map_def)

end
