(* ===== verification/Rust_Float.thy ===== *)
theory Rust_Float
  imports Prelude
begin

text \<open>
  The \<open>f64\<close> and \<open>f32\<close> values the sources use. An \<open>f64\<close> is its 64 bits; its order is
  read off the bits (sign and magnitude), so comparisons, \<open>f64::max\<close>, \<open>f64::total_cmp\<close>
  and \<open>clamp\<close> are exact. Quotients and decimal literals are rounded to the nearest
  value, ties to even, in exact integer arithmetic (\<open>f64_of_ratio\<close>, \<open>fl_ratio\<close>).
\<close>

type_synonym f64 = "64 word"

section \<open>Comparisons on the bits\<close>

definition f64_mag :: "f64 \<Rightarrow> int" where
  "f64_mag w = uint w mod 2 ^ 63"

definition f64_neg :: "f64 \<Rightarrow> bool" where
  "f64_neg w \<longleftrightarrow> 2 ^ 63 \<le> uint w"

definition f64_inf_mag :: int where
  "f64_inf_mag = 2047 * 2 ^ 52"

definition f64_is_nan :: "f64 \<Rightarrow> bool" where
  "f64_is_nan w \<longleftrightarrow> f64_inf_mag < f64_mag w"

text \<open>Order of the non-NaN values; both zeros have key 0.\<close>

definition f64_key :: "f64 \<Rightarrow> int" where
  "f64_key w = (if f64_neg w then - f64_mag w else f64_mag w)"

definition f64_gt :: "f64 \<Rightarrow> f64 \<Rightarrow> bool" where
  "f64_gt a b \<longleftrightarrow> \<not> f64_is_nan a \<and> \<not> f64_is_nan b \<and> f64_key b < f64_key a"

definition f64_ge :: "f64 \<Rightarrow> f64 \<Rightarrow> bool" where
  "f64_ge a b \<longleftrightarrow> \<not> f64_is_nan a \<and> \<not> f64_is_nan b \<and> f64_key b \<le> f64_key a"

definition f64_eq :: "f64 \<Rightarrow> f64 \<Rightarrow> bool" where
  "f64_eq a b \<longleftrightarrow> \<not> f64_is_nan a \<and> \<not> f64_is_nan b \<and> f64_key a = f64_key b"

text \<open>\<open>f64::max\<close>: a NaN gives way to the other argument.\<close>

definition f64_max :: "f64 \<Rightarrow> f64 \<Rightarrow> f64" where
  "f64_max a b = (if f64_is_nan a then b else if f64_is_nan b then a
                  else if f64_key b \<le> f64_key a then a else b)"

text \<open>\<open>f64::total_cmp\<close>: the bits of a negative value flipped, compared as signed integers.\<close>

definition f64_total_key :: "f64 \<Rightarrow> int" where
  "f64_total_key w = (if f64_neg w then - f64_mag w - 1 else f64_mag w)"

definition f64_one :: f64 where
  "f64_one = 0x3FF0000000000000"

text \<open>\<open>w.clamp(0.0, 1.0)\<close>: a NaN stays a NaN.\<close>

definition f64_clamp01 :: "f64 \<Rightarrow> f64" where
  "f64_clamp01 w = (if f64_gt 0 w then 0 else if f64_gt w f64_one then f64_one else w)"

lemma f64_gt_irrefl [simp]: "\<not> f64_gt a a"
  by (simp add: f64_gt_def)

lemma f64_max_is_one_of: "f64_max a b = a \<or> f64_max a b = b"
  by (auto simp: f64_max_def)

lemma f64_gt_max_left: "f64_gt a t \<Longrightarrow> f64_gt (f64_max a b) t"
  by (auto simp: f64_gt_def f64_max_def)

lemma f64_gt_max_right: "f64_gt b t \<Longrightarrow> f64_gt (f64_max a b) t"
  by (auto simp: f64_gt_def f64_max_def)

lemma f64_gt_max: "f64_gt (f64_max a b) t \<Longrightarrow> f64_gt a t \<or> f64_gt b t"
  using f64_max_is_one_of [of a b] by auto

lemma foldl_f64_max_gt:
  "f64_gt (foldl f64_max a xs) t \<longleftrightarrow> f64_gt a t \<or> (\<exists>x\<in>set xs. f64_gt x t)"
proof (induction xs arbitrary: a)
  case (Cons x xs)
  show ?case
    using f64_gt_max_left [of a t x] f64_gt_max_right [of x t a] f64_gt_max [of a x t]
    by (auto simp: Cons.IH)
qed simp

text \<open>The maximum of a list passes a threshold exactly when one of its elements does.\<close>

lemma reduce_f64_max_gt:
  "(\<exists>m. reduce f64_max xs = Some m \<and> f64_gt m t) \<longleftrightarrow> (\<exists>x\<in>set xs. f64_gt x t)"
  by (cases xs) (auto simp: foldl_f64_max_gt)

section \<open>Rounding a quotient of integers\<close>

text \<open>
  \<open>round_ratio n d\<close>: the integer nearest to \<open>n / d\<close>, ties to even. Here and below the
  numerators are not negative and the denominators are positive.
\<close>

definition round_ratio :: "int \<Rightarrow> int \<Rightarrow> int" where
  "round_ratio n d =
     (let q = n div d; r = n mod d
      in if 2 * r < d then q else if d < 2 * r then q + 1 else if even q then q else q + 1)"

function ilog2 :: "int \<Rightarrow> int" where
  "ilog2 n = (if n < 2 then 0 else 1 + ilog2 (n div 2))"
  by pat_completeness auto
termination
  by (relation "measure nat") auto

declare ilog2.simps [simp del]

text \<open>\<open>x * 2 ^ k\<close> where \<open>k\<close> is positive, \<open>x\<close> otherwise.\<close>

definition scale :: "int \<Rightarrow> int \<Rightarrow> int" where
  "scale k x = x * 2 ^ nat k"

text \<open>\<open>2 ^ k \<le> n / d\<close>\<close>

definition ratio_ge_pow :: "int \<Rightarrow> int \<Rightarrow> int \<Rightarrow> bool" where
  "ratio_ge_pow n d k \<longleftrightarrow> scale k d \<le> scale (- k) n"

text \<open>The exponent \<open>e\<close> with \<open>2 ^ e \<le> n / d < 2 ^ (e + 1)\<close>.\<close>

definition ratio_exp :: "int \<Rightarrow> int \<Rightarrow> int" where
  "ratio_exp n d = (let e = ilog2 n - ilog2 d in if ratio_ge_pow n d e then e else e - 1)"

text \<open>\<open>n / d * 2 ^ k\<close> rounded to an integer.\<close>

definition round_scaled :: "int \<Rightarrow> int \<Rightarrow> int \<Rightarrow> int" where
  "round_scaled n d k = round_ratio (scale k n) (scale (- k) d)"

text \<open>
  The nearest \<open>f64\<close> to the quotient \<open>n / d\<close> for \<open>0 < d\<close>: the exponent is cut off below at
  the subnormal range; a result past the largest finite value is infinity.
\<close>

definition f64_bits_of_ratio :: "int \<Rightarrow> int \<Rightarrow> int" where
  "f64_bits_of_ratio n d =
     (if n = 0 then 0
      else let e = max (ratio_exp n d) (- 1022)
           in min f64_inf_mag ((e + 1022) * 2 ^ 52 + round_scaled n d (52 - e)))"

definition f64_of_ratio :: "bool \<Rightarrow> int \<Rightarrow> int \<Rightarrow> f64" where
  "f64_of_ratio neg n d = word_of_int (f64_bits_of_ratio n d + (if neg then 2 ^ 63 else 0))"

text \<open>The quotient rounded to \<open>p\<close> significant bits, as a numerator and a denominator.\<close>

definition fl_ratio :: "int \<Rightarrow> int \<Rightarrow> int \<Rightarrow> int \<times> int" where
  "fl_ratio p n d =
     (if n = 0 then (0, 1)
      else let k = p - 1 - ratio_exp n d
           in (scale (- k) (round_scaled n d k), scale k 1))"

section \<open>Single precision\<close>

type_synonym f32 = "32 word"

definition f32_mag :: "f32 \<Rightarrow> int" where
  "f32_mag w = uint w mod 2 ^ 31"

definition f32_inf_mag :: int where
  "f32_inf_mag = 255 * 2 ^ 23"

definition f32_is_nan :: "f32 \<Rightarrow> bool" where
  "f32_is_nan w \<longleftrightarrow> f32_inf_mag < f32_mag w"

definition f32_key :: "f32 \<Rightarrow> int" where
  "f32_key w = (if 2 ^ 31 \<le> uint w then - f32_mag w else f32_mag w)"

definition f32_le :: "f32 \<Rightarrow> f32 \<Rightarrow> bool" where
  "f32_le a b \<longleftrightarrow> \<not> f32_is_nan a \<and> \<not> f32_is_nan b \<and> f32_key a \<le> f32_key b"

text \<open>The nearest \<open>f32\<close> to \<open>n / d\<close> for \<open>0 \<le> n\<close> and \<open>0 < d\<close>.\<close>

definition f32_of_ratio :: "int \<Rightarrow> int \<Rightarrow> f32" where
  "f32_of_ratio n d =
     (if n = 0 then 0
      else let e = max (ratio_exp n d) (- 126)
           in word_of_int (min f32_inf_mag ((e + 126) * 2 ^ 23 + round_scaled n d (23 - e))))"

text \<open>\<open>a as f32 / b as f32\<close> for \<open>usize\<close> values with \<open>b\<close> positive: each operand is rounded, then the quotient.\<close>

definition f32_quotient :: "int \<Rightarrow> int \<Rightarrow> f32" where
  "f32_quotient a b =
     (case fl_ratio 24 a 1 of (n, d) \<Rightarrow> case fl_ratio 24 b 1 of (n', d') \<Rightarrow> f32_of_ratio (n * d') (d * n'))"

section \<open>Parsing: \<open>str::parse::<f64>\<close>\<close>

definition is_digit :: "char \<Rightarrow> bool" where
  "is_digit c \<longleftrightarrow> 48 \<le> byte c \<and> byte c \<le> 57"

definition digits_val :: "string \<Rightarrow> int" where
  "digits_val s = foldl (\<lambda>a c. 10 * a + (byte c - 48)) 0 s"

definition split_sign :: "string \<Rightarrow> bool \<times> string" where
  "split_sign s = (case s of [] \<Rightarrow> (False, [])
     | c # r \<Rightarrow> if c = CHR ''-'' then (True, r) else if c = CHR ''+'' then (False, r) else (False, s))"

definition split_digits :: "string \<Rightarrow> string \<times> string" where
  "split_digits s = (takeWhile is_digit s, dropWhile is_digit s)"

definition parse_exponent :: "string \<Rightarrow> int option" where
  "parse_exponent s =
     (case s of [] \<Rightarrow> Some 0
      | c # r \<Rightarrow>
          if c = CHR ''e'' \<or> c = CHR ''E'' then
            (let (neg, t) = split_sign r; (ds, rest) = split_digits t
             in if ds = [] \<or> rest \<noteq> [] then None
                else Some (if neg then - digits_val ds else digits_val ds))
          else None)"

definition parse_mantissa :: "string \<Rightarrow> string \<times> string \<times> string" where
  "parse_mantissa s =
     (let (ip, r) = split_digits s
      in case r of
           c # r' \<Rightarrow> if c = CHR ''.'' then (let (fp, r'') = split_digits r' in (ip, fp, r''))
                     else (ip, [], r)
         | [] \<Rightarrow> (ip, [], []))"

definition parse_f64 :: "string \<Rightarrow> f64 option" where
  "parse_f64 s =
     (let (neg, r) = split_sign s; sb = (if neg then 2 ^ 63 else 0); l = ascii_lower r
      in if l = ''inf'' \<or> l = ''infinity'' then Some (word_of_int (f64_inf_mag + sb))
         else if l = ''nan'' then Some (word_of_int (f64_inf_mag + 2 ^ 51 + sb))
         else let (ip, fp, rest) = parse_mantissa r
              in if ip = [] \<and> fp = [] then None
                 else case parse_exponent rest of
                        None \<Rightarrow> None
                      | Some e \<Rightarrow>
                          (let v = digits_val (ip @ fp); k = e - int (length fp)
                           in Some (f64_of_ratio neg (v * 10 ^ nat k) (10 ^ nat (- k)))))"

end
