(* ===== verification/Policy.thy ===== *)
theory Policy
  imports Rust_Float
begin

text \<open>
  The policy engine of \<open>core-runtime/src/policy.rs\<close>: rules, their validation and compilation,
  matching against a normalised context, the outcome projection (``Guardian Angel'') and the
  evaluation of a rule set. The URL parser, the regular expressions and the Unicode lower-case
  tables are not in the repository: they are the fields of \<open>policy_env\<close>.
\<close>

section \<open>Data\<close>

datatype RiskLevel = Low | Medium | High | Critical

record OutcomeProjection =
  projected_amount :: "f64 option"
  risk_level :: RiskLevel

record OutcomeProjectorConfig =
  oc_amount_regex :: "string option"
  oc_block_if_amount_exceeds :: "f64 option"
  oc_warn_if_amount_exceeds :: "f64 option"

datatype PolicyAction = Allow | Block | RequireHumanApproval

datatype ApprovalScope = ActionOnly | UntilNavigation | Timeboxed u64

record PolicyRule =
  pr_id :: string
  pr_domain :: "string option"
  pr_path_prefix :: "string option"
  pr_role :: "string option"
  pr_text_regex :: "string option"
  pr_context_regex :: "string option"
  pr_action :: PolicyAction
  pr_scope :: "ApprovalScope option"
  pr_outcome_projector :: "OutcomeProjectorConfig option"

record PolicyContext =
  pc_url :: string
  pc_action :: string
  pc_target_role :: "string option"
  pc_target_text :: "string option"
  pc_surrounding_text :: "string option"

record PolicyDecision =
  pd_action :: PolicyAction
  pd_rule_id :: "string option"
  pd_scope :: "ApprovalScope option"
  pd_outcome :: "OutcomeProjection option"

text \<open>
  What the engine takes from outside the repository: \<open>str::to_lowercase\<close>; the host and the
  path of a parsed URL; \<open>Regex::new\<close>, \<open>is_match\<close>, and the text of the group \<open>amount\<close>
  in each match of \<open>captures_iter\<close> (None where the group did not take part).
\<close>

record 're policy_env =
  env_lower :: "string \<Rightarrow> string"
  env_url_parse :: "string \<Rightarrow> (string option \<times> string) option"
  env_regex_new :: "string \<Rightarrow> 're option"
  env_is_match :: "'re \<Rightarrow> string \<Rightarrow> bool"
  env_amount_captures :: "'re \<Rightarrow> string \<Rightarrow> string option list"

datatype PolicyError =
    EmptyRuleId
  | DuplicatedRuleId string
  | EmptyPathPrefix string
  | MissingScope string
  | UnexpectedScope string
  | EmptyRegex string string
  | InvalidRegex string string string
  | EmptyAmountRegex
  | ThresholdWithoutRegex string
  | InvertedThresholds string f64 f64
  | MalformedRulesJson

record 're CompiledPolicyRule =
  cr_raw :: PolicyRule
  cr_text_regex :: "'re option"
  cr_context_regex :: "'re option"
  cr_amount_regex :: "'re option"

record NormalizedPolicyContext =
  nc_domain :: "string option"
  nc_path :: string
  nc_target_role :: "string option"
  nc_target_text :: "string option"
  nc_surrounding_text :: "string option"

record 're PolicyEngine =
  pe_rules :: "PolicyRule list"
  pe_compiled_rules :: "'re CompiledPolicyRule list"

section \<open>Validation and compilation\<close>

definition compile_regex ::
  "'re policy_env \<Rightarrow> string option \<Rightarrow> string \<Rightarrow> string \<Rightarrow> PolicyError + 're option" where
  "compile_regex env pattern rule_id field_name = (case pattern of
     None \<Rightarrow> Inr None
   | Some p \<Rightarrow>
       (let trimmed = trim p
        in if trimmed = [] then Inl (EmptyRegex rule_id field_name)
           else case env_regex_new env trimmed of
                  None \<Rightarrow> Inl (InvalidRegex rule_id field_name trimmed)
                | Some r \<Rightarrow> Inr (Some r)))"

definition try_new_rule :: "'re policy_env \<Rightarrow> PolicyRule \<Rightarrow> PolicyError + 're CompiledPolicyRule" where
  "try_new_rule env raw =
     res_bind (compile_regex env (pr_text_regex raw) (pr_id raw) ''text_regex'') (\<lambda>text_regex.
     res_bind (compile_regex env (pr_context_regex raw) (pr_id raw) ''context_regex'') (\<lambda>context_regex.
     res_bind (case Option.bind (pr_outcome_projector raw) oc_amount_regex of
                 None \<Rightarrow> Inr None
               | Some pat \<Rightarrow>
                   res_bind (compile_regex env (Some pat) (pr_id raw) ''outcome_projector.amount_regex'')
                     (\<lambda>r. case r of None \<Rightarrow> Inl EmptyAmountRegex | Some re \<Rightarrow> Inr (Some re)))
       (\<lambda>amount_regex.
          Inr \<lparr>cr_raw = raw, cr_text_regex = text_regex, cr_context_regex = context_regex,
               cr_amount_regex = amount_regex\<rparr>)))"

definition validate_path_prefix :: "PolicyRule \<Rightarrow> PolicyError + unit" where
  "validate_path_prefix rule = (case pr_path_prefix rule of
     None \<Rightarrow> Inr ()
   | Some prefix \<Rightarrow> ensure (trim prefix \<noteq> []) (EmptyPathPrefix (pr_id rule)))"

definition validate_scope :: "PolicyRule \<Rightarrow> PolicyError + unit" where
  "validate_scope rule = (case pr_action rule of
     RequireHumanApproval \<Rightarrow> ensure (pr_scope rule \<noteq> None) (MissingScope (pr_id rule))
   | Allow \<Rightarrow> ensure (pr_scope rule = None) (UnexpectedScope (pr_id rule))
   | Block \<Rightarrow> ensure (pr_scope rule = None) (UnexpectedScope (pr_id rule)))"

definition validate_projector :: "'re policy_env \<Rightarrow> PolicyRule \<Rightarrow> PolicyError + unit" where
  "validate_projector env rule = (case pr_outcome_projector rule of
     None \<Rightarrow> Inr ()
   | Some projector \<Rightarrow>
       res_then (ensure (\<not> ((oc_block_if_amount_exceeds projector \<noteq> None \<or>
                             oc_warn_if_amount_exceeds projector \<noteq> None) \<and>
                            oc_amount_regex projector = None))
                  (ThresholdWithoutRegex (pr_id rule)))
      (res_then (case (oc_block_if_amount_exceeds projector, oc_warn_if_amount_exceeds projector) of
                   (Some block, Some warn) \<Rightarrow>
                      ensure (f64_ge block warn) (InvertedThresholds (pr_id rule) block warn)
                 | _ \<Rightarrow> Inr ())
      (res_bind (compile_regex env (oc_amount_regex projector) (pr_id rule)
                   ''outcome_projector.amount_regex'') (\<lambda>_. Inr ()))))"

definition validate_rule :: "'re policy_env \<Rightarrow> string list \<Rightarrow> PolicyRule \<Rightarrow> PolicyError + unit" where
  "validate_rule env seen_ids rule =
     (let rid = trim (pr_id rule)
      in res_then (ensure (rid \<noteq> []) EmptyRuleId)
        (res_then (ensure (rid \<notin> set seen_ids) (DuplicatedRuleId rid))
        (res_then (validate_path_prefix rule)
        (res_then (validate_scope rule)
        (res_bind (compile_regex env (pr_text_regex rule) (pr_id rule) ''text_regex'') (\<lambda>_.
         res_bind (compile_regex env (pr_context_regex rule) (pr_id rule) ''context_regex'') (\<lambda>_.
         validate_projector env rule)))))))"

fun validate_rules :: "'re policy_env \<Rightarrow> string list \<Rightarrow> PolicyRule list \<Rightarrow> PolicyError + unit" where
  "validate_rules env seen_ids [] = Inr ()"
| "validate_rules env seen_ids (rule # rules) =
     res_then (validate_rule env seen_ids rule)
       (validate_rules env (trim (pr_id rule) # seen_ids) rules)"

definition validate_rule_set :: "'re policy_env \<Rightarrow> PolicyRule list \<Rightarrow> PolicyError + unit" where
  "validate_rule_set env rules = validate_rules env [] rules"

definition empty_engine :: "'re PolicyEngine" where
  "empty_engine = \<lparr>pe_rules = [], pe_compiled_rules = []\<rparr>"

definition try_new :: "'re policy_env \<Rightarrow> PolicyRule list \<Rightarrow> PolicyError + 're PolicyEngine" where
  "try_new env rules =
     res_then (validate_rule_set env rules)
    (res_bind (res_mapM (try_new_rule env) rules) (\<lambda>compiled_rules.
       Inr \<lparr>pe_rules = rules, pe_compiled_rules = compiled_rules\<rparr>))"

text \<open>\<open>serde_json::from_str\<close> is the parameter \<open>from_json\<close>.\<close>

definition try_from_json_str ::
  "'re policy_env \<Rightarrow> (string \<Rightarrow> PolicyRule list option) \<Rightarrow> string \<Rightarrow> PolicyError + 're PolicyEngine" where
  "try_from_json_str env from_json json = (case from_json json of
     None \<Rightarrow> Inl MalformedRulesJson
   | Some rules \<Rightarrow> try_new env rules)"

section \<open>Matching\<close>

definition normalize_optional_text :: "'re policy_env \<Rightarrow> string \<Rightarrow> string" where
  "normalize_optional_text env input = env_lower env (trim input)"

definition from_input :: "'re policy_env \<Rightarrow> PolicyContext \<Rightarrow> NormalizedPolicyContext" where
  "from_input env input =
     (let parsed_url = env_url_parse env (pc_url input);
          domain = map_option (env_lower env) (Option.bind parsed_url fst);
          path = (case parsed_url of Some url \<Rightarrow> snd url | None \<Rightarrow> ''/'')
      in \<lparr>nc_domain = domain, nc_path = path,
          nc_target_role = map_option (normalize_optional_text env) (pc_target_role input),
          nc_target_text = map_option (normalize_optional_text env) (pc_target_text input),
          nc_surrounding_text = map_option (normalize_optional_text env) (pc_surrounding_text input)\<rparr>)"

text \<open>The segment-aware test of a path prefix.\<close>

definition path_prefix_matches :: "string \<Rightarrow> string \<Rightarrow> bool" where
  "path_prefix_matches path path_prefix =
     (let prefix = trim path_prefix;
          is_exact = (path = prefix);
          next_is_separator = (length prefix < length path \<and> path ! length prefix = CHR ''/'');
          prefix_has_separator = ends_with prefix ''/''
      in starts_with path prefix \<and> (is_exact \<or> next_is_separator \<or> prefix_has_separator))"

definition ci_field_matches :: "string option \<Rightarrow> string option \<Rightarrow> bool" where
  "ci_field_matches wanted actual = (case wanted of
     None \<Rightarrow> True
   | Some w \<Rightarrow> (case actual of None \<Rightarrow> False | Some a \<Rightarrow> eq_ignore_ascii_case a (trim w)))"

definition regex_field_matches :: "'re policy_env \<Rightarrow> 're option \<Rightarrow> string option \<Rightarrow> bool" where
  "regex_field_matches env regex actual = (case regex of
     None \<Rightarrow> True
   | Some r \<Rightarrow> (case actual of None \<Rightarrow> False | Some a \<Rightarrow> env_is_match env r a))"

definition rule_matches :: "'re policy_env \<Rightarrow> 're CompiledPolicyRule \<Rightarrow> NormalizedPolicyContext \<Rightarrow> bool" where
  "rule_matches env rule ctx \<longleftrightarrow>
     ci_field_matches (pr_domain (cr_raw rule)) (nc_domain ctx) \<and>
     (case pr_path_prefix (cr_raw rule) of None \<Rightarrow> True | Some p \<Rightarrow> path_prefix_matches (nc_path ctx) p) \<and>
     ci_field_matches (pr_role (cr_raw rule)) (nc_target_role ctx) \<and>
     regex_field_matches env (cr_text_regex rule) (nc_target_text ctx) \<and>
     regex_field_matches env (cr_context_regex rule) (nc_surrounding_text ctx)"

section \<open>Outcome projection\<close>

definition parse_amount :: "string option \<Rightarrow> f64 option" where
  "parse_amount cap = Option.bind cap (\<lambda>raw. parse_f64 (filter (\<lambda>c. c \<noteq> CHR '','') raw))"

definition extract_amount ::
  "'re policy_env \<Rightarrow> 're option \<Rightarrow> string option \<Rightarrow> f64 option" where
  "extract_amount env amount_regex surrounding_text = (case (amount_regex, surrounding_text) of
     (Some re, Some text) \<Rightarrow> reduce f64_max (List.map_filter parse_amount (env_amount_captures env re text))
   | _ \<Rightarrow> None)"

definition exceeds :: "f64 option \<Rightarrow> f64 \<Rightarrow> bool" where
  "exceeds threshold amount = (case threshold of None \<Rightarrow> False | Some t \<Rightarrow> f64_gt amount t)"

definition compute_outcome ::
  "'re policy_env \<Rightarrow> 're CompiledPolicyRule \<Rightarrow> NormalizedPolicyContext
    \<Rightarrow> PolicyAction \<times> OutcomeProjection option" where
  "compute_outcome env rule ctx = (case pr_outcome_projector (cr_raw rule) of
     None \<Rightarrow> (pr_action (cr_raw rule), None)
   | Some projector \<Rightarrow>
       (let amount = extract_amount env (cr_amount_regex rule) (nc_surrounding_text ctx);
            (act, risk) = (case amount of
               Some a \<Rightarrow>
                 if exceeds (oc_block_if_amount_exceeds projector) a then (Block, Critical)
                 else if exceeds (oc_warn_if_amount_exceeds projector) a then
                   (case pr_action (cr_raw rule) of Allow \<Rightarrow> RequireHumanApproval | other \<Rightarrow> other, High)
                 else (pr_action (cr_raw rule), Medium)
             | None \<Rightarrow> (pr_action (cr_raw rule), Low))
        in (act, Some \<lparr>projected_amount = amount, risk_level = risk\<rparr>)))"

definition to_decision ::
  "'re policy_env \<Rightarrow> 're CompiledPolicyRule \<Rightarrow> NormalizedPolicyContext \<Rightarrow> PolicyDecision" where
  "to_decision env rule ctx =
     (let (act, outcome) = compute_outcome env rule ctx;
          scope = (case act of
             RequireHumanApproval \<Rightarrow>
               Some (case pr_scope (cr_raw rule) of Some s \<Rightarrow> s | None \<Rightarrow> ActionOnly)
           | _ \<Rightarrow> None)
      in \<lparr>pd_action = act, pd_rule_id = Some (pr_id (cr_raw rule)), pd_scope = scope, pd_outcome = outcome\<rparr>)"

definition allow_decision :: PolicyDecision where
  "allow_decision = \<lparr>pd_action = Allow, pd_rule_id = None, pd_scope = None, pd_outcome = None\<rparr>"

fun evaluate_rules ::
  "'re policy_env \<Rightarrow> 're CompiledPolicyRule list \<Rightarrow> NormalizedPolicyContext \<Rightarrow> PolicyDecision" where
  "evaluate_rules env [] ctx = allow_decision"
| "evaluate_rules env (rule # rules) ctx =
     (if rule_matches env rule ctx then to_decision env rule ctx else evaluate_rules env rules ctx)"

definition evaluate :: "'re policy_env \<Rightarrow> 're PolicyEngine \<Rightarrow> PolicyContext \<Rightarrow> PolicyDecision" where
  "evaluate env engine ctx = evaluate_rules env (pe_compiled_rules engine) (from_input env ctx)"


section \<open>The embedded default rules\<close>

definition default_rules :: "PolicyRule list" where
  "default_rules = (let bs = CHR 0x5C in
     [\<lparr>pr_id = ''block-account-destruction'', pr_domain = None, pr_path_prefix = None,
       pr_role = Some ''button'',
       pr_text_regex = Some (''(?i)delete'' @ [bs] @ ''s+account|remove'' @ [bs] @ ''s+account|close''
         @ [bs] @ ''s+account''),
       pr_context_regex = Some ''(?i)account|profile'',
       pr_action = Block, pr_scope = None, pr_outcome_projector = None\<rparr>,
      \<lparr>pr_id = ''require-approval-financial-action'', pr_domain = None, pr_path_prefix = None,
       pr_role = Some ''button'',
       pr_text_regex = Some (''(?i)pay|purchase|transfer|submit'' @ [bs] @ ''s+order|confirm''),
       pr_context_regex = Some (''(?i)total'' @ [bs] @ ''s*:|amount'' @ [bs] @ ''s*:|'' @ [bs] @ ''$''
         @ [bs] @ ''s*[0-9]''),
       pr_action = RequireHumanApproval, pr_scope = Some ActionOnly, pr_outcome_projector = None\<rparr>,
      \<lparr>pr_id = ''require-approval-payments-domain'', pr_domain = Some ''payments.example.com'',
       pr_path_prefix = Some ''/checkout'', pr_role = Some ''button'',
       pr_text_regex = Some ''(?i)submit|confirm|pay'', pr_context_regex = None,
       pr_action = RequireHumanApproval, pr_scope = Some UntilNavigation,
       pr_outcome_projector = None\<rparr>])"

text \<open>\<open>PolicyEngine::default\<close>; \<open>Inl\<close> is the panic of \<open>expect\<close>.\<close>

definition default_engine :: "'re policy_env \<Rightarrow> PolicyError + 're PolicyEngine" where
  "default_engine env = try_new env default_rules"

section \<open>Lemmas: matching\<close>

lemma path_prefix_matches_iff:
  "path_prefix_matches path p \<longleftrightarrow>
     (\<exists>r. path = trim p @ r \<and> (r = [] \<or> hd r = CHR ''/'' \<or> ends_with (trim p) ''/''))"
  by (auto simp: path_prefix_matches_def Let_def starts_with_iff hd_conv_nth nth_append)

text \<open>The segments of a path: what stands between its slashes.\<close>

fun path_segments :: "string \<Rightarrow> string list" where
  "path_segments [] = [[]]"
| "path_segments (c # s) =
     (if c = CHR ''/'' then [] # path_segments s
      else (c # hd (path_segments s)) # tl (path_segments s))"

lemma path_segments_not_Nil [simp]: "path_segments s \<noteq> []"
  by (induction s) auto

lemma path_segments_join [simp]: "join ''/'' (path_segments s) = s"
proof (induction s)
  case (Cons c s)
  then show ?case by (cases "path_segments s"; cases "tl (path_segments s)") auto
qed simp

lemma path_segments_append_slash: "path_segments (a @ CHR ''/'' # b) = path_segments a @ path_segments b"
  by (induction a) (auto simp: hd_append)

lemma join_append: "xs \<noteq> [] \<Longrightarrow> ys \<noteq> [] \<Longrightarrow> join sep (xs @ ys) = join sep xs @ sep @ join sep ys"
proof (induction sep xs rule: join.induct)
  case (2 sep s)
  then show ?case by (cases ys) auto
qed auto

lemma path_segments_prefix_iff:
  "(\<exists>ss. path_segments s = path_segments p @ ss) \<longleftrightarrow> s = p \<or> (\<exists>r. s = p @ CHR ''/'' # r)"
proof
  assume "\<exists>ss. path_segments s = path_segments p @ ss"
  then obtain ss where ss: "path_segments s = path_segments p @ ss" by blast
  show "s = p \<or> (\<exists>r. s = p @ CHR ''/'' # r)"
  proof (cases "ss = []")
    case True
    with ss have "join ''/'' (path_segments s) = join ''/'' (path_segments p)" by simp
    then show ?thesis by simp
  next
    case False
    with ss have "join ''/'' (path_segments s) = join ''/'' (path_segments p) @ ''/'' @ join ''/'' ss"
      by (simp add: join_append)
    then show ?thesis by simp
  qed
next
  assume "s = p \<or> (\<exists>r. s = p @ CHR ''/'' # r)"
  then show "\<exists>ss. path_segments s = path_segments p @ ss"
    by (auto simp: path_segments_append_slash)
qed

text \<open>
  A path prefix that does not end in a slash is matched by exactly the paths whose list of
  segments starts with all the segments of the (trimmed) prefix: \<open>/login\<close> matches \<open>/login\<close>
  and \<open>/login/step\<close> and never \<open>/logina\<close>.
\<close>

theorem path_prefix_matches_segments:
  assumes "\<not> ends_with (trim p) ''/''"
  shows "path_prefix_matches path p \<longleftrightarrow> (\<exists>ss. path_segments path = path_segments (trim p) @ ss)"
proof -
  have "path_prefix_matches path p \<longleftrightarrow> path = trim p \<or> (\<exists>r. path = trim p @ CHR ''/'' # r)"
    using assms by (auto simp: path_prefix_matches_iff) (metis list.sel(1) neq_Nil_conv)
  then show ?thesis by (simp add: path_segments_prefix_iff)
qed

theorem path_prefix_matches_segments_witness:
  "\<not> ends_with (trim ''/login'') ''/'' \<and> path_prefix_matches ''/login/step'' '' /login'' \<and>
   \<not> path_prefix_matches ''/logina'' ''/login''"
proof -
  have h: "\<not> ends_with (trim ''/login'') ''/''" "\<not> ends_with (trim '' /login'') ''/''"
    by code_simp+
  have t: "trim ''/login'' = ''/login''" "trim '' /login'' = ''/login''" by code_simp+
  show ?thesis
    using path_prefix_matches_segments [OF h(1), of "''/logina''"]
      path_prefix_matches_segments [OF h(2), of "''/login/step''"] h(1)
    by (simp add: t)
qed

section \<open>Lemmas: validation and compilation\<close>

lemma compile_regex_Some:
  "compile_regex env (Some p) i f = Inr r \<Longrightarrow> \<exists>re. r = Some re"
  by (cases "env_regex_new env (trim p)"; cases r) (simp_all add: compile_regex_def Let_def split: if_splits)

lemma validate_rule_compiles:
  assumes "validate_rule env seen rule = Inr ()"
  shows "\<exists>c. try_new_rule env rule = Inr c"
proof -
  from assms obtain t c where
    t: "compile_regex env (pr_text_regex rule) (pr_id rule) ''text_regex'' = Inr t" and
    c: "compile_regex env (pr_context_regex rule) (pr_id rule) ''context_regex'' = Inr c" and
    p: "validate_projector env rule = Inr ()"
    by (auto simp: validate_rule_def Let_def res_then_Inr_iff res_bind_Inr_iff)
  have "\<exists>a. (case Option.bind (pr_outcome_projector rule) oc_amount_regex of
                 None \<Rightarrow> Inr None
               | Some pat \<Rightarrow>
                   res_bind (compile_regex env (Some pat) (pr_id rule) ''outcome_projector.amount_regex'')
                     (\<lambda>r. case r of None \<Rightarrow> Inl EmptyAmountRegex | Some re \<Rightarrow> Inr (Some re))) = Inr a"
  proof (cases "Option.bind (pr_outcome_projector rule) oc_amount_regex")
    case (Some pat)
    then obtain pr where pr: "pr_outcome_projector rule = Some pr" "oc_amount_regex pr = Some pat"
      by (cases "pr_outcome_projector rule") auto
    with p obtain r where
      r: "compile_regex env (Some pat) (pr_id rule) ''outcome_projector.amount_regex'' = Inr r"
      by (auto simp: validate_projector_def res_then_Inr_iff res_bind_Inr_iff)
    with compile_regex_Some [OF r] Some show ?thesis by auto
  qed simp
  with t c show ?thesis by (auto simp: try_new_rule_def)
qed

lemma try_new_rule_raw: "try_new_rule env raw = Inr c \<Longrightarrow> cr_raw c = raw"
  by (auto simp: try_new_rule_def res_bind_Inr_iff)

lemma validate_rules_each:
  "validate_rules env seen rules = Inr () \<Longrightarrow> rule \<in> set rules \<Longrightarrow>
     \<exists>seen'. validate_rule env seen' rule = Inr ()"
  by (induction rules arbitrary: seen) (auto simp: res_then_Inr_iff)

lemma validate_rules_ids:
  "validate_rules env seen rules = Inr () \<Longrightarrow>
     distinct (map (trim \<circ> pr_id) rules) \<and> (\<forall>r\<in>set rules. trim (pr_id r) \<noteq> [] \<and> trim (pr_id r) \<notin> set seen)"
  by (induction rules arbitrary: seen)
    (force simp: res_then_Inr_iff validate_rule_def Let_def)+

text \<open>
  The second compilation pass of \<open>try_new\<close> cannot fail: an engine is built from exactly the
  rule sets the validation accepts, it keeps the rules as given and has one compiled rule per
  rule, in order.
\<close>

theorem try_new_iff_valid:
  "(\<exists>e. try_new env rules = Inr e \<and> pe_rules e = rules \<and> map cr_raw (pe_compiled_rules e) = rules)
     \<longleftrightarrow> validate_rule_set env rules = Inr ()"
proof
  assume v: "validate_rule_set env rules = Inr ()"
  then have "\<forall>r\<in>set rules. \<exists>c. try_new_rule env r = Inr c"
    using validate_rules_each validate_rule_compiles unfolding validate_rule_set_def by blast
  then obtain cs where cs: "res_mapM (try_new_rule env) rules = Inr cs"
    using res_mapM_total by blast
  then have "list_all2 (\<lambda>r c. try_new_rule env r = Inr c) rules cs" by (simp add: res_mapM_Inr_iff)
  then have "map cr_raw cs = rules"
    by (induction rule: list_all2_induct) (auto simp: try_new_rule_raw)
  with v cs show "\<exists>e. try_new env rules = Inr e \<and> pe_rules e = rules \<and> map cr_raw (pe_compiled_rules e) = rules"
    by (simp add: try_new_def)
qed (auto simp: try_new_def res_then_Inr_iff)

lemma try_new_Inr:
  assumes "try_new env rules = Inr e"
  shows "pe_rules e = rules" "map cr_raw (pe_compiled_rules e) = rules"
    "distinct (map (trim \<circ> pr_id) rules)"
proof -
  from assms obtain cs where v: "validate_rule_set env rules = Inr ()"
    and cs: "res_mapM (try_new_rule env) rules = Inr cs"
    and e: "e = \<lparr>pe_rules = rules, pe_compiled_rules = cs\<rparr>"
    by (auto simp: try_new_def res_then_Inr_iff res_bind_Inr_iff)
  from cs have "list_all2 (\<lambda>r c. try_new_rule env r = Inr c) rules cs" by (simp add: res_mapM_Inr_iff)
  then have "map cr_raw cs = rules"
    by (induction rule: list_all2_induct) (auto simp: try_new_rule_raw)
  with e show "pe_rules e = rules" "map cr_raw (pe_compiled_rules e) = rules" by simp_all
  from v show "distinct (map (trim \<circ> pr_id) rules)"
    using validate_rules_ids unfolding validate_rule_set_def by blast
qed

text \<open>
  The embedded default rules load: whenever the regular expression compiler accepts every
  pattern they contain, \<open>PolicyEngine::default\<close> does not panic.
\<close>

theorem default_engine_loads:
  assumes "\<forall>r\<in>set default_rules. \<forall>p\<in>set_option (pr_text_regex r) \<union> set_option (pr_context_regex r).
             env_regex_new env p \<noteq> None"
  shows "\<exists>e. default_engine env = Inr e \<and> length (pe_compiled_rules e) = 3"
proof -
  have trims: "list_all (\<lambda>r. trim (pr_id r) = pr_id r \<and>
      (\<forall>p\<in>set_option (pr_text_regex r) \<union> set_option (pr_context_regex r) \<union> set_option (pr_path_prefix r).
          trim p = p)) default_rules"
    by code_simp
  have "validate_rule_set env default_rules = Inr ()"
    using assms trims
    by (auto simp: validate_rule_set_def default_rules_def Let_def validate_rule_def
        validate_path_prefix_def validate_scope_def validate_projector_def compile_regex_def)
  then obtain e where e: "try_new env default_rules = Inr e" "map cr_raw (pe_compiled_rules e) = default_rules"
    using try_new_iff_valid by blast
  from e(2) have "length (pe_compiled_rules e) = length default_rules" by (metis length_map)
  with e(1) show ?thesis by (simp add: default_engine_def default_rules_def Let_def)
qed

text \<open>An environment whose regular expressions are literal texts, for the witnesses.\<close>

definition literal_env :: "string policy_env" where
  "literal_env = \<lparr>env_lower = ascii_lower, env_url_parse = (\<lambda>u. Some (Some ''shop.example.com'', ''/checkout'')),
     env_regex_new = Some, env_is_match = (\<lambda>re s. str_contains s re),
     env_amount_captures = (\<lambda>re s. map Some (split_whitespace s))\<rparr>"

theorem default_engine_loads_witness:
  "\<exists>e. default_engine literal_env = Inr e \<and> length (pe_compiled_rules e) = 3"
  by (rule default_engine_loads) (simp add: literal_env_def)

section \<open>Lemmas: evaluation\<close>

lemma evaluate_rules_skip:
  "\<forall>r\<in>set pre. \<not> rule_matches env r ctx \<Longrightarrow> evaluate_rules env (pre @ rs) ctx = evaluate_rules env rs ctx"
  by (induction pre) auto

lemma evaluate_rules_cases:
  "(\<forall>r\<in>set rs. \<not> rule_matches env r ctx) \<and> evaluate_rules env rs ctx = allow_decision \<or>
   (\<exists>k<length rs. rule_matches env (rs ! k) ctx \<and> (\<forall>j<k. \<not> rule_matches env (rs ! j) ctx) \<and>
      evaluate_rules env rs ctx = to_decision env (rs ! k) ctx)"
proof (induction rs)
  case (Cons r rs)
  show ?case
  proof (cases "rule_matches env r ctx")
    case False
    from Cons.IH show ?thesis
    proof
      assume "\<exists>k<length rs. rule_matches env (rs ! k) ctx \<and> (\<forall>j<k. \<not> rule_matches env (rs ! j) ctx) \<and>
        evaluate_rules env rs ctx = to_decision env (rs ! k) ctx"
      then obtain k where k: "k < length rs" "rule_matches env (rs ! k) ctx"
        "\<forall>j<k. \<not> rule_matches env (rs ! j) ctx"
        "evaluate_rules env rs ctx = to_decision env (rs ! k) ctx" by blast
      with False have "\<forall>j<Suc k. \<not> rule_matches env ((r # rs) ! j) ctx"
        by (auto simp: nth_Cons split: nat.splits)
      with k False show ?thesis by (intro disjI2 exI [of _ "Suc k"]) simp
    qed (use False in auto)
  qed auto
qed simp

lemma to_decision_rule_id [simp]: "pd_rule_id (to_decision env r ctx) = Some (pr_id (cr_raw r))"
  by (simp add: to_decision_def Let_def split: prod.splits)

lemma to_decision_action: "pd_action (to_decision env r ctx) = fst (compute_outcome env r ctx)"
  by (simp add: to_decision_def Let_def split: prod.splits)

text \<open>
  C5: a decision that names a rule is attributable: in an engine built by \<open>try_new\<close> exactly one
  rule carries that id, this rule matches the context and no earlier rule does; a decision that
  names none is the default allow, and then no rule at all matches.
\<close>

theorem evaluate_attribution:
  assumes "try_new env rules = Inr e"
  shows "case pd_rule_id (evaluate env e ctx) of
      None \<Rightarrow> evaluate env e ctx = allow_decision \<and>
              (\<forall>r\<in>set (pe_compiled_rules e). \<not> rule_matches env r (from_input env ctx))
    | Some i \<Rightarrow> \<exists>k<length rules. pr_id (rules ! k) = i \<and>
              (\<forall>j<length rules. pr_id (rules ! j) = i \<longrightarrow> j = k) \<and>
              rule_matches env (pe_compiled_rules e ! k) (from_input env ctx) \<and>
              (\<forall>j<k. \<not> rule_matches env (pe_compiled_rules e ! j) (from_input env ctx))"
proof -
  note e = try_new_Inr [OF assms]
  let ?cs = "pe_compiled_rules e" and ?n = "from_input env ctx"
  from evaluate_rules_cases [of ?cs env ?n]
  show ?thesis
  proof
    assume "\<exists>k<length ?cs. rule_matches env (?cs ! k) ?n \<and> (\<forall>j<k. \<not> rule_matches env (?cs ! j) ?n) \<and>
      evaluate_rules env ?cs ?n = to_decision env (?cs ! k) ?n"
    then obtain k where k: "k < length ?cs" "rule_matches env (?cs ! k) ?n"
      "\<forall>j<k. \<not> rule_matches env (?cs ! j) ?n" "evaluate_rules env ?cs ?n = to_decision env (?cs ! k) ?n"
      by blast
    have len: "length ?cs = length rules" using e(2) by (metis length_map)
    have raw: "cr_raw (?cs ! k) = rules ! k" using e(2) k(1) by (metis nth_map)
    have "pr_id (rules ! j) = pr_id (rules ! k) \<longrightarrow> j = k" if "j < length rules" for j
      using e(3) that k(1) len unfolding distinct_conv_nth by (metis comp_apply length_map nth_map)
    with k len raw show ?thesis by (auto simp: evaluate_def)
  qed (auto simp: evaluate_def allow_decision_def)
qed

text \<open>
  A decision asks for an approval scope exactly when it requires human approval.
\<close>

theorem evaluate_scope_iff:
  "pd_scope (evaluate env e ctx) \<noteq> None \<longleftrightarrow> pd_action (evaluate env e ctx) = RequireHumanApproval"
proof -
  have *: "pd_scope (to_decision env r n) = None \<longleftrightarrow> pd_action (to_decision env r n) \<noteq> RequireHumanApproval" for r n
    by (auto simp: to_decision_def Let_def split: prod.splits PolicyAction.splits)
  from evaluate_rules_cases [of "pe_compiled_rules e" env "from_input env ctx"]
  show ?thesis
  proof
    assume "\<exists>k<length (pe_compiled_rules e).
      rule_matches env (pe_compiled_rules e ! k) (from_input env ctx) \<and>
      (\<forall>j<k. \<not> rule_matches env (pe_compiled_rules e ! j) (from_input env ctx)) \<and>
      evaluate_rules env (pe_compiled_rules e) (from_input env ctx) =
        to_decision env (pe_compiled_rules e ! k) (from_input env ctx)"
    then obtain k where "evaluate env e ctx = to_decision env (pe_compiled_rules e ! k) (from_input env ctx)"
      by (auto simp: evaluate_def)
    with * show ?thesis by metis
  qed (simp add: evaluate_def allow_decision_def)
qed

section \<open>Lemmas: outcome projection\<close>

fun severity :: "PolicyAction \<Rightarrow> nat" where
  "severity Allow = 0"
| "severity RequireHumanApproval = 1"
| "severity Block = 2"

lemma compute_outcome_severity:
  "severity (pr_action (cr_raw r)) \<le> severity (fst (compute_outcome env r ctx))"
  by (cases "pr_action (cr_raw r)")
    (auto simp: compute_outcome_def Let_def split: option.splits if_splits PolicyAction.splits)

lemma extract_amount_exceeds:
  assumes "cr_amount_regex r = Some re" "nc_surrounding_text ctx = Some txt"
  shows "(\<exists>a. extract_amount env (cr_amount_regex r) (nc_surrounding_text ctx) = Some a \<and> f64_gt a t)
     \<longleftrightarrow> (\<exists>cap\<in>set (env_amount_captures env re txt). \<exists>a. parse_amount cap = Some a \<and> f64_gt a t)"
  using assms reduce_f64_max_gt [of "List.map_filter parse_amount (env_amount_captures env re txt)" t]
  by (auto simp: extract_amount_def map_filter_def) (metis option.sel option.discI)+

lemma extract_amount_NoneD:
  assumes "extract_amount env re txt = None" "re = Some r" "txt = Some s"
  shows "\<forall>cap\<in>set (env_amount_captures env r s). parse_amount cap = None"
proof -
  have "List.map_filter parse_amount (env_amount_captures env r s) = []"
    using assms by (cases "List.map_filter parse_amount (env_amount_captures env r s)")
      (auto simp: extract_amount_def)
  then show ?thesis by (auto simp: map_filter_def filter_empty_conv)
qed

text \<open>
  The outcome projector never weakens a rule: with Allow below RequireHumanApproval below
  Block, the action of a decision is at least as severe as the action its rule declares.
\<close>

theorem projector_never_weakens:
  "severity (pr_action (cr_raw r)) \<le> severity (pd_action (to_decision env r ctx))"
  by (simp add: to_decision_action compute_outcome_severity)

lemma critical_iff_exceeds:
  assumes "pr_outcome_projector (cr_raw r) = Some p"
  shows "map_option risk_level (pd_outcome (to_decision env r ctx)) = Some Critical \<longleftrightarrow>
     (\<exists>a. extract_amount env (cr_amount_regex r) (nc_surrounding_text ctx) = Some a \<and>
          exceeds (oc_block_if_amount_exceeds p) a)"
  using assms
  by (auto simp: to_decision_def compute_outcome_def Let_def split: prod.splits option.splits if_splits)

lemma critical_is_block:
  "map_option risk_level (pd_outcome (to_decision env r ctx)) = Some Critical \<Longrightarrow>
     pd_action (to_decision env r ctx) = Block"
  by (auto simp: to_decision_def compute_outcome_def Let_def split: prod.splits option.splits if_splits)

text \<open>
  No page text can talk the projector out of a block. Let \<open>r\<close> be the first rule that
  matches, with block threshold \<open>t\<close>. If any captured amount parses to a value over \<open>t\<close>, the
  decision is a block of critical risk, whatever other amounts the text shows; and the risk is
  critical only then.
\<close>

theorem block_threshold_decides:
  assumes "pe_compiled_rules e = pre @ r # post"
    and "\<forall>x\<in>set pre. \<not> rule_matches env x (from_input env ctx)"
    and "rule_matches env r (from_input env ctx)"
    and "pr_outcome_projector (cr_raw r) = Some p" "oc_block_if_amount_exceeds p = Some t"
    and "cr_amount_regex r = Some re" "nc_surrounding_text (from_input env ctx) = Some txt"
  shows "if \<exists>cap\<in>set (env_amount_captures env re txt). \<exists>a. parse_amount cap = Some a \<and> f64_gt a t
         then pd_action (evaluate env e ctx) = Block \<and>
              map_option risk_level (pd_outcome (evaluate env e ctx)) = Some Critical
         else map_option risk_level (pd_outcome (evaluate env e ctx)) \<noteq> Some Critical"
proof -
  have ev: "evaluate env e ctx = to_decision env r (from_input env ctx)"
    using assms(1-3) by (simp add: evaluate_def evaluate_rules_skip)
  have "map_option risk_level (pd_outcome (evaluate env e ctx)) = Some Critical \<longleftrightarrow>
     (\<exists>cap\<in>set (env_amount_captures env re txt). \<exists>a. parse_amount cap = Some a \<and> f64_gt a t)"
    unfolding ev critical_iff_exceeds [OF assms(4)] assms(5) exceeds_def
    using extract_amount_exceeds [OF assms(6,7), where env = env and t = t] by simp
  with critical_is_block [of env r "from_input env ctx"] show ?thesis by (simp add: ev)
qed

definition pay_rule :: PolicyRule where
  "pay_rule = \<lparr>pr_id = ''guardian-pay'', pr_domain = None, pr_path_prefix = None, pr_role = None,
     pr_text_regex = None, pr_context_regex = None, pr_action = RequireHumanApproval,
     pr_scope = Some ActionOnly,
     pr_outcome_projector = Some \<lparr>oc_amount_regex = Some ''amount'',
       oc_block_if_amount_exceeds = Some 0x407F400000000000,
       oc_warn_if_amount_exceeds = Some 0x4059000000000000\<rparr>\<rparr>"

definition pay_context :: PolicyContext where
  "pay_context = \<lparr>pc_url = ''https://shop.example.com/checkout'', pc_action = ''click'',
     pc_target_role = Some ''button'', pc_target_text = Some ''Pay Now'',
     pc_surrounding_text = Some ''save 10 off your total of 900''\<rparr>"

definition pay_compiled :: "string CompiledPolicyRule" where
  "pay_compiled = \<lparr>cr_raw = pay_rule, cr_text_regex = None, cr_context_regex = None,
     cr_amount_regex = Some ''amount''\<rparr>"

lemma pay_rule_loads:
  "try_new literal_env [pay_rule] = Inr \<lparr>pe_rules = [pay_rule], pe_compiled_rules = [pay_compiled]\<rparr>"
  by code_simp

theorem evaluate_attribution_witness:
  "\<exists>k<length [pay_rule]. pr_id ([pay_rule] ! k) = ''guardian-pay'' \<and>
     rule_matches literal_env pay_compiled (from_input literal_env pay_context)"
  using evaluate_attribution [OF pay_rule_loads, of pay_context]
  by (simp add: evaluate_def) (auto simp: pay_rule_def pay_compiled_def rule_matches_def ci_field_matches_def
      regex_field_matches_def split: option.splits)

theorem block_threshold_decides_witness:
  "pd_action (evaluate literal_env \<lparr>pe_rules = [pay_rule], pe_compiled_rules = [pay_compiled]\<rparr> pay_context) = Block"
proof -
  let ?e = "\<lparr>pe_rules = [pay_rule], pe_compiled_rules = [pay_compiled]\<rparr>"
  let ?txt = "''save 10 off your total of 900''"
  have st: "nc_surrounding_text (from_input literal_env pay_context) = Some ?txt" by code_simp
  have m: "rule_matches literal_env pay_compiled (from_input literal_env pay_context)" by code_simp
  have cap: "Some ''900'' \<in> set (env_amount_captures literal_env ''amount'' ?txt)" by code_simp
  have big: "parse_amount (Some ''900'') = Some 0x408c200000000000" by code_simp
  have gt: "f64_gt 0x408c200000000000 0x407F400000000000" by code_simp
  show ?thesis
    using block_threshold_decides [of ?e "[]" pay_compiled "[]" literal_env pay_context
        "the (pr_outcome_projector pay_rule)" "0x407F400000000000" "''amount''" ?txt] st m cap big gt
    by (auto simp: pay_compiled_def pay_rule_def split: if_splits)
qed

end
