(* ===== verification/Bounded_Log.thy ===== *)
theory Bounded_Log
  imports Main
begin

text \<open>
  The contract of the bounded buffers of the program (recent audit events, action log, mismatch
  log): pushing appends, and the oldest entries are dropped beyond a capacity. A client of the
  contract sees the most recent entries, in order.
\<close>

text \<open>\<open>while buffer.len() > limit { buffer.pop_front(); }\<close>\<close>

fun pop_front_while_over :: "nat \<Rightarrow> 'e list \<Rightarrow> 'e list" where
  "pop_front_while_over limit [] = []"
| "pop_front_while_over limit (x # xs) =
     (if limit < length (x # xs) then pop_front_while_over limit xs else x # xs)"

lemma pop_front_while_over_drop: "pop_front_while_over limit xs = drop (length xs - limit) xs"
proof (induction xs)
  case (Cons x xs)
  then show ?case by (cases "limit < length (x # xs)") (auto simp: Suc_diff_le)
qed simp

locale bounded_log =
  fixes push :: "'e list \<Rightarrow> 'e \<Rightarrow> 'e list" and cap :: nat
  assumes cap_pos: "0 < cap"
    and push_room: "length xs < cap \<Longrightarrow> push xs x = xs @ [x]"
    and push_full: "length xs = cap \<Longrightarrow> push xs x = tl xs @ [x]"
begin

lemma push_recent: "length xs \<le> cap \<Longrightarrow> push xs x = drop (length xs + 1 - cap) (xs @ [x])"
proof (cases "length xs = cap")
  case True
  then have "xs \<noteq> []" using cap_pos by auto
  then show ?thesis using True by (cases xs) (simp_all add: push_full)
next
  case False
  moreover assume "length xs \<le> cap"
  ultimately show ?thesis by (simp add: push_room)
qed

lemma length_push: "length xs \<le> cap \<Longrightarrow> length (push xs x) \<le> cap"
  by (cases "length xs = cap") (use cap_pos in \<open>auto simp: push_full push_room\<close>)

lemma newest_kept: "length xs \<le> cap \<Longrightarrow> last (push xs x) = x \<and> push xs x \<noteq> []"
  by (cases "length xs = cap") (auto simp: push_full push_room)

lemma pushes_recent:
  "length xs \<le> cap \<Longrightarrow> foldl push xs es = drop (length (xs @ es) - cap) (xs @ es)"
proof (induction es arbitrary: xs)
  case (Cons e es)
  note IH = Cons.IH [OF length_push [OF Cons.prems, of e]]
  show ?case
  proof (cases "length xs = cap")
    case True
    then obtain y ys where "xs = y # ys" using cap_pos by (cases xs) auto
    moreover from this True have "cap = Suc (length ys)" by simp
    ultimately show ?thesis using True IH by (simp add: push_full)
  next
    case False
    then show ?thesis using Cons.prems IH by (simp add: push_room)
  qed
qed simp

lemma pushes_from_empty: "foldl push [] es = drop (length es - cap) es"
  using pushes_recent [of "[]" es] by simp

lemma pushes_bounded: "length (foldl push [] es) \<le> cap"
  by (simp add: pushes_from_empty)

end

lemma push_pop_front_room: "length xs < cap \<Longrightarrow> pop_front_while_over cap (xs @ [x]) = xs @ [x]"
  by (simp add: pop_front_while_over_drop)

lemma push_pop_front_full:
  "0 < cap \<Longrightarrow> length xs = cap \<Longrightarrow> pop_front_while_over cap (xs @ [x]) = tl xs @ [x]"
  by (cases xs) (simp_all add: pop_front_while_over_drop)

end
