(* ===== verification/Sem_Tree.thy ===== *)
theory Sem_Tree
  imports Prelude
begin

text \<open>
  The semantic tree of \<open>core-runtime/src/sre/state.rs\<close> and the functions that walk it in
  \<open>browser/helpers.rs\<close>, \<open>browser/navigation_policy.rs\<close> and \<open>browser/act.rs\<close>: lookups by id and
  by stable key, the stable-key index, the texts a policy sees, waiting conditions. Every walk is
  related to the list of the nodes in document order (\<open>preorder\<close>).
\<close>

section \<open>Data\<close>

datatype SemanticNode = SemanticNode
  (sn_role: string)
  (sn_label: "string option")
  (sn_children: "SemanticNode list")
  (sn_attributes: "(string \<times> string) list option") \<comment> \<open>a BTreeMap: ascending keys\<close>
  (sn_stable_key: "string option")
  (sn_ambiguous: bool)
  (sn_alias: "string option")
  (sn_id: int)
  (sn_security_flags: "string list")

datatype LoadProfile = Minimal | Visual | Interactive

record SemanticState =
  ss_page_instance_id :: string
  ss_state_hash :: string
  ss_timestamp :: u64
  ss_load_profile :: LoadProfile
  ss_root :: SemanticNode

definition node_attr :: "SemanticNode \<Rightarrow> string \<Rightarrow> string option" where
  "node_attr node k = Option.bind (sn_attributes node) (\<lambda>attrs. map_of attrs k)"

text \<open>
  The code passes references to nodes around and compares them by address. A reference is modelled
  by the position of the node in the tree (the child indices from the root) and the node itself.
  \<open>refs\<close> lists the references of a tree in document order, \<open>preorder\<close> the nodes: the
  reference for the walks below.
\<close>

type_synonym node_ref = "nat list \<times> SemanticNode"

fun refs :: "nat list \<Rightarrow> SemanticNode \<Rightarrow> node_ref list"
and refs_in :: "nat list \<Rightarrow> nat \<Rightarrow> SemanticNode list \<Rightarrow> node_ref list" where
  "refs p (SemanticNode r l ch a k am al i f) = (p, SemanticNode r l ch a k am al i f) # refs_in p 0 ch"
| "refs_in p j [] = []"
| "refs_in p j (c # cs) = refs (p @ [j]) c @ refs_in p (Suc j) cs"

fun preorder :: "SemanticNode \<Rightarrow> SemanticNode list" where
  "preorder (SemanticNode r l ch a k am al i f) =
     SemanticNode r l ch a k am al i f # concat (map preorder ch)"

lemma preorder_unfold: "preorder n = n # concat (map preorder (sn_children n))"
  by (cases n) simp

lemma refs_unfold: "refs p n = (p, n) # refs_in p 0 (sn_children n)"
  by (cases n) simp

lemma root_in_preorder [simp]: "n \<in> set (preorder n)"
  by (subst preorder_unfold) simp

lemma preorder_not_Nil [simp]: "preorder n \<noteq> []"
  by (subst preorder_unfold) simp

lemma map_snd_refs:
  "map snd (refs p n) = preorder n"
  "map snd (refs_in p j cs) = concat (map preorder cs)"
  by (induction p n and p j cs rule: refs_refs_in.induct) auto

lemma refs_in_nth: "k < length cs \<Longrightarrow> r \<in> set (refs (p @ [j + k]) (cs ! k)) \<Longrightarrow> r \<in> set (refs_in p j cs)"
proof (induction cs arbitrary: j k)
  case (Cons c cs)
  then show ?case by (cases k) auto
qed simp

lemma in_refs_in: "r \<in> set (refs_in p j cs) \<longleftrightarrow> (\<exists>k<length cs. r \<in> set (refs (p @ [j + k]) (cs ! k)))"
proof
  assume "r \<in> set (refs_in p j cs)"
  then show "\<exists>k<length cs. r \<in> set (refs (p @ [j + k]) (cs ! k))"
  proof (induction cs arbitrary: j)
    case (Cons c cs)
    show ?case
    proof (cases "r \<in> set (refs (p @ [j]) c)")
      case True
      then show ?thesis by (intro exI [of _ 0]) simp
    next
      case False
      with Cons.prems Cons.IH [of "Suc j"] obtain k
        where "k < length cs" "r \<in> set (refs (p @ [Suc j + k]) (cs ! k))" by auto
      then show ?thesis by (intro exI [of _ "Suc k"]) simp
    qed
  qed simp
qed (auto intro: refs_in_nth)

lemma refs_path:
  "r \<in> set (refs p n) \<Longrightarrow> \<exists>q. fst r = p @ q"
  "r \<in> set (refs_in p j cs) \<Longrightarrow> \<exists>k q. j \<le> k \<and> k < j + length cs \<and> fst r = p @ k # q"
proof (induction p n and p j cs rule: refs_refs_in.induct)
  case (1 p r l ch a k am al i f)
  then show ?case by fastforce
next
  case (3 p j c cs)
  from "3.prems" consider "r \<in> set (refs (p @ [j]) c)" | "r \<in> set (refs_in p (Suc j) cs)" by auto
  then show ?case
  proof cases
    case 1
    with "3.IH"(1) show ?thesis by fastforce
  next
    case 2
    with "3.IH"(2) obtain k q where "Suc j \<le> k" "k < Suc j + length cs" "fst r = p @ k # q" by blast
    then show ?thesis by (intro exI [of _ k] exI [of _ q]) auto
  qed
qed simp

section \<open>Lookup by id\<close>

fun find_node_by_id :: "nat list \<Rightarrow> SemanticNode \<Rightarrow> int \<Rightarrow> node_ref option"
and find_node_by_id_in :: "nat list \<Rightarrow> nat \<Rightarrow> SemanticNode list \<Rightarrow> int \<Rightarrow> node_ref option" where
  "find_node_by_id p (SemanticNode r l ch a k am al i f) target_id =
     (if i = target_id then Some (p, SemanticNode r l ch a k am al i f)
      else find_node_by_id_in p 0 ch target_id)"
| "find_node_by_id_in p j [] target_id = None"
| "find_node_by_id_in p j (child # children) target_id =
     (case find_node_by_id (p @ [j]) child target_id of
        Some found \<Rightarrow> Some found
      | None \<Rightarrow> find_node_by_id_in p (Suc j) children target_id)"

lemma find_append: "find p (xs @ ys) = (case find p xs of Some x \<Rightarrow> Some x | None \<Rightarrow> find p ys)"
  by (induction xs) auto

lemma find_map: "find p (map f xs) = map_option f (find (p \<circ> f) xs)"
  by (induction xs) auto

lemma find_node_by_id_refs:
  "find_node_by_id p n t = find (\<lambda>x. sn_id (snd x) = t) (refs p n)"
  "find_node_by_id_in p j ns t = find (\<lambda>x. sn_id (snd x) = t) (refs_in p j ns)"
  by (induction p n t and p j ns t rule: find_node_by_id_find_node_by_id_in.induct)
    (auto simp: find_append split: option.splits)

text \<open>
  The lookup by id returns a reference to the first node in document order with that id, and
  nothing exactly when no node of the tree has it.
\<close>

theorem find_node_by_id_first:
  "map_option snd (find_node_by_id p root t) = find (\<lambda>n. sn_id n = t) (preorder root)"
  by (simp add: find_node_by_id_refs find_map comp_def flip: map_snd_refs(1) [of p])

section \<open>Lookup by stable key\<close>

definition STABLE_KEY_SHORT_LEN :: nat where
  "STABLE_KEY_SHORT_LEN = 16"

text \<open>\<open>str::is_char_boundary\<close>; slicing a string elsewhere panics.\<close>

definition is_char_boundary :: "string \<Rightarrow> nat \<Rightarrow> bool" where
  "is_char_boundary s n \<longleftrightarrow> n = 0 \<or> n = length s \<or> (n < length s \<and> \<not> is_cont (s ! n))"

definition slice_to :: "string \<Rightarrow> nat \<Rightarrow> string call" where
  "slice_to s n = (if is_char_boundary s n then Ret (take n s) else Panic)"

text \<open>\<open>key[..cmp_len] == target_key[..cmp_len]\<close>\<close>

definition keys_match :: "string \<Rightarrow> string \<Rightarrow> bool call" where
  "keys_match key target_key =
     (let cmp_len = min (min STABLE_KEY_SHORT_LEN (length key)) (length target_key)
      in case slice_to key cmp_len of
           Panic \<Rightarrow> Panic
         | Ret a \<Rightarrow> (case slice_to target_key cmp_len of Panic \<Rightarrow> Panic | Ret b \<Rightarrow> Ret (a = b)))"

definition node_key_matches :: "string option \<Rightarrow> string \<Rightarrow> bool call" where
  "node_key_matches stable_key target_key = (case stable_key of
     None \<Rightarrow> Ret False
   | Some key \<Rightarrow> if target_key \<noteq> [] \<and> key \<noteq> [] then keys_match key target_key else Ret False)"

fun find_node_by_key :: "nat list \<Rightarrow> SemanticNode \<Rightarrow> string \<Rightarrow> node_ref option call"
and find_node_by_key_in :: "nat list \<Rightarrow> nat \<Rightarrow> SemanticNode list \<Rightarrow> string \<Rightarrow> node_ref option call" where
  "find_node_by_key p (SemanticNode r l ch a k am al i f) target_key =
     (case node_key_matches k target_key of
        Panic \<Rightarrow> Panic
      | Ret True \<Rightarrow> Ret (Some (p, SemanticNode r l ch a k am al i f))
      | Ret False \<Rightarrow> find_node_by_key_in p 0 ch target_key)"
| "find_node_by_key_in p j [] target_key = Ret None"
| "find_node_by_key_in p j (child # children) target_key =
     (case find_node_by_key (p @ [j]) child target_key of
        Panic \<Rightarrow> Panic
      | Ret (Some found) \<Rightarrow> Ret (Some found)
      | Ret None \<Rightarrow> find_node_by_key_in p (Suc j) children target_key)"

text \<open>The walk over a list of nodes that the recursion amounts to.\<close>

fun find_key_list :: "node_ref list \<Rightarrow> string \<Rightarrow> node_ref option call" where
  "find_key_list [] t = Ret None"
| "find_key_list (n # ns) t = (case node_key_matches (sn_stable_key (snd n)) t of
     Panic \<Rightarrow> Panic | Ret True \<Rightarrow> Ret (Some n) | Ret False \<Rightarrow> find_key_list ns t)"

lemma find_key_list_append:
  "find_key_list (xs @ ys) t = (case find_key_list xs t of
     Panic \<Rightarrow> Panic | Ret (Some n) \<Rightarrow> Ret (Some n) | Ret None \<Rightarrow> find_key_list ys t)"
  by (induction xs) (auto split: call.splits bool.splits option.splits)

lemma find_node_by_key_refs:
  "find_node_by_key p n t = find_key_list (refs p n) t"
  "find_node_by_key_in p j ns t = find_key_list (refs_in p j ns) t"
  by (induction p n t and p j ns t rule: find_node_by_key_find_node_by_key_in.induct)
    (auto simp: find_key_list_append split: call.splits bool.splits option.splits)

definition ascii :: "string \<Rightarrow> bool" where
  "ascii s \<longleftrightarrow> (\<forall>c\<in>set s. byte c < 128)"

definition ascii_key :: "string option \<Rightarrow> bool" where
  "ascii_key k = (case k of None \<Rightarrow> True | Some s \<Rightarrow> ascii s)"

lemma ascii_boundary: "ascii s \<Longrightarrow> n \<le> length s \<Longrightarrow> is_char_boundary s n"
  using nth_mem [of n s] by (fastforce simp: is_char_boundary_def ascii_def is_cont_def)

text \<open>Two keys agree on the part both have of the first 16 bytes.\<close>

definition keys_agree :: "string \<Rightarrow> string \<Rightarrow> bool" where
  "keys_agree key t \<longleftrightarrow> key \<noteq> [] \<and> t \<noteq> [] \<and>
     (let n = min (min STABLE_KEY_SHORT_LEN (length key)) (length t) in take n key = take n t)"

lemma node_key_matches_ascii:
  "ascii t \<Longrightarrow> ascii_key k \<Longrightarrow>
     node_key_matches k t = Ret (\<exists>key. k = Some key \<and> keys_agree key t)"
  by (cases k) (auto simp: ascii_key_def node_key_matches_def keys_match_def slice_to_def Let_def ascii_boundary keys_agree_def)

lemma find_key_list_ascii:
  "ascii t \<Longrightarrow> \<forall>n\<in>set ns. ascii_key (sn_stable_key (snd n)) \<Longrightarrow>
     find_key_list ns t = Ret (find (\<lambda>n. \<exists>key. sn_stable_key (snd n) = Some key \<and> keys_agree key t) ns)"
  by (induction ns) (auto simp: node_key_matches_ascii split: bool.splits)

text \<open>
  Where all keys are ASCII (the generated ones are hexadecimal), the lookup by key does not
  panic and returns the first node in document order whose key agrees with the requested one on
  the first 16 bytes, or on the shorter of the two.
\<close>

theorem find_node_by_key_first:
  assumes "ascii target_key" "\<forall>n\<in>set (preorder root). ascii_key (sn_stable_key n)"
  shows "\<exists>found. find_node_by_key p root target_key = Ret found \<and> map_option snd found =
     find (\<lambda>n. \<exists>key. sn_stable_key n = Some key \<and> keys_agree key target_key) (preorder root)"
proof -
  have "\<forall>n\<in>set (refs p root). ascii_key (sn_stable_key (snd n))"
    using assms(2) by (simp flip: map_snd_refs(1) [of p])
  then show ?thesis
    by (simp add: find_node_by_key_refs find_key_list_ascii [OF assms(1)] find_map comp_def
        flip: map_snd_refs(1) [of p])
qed

text \<open>A small checkout page for the witnesses.\<close>

definition leaf :: "string \<Rightarrow> string \<Rightarrow> string option \<Rightarrow> int \<Rightarrow> SemanticNode" where
  "leaf r l k i = SemanticNode r (Some l) [] None k False None i []"

definition sample_tree :: SemanticNode where
  "sample_tree = SemanticNode ''main'' (Some ''Cart'')
     [leaf ''text'' ''Total: $149'' None 2,
      leaf ''button'' ''Pay'' (Some ''aaaaaaaaaaaaaaaa0'') 3,
      leaf ''button'' ''Delete account'' (Some ''bbbbbbbbbbbbbbbb0'') 7] None None False None 1 []"

theorem find_node_by_key_first_witness:
  "\<exists>found. find_node_by_key [] sample_tree ''bbbbbbbbbbbbbbbb'' = Ret found \<and>
     map_option snd found = Some (leaf ''button'' ''Delete account'' (Some ''bbbbbbbbbbbbbbbb0'') 7)"
proof -
  have a: "ascii ''bbbbbbbbbbbbbbbb''" by code_simp
  have b: "\<forall>n\<in>set (preorder sample_tree). ascii_key (sn_stable_key n)" by code_simp
  show ?thesis
    using find_node_by_key_first [OF a b, of "[]"]
    by (simp add: sample_tree_def leaf_def keys_agree_def STABLE_KEY_SHORT_LEN_def)
qed

text \<open>
  Nothing checks the key a client sends: whenever the byte of the requested key at position
  16 continues a character, the lookup panics at the first node that has a key of at least 16
  bytes starting with complete characters. The key is sliced at byte 16, not at a character.
\<close>

theorem find_node_by_key_panics:
  assumes "16 < length target_key" "is_cont (target_key ! 16)"
    and "sn_stable_key root = Some key" "16 \<le> length key" "ascii key"
  shows "find_node_by_key p root target_key = Panic"
proof -
  have "keys_match key target_key = Panic"
    using assms ascii_boundary [OF assms(5), of 16]
    by (auto simp: keys_match_def Let_def STABLE_KEY_SHORT_LEN_def slice_to_def is_char_boundary_def)
  moreover have "target_key \<noteq> []" "key \<noteq> []" using assms by auto
  ultimately have "node_key_matches (sn_stable_key root) target_key = Panic"
    by (simp add: node_key_matches_def assms(3))
  then show ?thesis by (subst find_node_by_key_refs, subst refs_unfold) simp
qed

theorem find_node_by_key_panics_witness:
  "find_node_by_key [] (leaf ''button'' ''Pay'' (Some ''aaaaaaaaaaaaaaaa0'') 3)
     (''aaaaaaaaaaaaaaa'' @ [char_of (0xC3::int), char_of (0xA9::int)]) = Panic"
  by (rule find_node_by_key_panics [where key = "''aaaaaaaaaaaaaaaa0''"]) code_simp+

section \<open>Parents and the texts a policy sees\<close>

text \<open>\<open>ptr::eq\<close> compares positions.\<close>

fun find_parent_of_node :: "nat list \<Rightarrow> SemanticNode \<Rightarrow> nat list \<Rightarrow> node_ref option"
and find_parent_in :: "nat list \<Rightarrow> SemanticNode \<Rightarrow> nat \<Rightarrow> SemanticNode list \<Rightarrow> nat list \<Rightarrow> node_ref option" where
  "find_parent_of_node p (SemanticNode r l ch a k am al i f) target =
     find_parent_in p (SemanticNode r l ch a k am al i f) 0 ch target"
| "find_parent_in p parent j [] target = None"
| "find_parent_in p parent j (child # children) target =
     (if p @ [j] = target then Some (p, parent)
      else case find_parent_of_node (p @ [j]) child target of
             Some found \<Rightarrow> Some found
           | None \<Rightarrow> find_parent_in p parent (Suc j) children target)"

lemma find_parent_unfold:
  "find_parent_of_node p n target = find_parent_in p n 0 (sn_children n) target"
  by (cases n) simp

lemma find_parent_outside:
  "\<forall>q. target \<noteq> p @ q \<Longrightarrow> find_parent_of_node p n target = None"
  "\<forall>k q. j \<le> k \<longrightarrow> target \<noteq> p @ k # q \<Longrightarrow> find_parent_in p parent j cs target = None"
proof (induction p n target and p parent j cs target rule: find_parent_of_node_find_parent_in.induct)
  case (3 p parent j child children target)
  have ne: "p @ [j] \<noteq> target" and c: "\<forall>q. target \<noteq> (p @ [j]) @ q"
    and cs: "\<forall>k q. Suc j \<le> k \<longrightarrow> target \<noteq> p @ k # q"
    using "3.prems" by auto
  show ?case using "3.IH"(1) [OF ne c] "3.IH"(2) [OF ne _ cs] ne by simp
qed auto

lemma find_parent_inside:
  "(p @ q, x) \<in> set (refs p n) \<Longrightarrow> q \<noteq> [] \<Longrightarrow>
     \<exists>m. find_parent_of_node p n (p @ q) = Some (p @ butlast q, m) \<and> (p @ butlast q, m) \<in> set (refs p n) \<and>
         last q < length (sn_children m) \<and> sn_children m ! last q = x"
proof (induction q arbitrary: p n)
  case (Cons k q)
  let ?cs = "sn_children n"
  from Cons.prems(1) have "(p @ k # q, x) \<in> set (refs_in p 0 ?cs)" by (simp add: refs_unfold)
  then obtain k' where k': "k' < length ?cs" "(p @ k # q, x) \<in> set (refs (p @ [k']) (?cs ! k'))"
    by (auto simp: in_refs_in)
  with refs_path(1) [OF k'(2)] have [simp]: "k' = k" by auto
  have skip: "find_parent_in p n j (drop j ?cs) (p @ k # q) = find_parent_in p n k (drop k ?cs) (p @ k # q)"
    if "j \<le> k" for j
    using that
  proof (induction "k - j" arbitrary: j)
    case (Suc d)
    then have "j < k" "j < length ?cs" using k'(1) by auto
    with Suc show ?case
      by (subst Cons_nth_drop_Suc [symmetric]) (auto simp: find_parent_outside(1))
  qed simp
  have step: "find_parent_of_node p n (p @ k # q) =
    (if q = [] then Some (p, n)
     else case find_parent_of_node (p @ [k]) (?cs ! k) (p @ k # q) of Some f \<Rightarrow> Some f
          | None \<Rightarrow> find_parent_in p n (Suc k) (drop (Suc k) ?cs) (p @ k # q))"
    using skip [of 0] k'(1) by (simp add: find_parent_unfold [of p n] Cons_nth_drop_Suc [symmetric])
  show ?case
  proof (cases "q = []")
    case True
    from k'(2) True have "x = ?cs ! k"
      using refs_path(2) [of "(p @ [k], x)" "p @ [k]" 0 "sn_children (?cs ! k)"]
      by (auto simp: refs_unfold [of "p @ [k]"])
    with True k'(1) step show ?thesis by (auto simp: refs_unfold)
  next
    case False
    from k'(2) have "((p @ [k]) @ q, x) \<in> set (refs (p @ [k]) (?cs ! k))" by simp
    from Cons.IH [OF this False] obtain m where
      m: "find_parent_of_node (p @ [k]) (?cs ! k) ((p @ [k]) @ q) = Some ((p @ [k]) @ butlast q, m)"
      "((p @ [k]) @ butlast q, m) \<in> set (refs (p @ [k]) (?cs ! k))"
      "last q < length (sn_children m)" "sn_children m ! last q = x" by blast
    from m(2) k'(1) have "(p @ k # butlast q, m) \<in> set (refs_in p 0 ?cs)"
      by (auto simp: in_refs_in)
    with m step False show ?thesis by (auto simp: refs_unfold)
  qed
qed simp

text \<open>
  The parent search by address finds the parent: for every reference into the tree but the root
  it returns the node one position up, which has the target among its children at the index its
  position says; for the root it returns nothing.
\<close>

theorem find_parent_of_node_correct:
  assumes "(q, x) \<in> set (refs [] root)"
  shows "if q = [] then find_parent_of_node [] root q = None
     else \<exists>m. find_parent_of_node [] root q = Some (butlast q, m) \<and> (butlast q, m) \<in> set (refs [] root) \<and>
              last q < length (sn_children m) \<and> sn_children m ! last q = x"
proof (cases "q = []")
  case True
  then show ?thesis by (simp add: find_parent_unfold find_parent_outside(2))
next
  case False
  with find_parent_inside [of "[]" q x root] assms show ?thesis by simp
qed

theorem find_parent_of_node_correct_witness:
  "find_parent_of_node [] sample_tree [1] = Some ([], sample_tree)"
proof -
  have "([1], leaf ''button'' ''Pay'' (Some ''aaaaaaaaaaaaaaaa0'') 3) \<in> set (refs [] sample_tree)"
    by code_simp
  from find_parent_of_node_correct [OF this] show ?thesis
    by (auto simp: sample_tree_def leaf_def)
qed

definition push_policy_text_part :: "string option \<Rightarrow> string list \<Rightarrow> string list" where
  "push_policy_text_part value parts = (case map_option trim value of
     None \<Rightarrow> parts
   | Some normalized \<Rightarrow> if normalized = [] \<or> normalized \<in> set parts then parts else parts @ [normalized])"

fun collect_policy_descendant_text :: "SemanticNode \<Rightarrow> string list \<Rightarrow> string list"
and collect_policy_children_text :: "SemanticNode list \<Rightarrow> string list \<Rightarrow> string list" where
  "collect_policy_descendant_text (SemanticNode r l ch a k am al i f) parts =
     collect_policy_children_text ch parts"
| "collect_policy_children_text [] parts = parts"
| "collect_policy_children_text (child # children) parts =
     collect_policy_children_text children
       (collect_policy_descendant_text child
          (if sn_role child = ''text'' then push_policy_text_part (sn_label child) parts else parts))"

definition policy_target_text :: "SemanticNode \<Rightarrow> string option" where
  "policy_target_text node =
     (let parts = collect_policy_descendant_text node (push_policy_text_part (sn_label node) [])
      in if parts = [] then None else Some (join '' '' parts))"

definition policy_context_parts :: "node_ref \<Rightarrow> SemanticNode \<Rightarrow> string list" where
  "policy_context_parts node root =
     (let parts = push_policy_text_part (sn_label (snd node)) [];
          parts = (case sn_attributes (snd node) of
                     None \<Rightarrow> parts
                   | Some attrs \<Rightarrow> fold (\<lambda>kv. push_policy_text_part (Some (snd kv))) attrs parts)
      in case find_parent_of_node [] root (fst node) of
           None \<Rightarrow> parts
         | Some parent \<Rightarrow>
             fold collect_policy_descendant_text (sn_children (snd parent))
               (push_policy_text_part (sn_label (snd parent)) parts))"

definition policy_context_text :: "node_ref \<Rightarrow> SemanticNode \<Rightarrow> string" where
  "policy_context_text node root = join '' '' (policy_context_parts node root)"

definition resolve_policy_target_node ::
  "SemanticNode \<Rightarrow> int option \<Rightarrow> string option \<Rightarrow> node_ref option call" where
  "resolve_policy_target_node root target_id stable_key =
     (case Option.bind target_id (find_node_by_id [] root) of
        Some node \<Rightarrow> Ret (Some node)
      | None \<Rightarrow> (case stable_key of
                   None \<Rightarrow> Ret None
                 | Some key \<Rightarrow> find_node_by_key [] root key))"

definition policy_target_signature ::
  "SemanticNode option \<Rightarrow> int option \<Rightarrow> string option \<Rightarrow> string" where
  "policy_target_signature node target_id stable_key =
     (case Option.bind node sn_stable_key of
        Some key \<Rightarrow> key
      | None \<Rightarrow>
         (case stable_key of
            Some key \<Rightarrow> if trim key \<noteq> [] then trim key
              else (case (case node of Some n \<Rightarrow> Some (sn_id n) | None \<Rightarrow> target_id) of
                      Some i \<Rightarrow> ''backend_node_id:'' @ show_int i | None \<Rightarrow> ''unknown-target'')
          | None \<Rightarrow>
              (case (case node of Some n \<Rightarrow> Some (sn_id n) | None \<Rightarrow> target_id) of
                 Some i \<Rightarrow> ''backend_node_id:'' @ show_int i | None \<Rightarrow> ''unknown-target'')))"

text \<open>The texts collected are those of the text nodes strictly below the node, in document order.\<close>

lemma collect_policy_text_preorder:
  "collect_policy_descendant_text n parts =
     fold push_policy_text_part (map sn_label (filter (\<lambda>x. sn_role x = ''text'') (tl (preorder n)))) parts"
  "collect_policy_children_text ns parts =
     fold push_policy_text_part
       (map sn_label (filter (\<lambda>x. sn_role x = ''text'') (concat (map preorder ns)))) parts"
proof (induction n parts and ns parts rule: collect_policy_descendant_text_collect_policy_children_text.induct)
  case (3 child children parts)
  then show ?case by (simp add: preorder_unfold [of child])
qed auto

lemma push_policy_text_part_distinct: "distinct parts \<Longrightarrow> distinct (push_policy_text_part v parts)"
  by (auto simp: push_policy_text_part_def split: option.splits)

lemma set_push_policy_text_part:
  "set (push_policy_text_part v parts) =
     set parts \<union> {trim s | s. v = Some s \<and> trim s \<noteq> []}"
  by (auto simp: push_policy_text_part_def split: option.splits)

lemma set_fold_push:
  "set (fold push_policy_text_part vs parts) =
     set parts \<union> {trim s | s. Some s \<in> set vs \<and> trim s \<noteq> []}"
  by (induction vs arbitrary: parts) (auto simp: set_push_policy_text_part)

text \<open>The labels of the text nodes strictly below a node.\<close>

definition text_below :: "SemanticNode \<Rightarrow> string set" where
  "text_below n = {s. \<exists>x\<in>set (tl (preorder n)). sn_role x = ''text'' \<and> sn_label x = Some s}"

lemma set_collect_policy_text:
  "set (collect_policy_descendant_text n parts) =
     set parts \<union> {trim s | s. s \<in> text_below n \<and> trim s \<noteq> []}"
proof -
  have "Some s \<in> set (map sn_label (filter (\<lambda>x. sn_role x = ''text'') (tl (preorder n)))) \<longleftrightarrow> s \<in> text_below n"
    for s by (auto simp: text_below_def image_iff)
  then show ?thesis by (simp only: collect_policy_text_preorder(1) set_fold_push)
qed

lemma set_fold_collect:
  "set (fold collect_policy_descendant_text ns parts) =
     set parts \<union> {trim s | s. (\<exists>n\<in>set ns. s \<in> text_below n) \<and> trim s \<noteq> []}"
  by (induction ns arbitrary: parts) (auto simp: set_collect_policy_text)

text \<open>
  What a policy can see of the page around its target: the label and the attribute values of
  the target, the label of its parent, and the labels of the text nodes strictly below its
  siblings. The labels of text nodes that are themselves siblings of the target are not among them.
\<close>

theorem policy_context_parts_exact:
  assumes "find_parent_of_node [] root (fst node) = Some parent"
  shows "set (policy_context_parts node root) =
     {trim s | s. trim s \<noteq> [] \<and>
        (sn_label (snd node) = Some s \<or> s \<in> snd ` set (case sn_attributes (snd node) of None \<Rightarrow> [] | Some a \<Rightarrow> a) \<or>
         sn_label (snd parent) = Some s \<or> (\<exists>sib\<in>set (sn_children (snd parent)). s \<in> text_below sib))}"
proof -
  have f: "set (fold (\<lambda>kv. push_policy_text_part (Some (snd kv))) attrs ps) =
      set ps \<union> {trim s | s. s \<in> snd ` set attrs \<and> trim s \<noteq> []}" for attrs :: "(string \<times> string) list" and ps
    by (induction attrs arbitrary: ps) (auto simp: set_push_policy_text_part)
  show ?thesis
    by (cases "sn_attributes (snd node)")
      (auto simp: policy_context_parts_def assms Let_def set_fold_collect set_push_policy_text_part f)
qed

text \<open>
  On the sample page the total stands in a text node beside the button; the rule context of the
  button does not show it.
\<close>

theorem policy_context_parts_exact_witness:
  "set (policy_context_parts ([1], leaf ''button'' ''Pay'' (Some ''aaaaaaaaaaaaaaaa0'') 3) sample_tree) =
     {''Pay'', ''Cart''}"
proof -
  have p: "find_parent_of_node [] sample_tree (fst ([1], leaf ''button'' ''Pay'' (Some ''aaaaaaaaaaaaaaaa0'') 3)) =
      Some ([], sample_tree)"
    by code_simp
  have t: "trim ''Pay'' = ''Pay''" "trim ''Cart'' = ''Cart''" by code_simp+
  show ?thesis
    unfolding policy_context_parts_exact [OF p]
    by (auto simp: sample_tree_def leaf_def text_below_def t) (metis t list.distinct(1))+
qed

text \<open>
  The policy and the executor can look at different elements. If the id a client sends is not
  in the semantic tree but its stable key names a node, the policy is evaluated on the node of the
  key, while the action is executed on the id (\<open>act_by_target_id\<close> tries the id first).
\<close>

lemma policy_target_not_acted_on:
  assumes "\<forall>n\<in>set (preorder root). sn_id n \<noteq> bid"
    and "find_node_by_key [] root key = Ret (Some node)"
  shows "resolve_policy_target_node root (Some bid) (Some key) = Ret (Some node)"
proof -
  have "map_option snd (find_node_by_id [] root bid) = None"
    unfolding find_node_by_id_first using assms(1) by (auto simp: find_None_iff)
  then show ?thesis by (simp add: resolve_policy_target_node_def assms(2))
qed

lemma policy_target_not_acted_on_sample:
  "\<exists>p n. resolve_policy_target_node sample_tree (Some 99) (Some ''aaaaaaaaaaaaaaaa'') = Ret (Some (p, n)) \<and>
     sn_id n = 3"
proof -
  have "find_node_by_key [] sample_tree ''aaaaaaaaaaaaaaaa'' =
      Ret (Some ([1], leaf ''button'' ''Pay'' (Some ''aaaaaaaaaaaaaaaa0'') 3))"
    by code_simp
  from policy_target_not_acted_on [OF _ this, of 99] show ?thesis
    by (simp add: sample_tree_def leaf_def)
qed

end
