(* ===== verification/Sem_State.thy ===== *)
theory Sem_State
  imports Sem_Tree Rust_Float
begin

text \<open>
  The operations of \<open>core-runtime/src/sre/state.rs\<close> on a semantic state (content hash, fast, full
  and layered views, semantic deltas) and the stable keys of \<open>sre/stable_key.rs\<close>. The SHA-256 and
  hexadecimal functions, the JSON encoding and the JSON patches are third-party code: \<open>sha\<close> maps
  bytes to the hexadecimal digest, and \<open>json_env\<close> holds the JSON functions.
\<close>

section \<open>The content hash\<close>

abbreviation NUL :: char where "NUL \<equiv> CHR 0x00"

text \<open>\<open>u64::to_le_bytes\<close>\<close>

definition le_bytes64 :: "int \<Rightarrow> string" where
  "le_bytes64 n = map (\<lambda>i. char_of (n div 256 ^ i mod 256)) [0..<8]"

definition hash_optional_string :: "string \<Rightarrow> string option \<Rightarrow> string" where
  "hash_optional_string lbl value =
     lbl @ (case value of Some v \<Rightarrow> CHR 0x01 # v | None \<Rightarrow> [CHR 0x00]) @ [NUL]"

definition hash_attributes :: "(string \<times> string) list option \<Rightarrow> string" where
  "hash_attributes attributes =
     (case attributes of None \<Rightarrow> [] | Some attrs \<Rightarrow> concat (map (\<lambda>(k, v). k @ NUL # v @ [NUL]) attrs))
       @ [CHR 0x1E]"

definition hash_flags :: "string list \<Rightarrow> string" where
  "hash_flags flags = le_bytes64 (int (length flags)) @ concat (map (\<lambda>f. f @ [NUL]) flags)"

text \<open>The bytes the node feeds to the hasher.\<close>

fun hash_node :: "SemanticNode \<Rightarrow> string" where
  "hash_node (SemanticNode role label children attributes stable_key ambiguous alias node_id flags) =
     (''role'' @ [NUL]) @ role @ [NUL]
     @ hash_optional_string (''label'' @ [NUL]) label
     @ (''attributes'' @ [NUL]) @ hash_attributes attributes
     @ hash_optional_string (''stable_key'' @ [NUL]) stable_key
     @ (''ambiguous'' @ [NUL]) @ [if ambiguous then CHR 0x01 else CHR 0x00] @ [NUL]
     @ hash_optional_string (''alias'' @ [NUL]) alias
     @ (''security_flags'' @ [NUL]) @ hash_flags flags
     @ (''children'' @ [NUL]) @ le_bytes64 (int (length children))
     @ concat (map hash_node children)
     @ [CHR 0x1F]"

definition compute_hash :: "(string \<Rightarrow> string) \<Rightarrow> SemanticNode \<Rightarrow> string" where
  "compute_hash sha root = sha (hash_node root)"

text \<open>\<open>uuid\<close> and \<open>now\<close> are what the generator and the clock return at the call.\<close>

definition new_state :: "(string \<Rightarrow> string) \<Rightarrow> string \<Rightarrow> u64 \<Rightarrow> SemanticNode \<Rightarrow> LoadProfile \<Rightarrow> SemanticState" where
  "new_state sha uuid now root load_profile =
     \<lparr>ss_page_instance_id = uuid, ss_state_hash = compute_hash sha root, ss_timestamp = now,
      ss_load_profile = load_profile, ss_root = root\<rparr>"

definition sanitized_with ::
  "(string \<Rightarrow> string) \<Rightarrow> (SemanticNode \<Rightarrow> SemanticNode) \<Rightarrow> SemanticState \<Rightarrow> SemanticState" where
  "sanitized_with sha sanitize_node state =
     (let sanitized_root = sanitize_node (ss_root state)
      in \<lparr>ss_page_instance_id = ss_page_instance_id state, ss_state_hash = compute_hash sha sanitized_root,
          ss_timestamp = ss_timestamp state, ss_load_profile = ss_load_profile state,
          ss_root = sanitized_root\<rparr>)"

definition with_refreshed_metadata :: "string \<Rightarrow> u64 \<Rightarrow> SemanticState \<Rightarrow> SemanticState" where
  "with_refreshed_metadata uuid now state =
     state\<lparr>ss_page_instance_id := uuid, ss_timestamp := now\<rparr>"

subsection \<open>What the hash determines\<close>

definition nul_free :: "string \<Rightarrow> bool" where
  "nul_free s \<longleftrightarrow> NUL \<notin> set s"

definition nul_free_opt :: "string option \<Rightarrow> bool" where
  "nul_free_opt v = (case v of None \<Rightarrow> True | Some s \<Rightarrow> nul_free s)"

definition clean_attr :: "string \<times> string \<Rightarrow> bool" where
  "clean_attr kv \<longleftrightarrow> nul_free (fst kv) \<and> nul_free (snd kv) \<and> (fst kv = [] \<or> hd (fst kv) \<noteq> CHR 0x1E)"

text \<open>
  A clean tree: no string contains a NUL byte, no attribute name starts with the record separator,
  and no list is longer than a \<open>u64\<close> counts.
\<close>

fun clean_node :: "SemanticNode \<Rightarrow> bool" where
  "clean_node (SemanticNode role label children attributes stable_key ambiguous alias node_id flags) \<longleftrightarrow>
     nul_free role \<and> nul_free_opt label \<and> nul_free_opt stable_key \<and> nul_free_opt alias \<and>
     (case attributes of None \<Rightarrow> True | Some attrs \<Rightarrow> list_all clean_attr attrs) \<and>
     list_all nul_free flags \<and> length flags < 2 ^ 64 \<and> length children < 2 ^ 64 \<and>
     list_all clean_node children"

text \<open>The content of a tree: ids erased, no attributes and an empty attribute map identified.\<close>

fun node_content :: "SemanticNode \<Rightarrow> SemanticNode" where
  "node_content (SemanticNode role label children attributes stable_key ambiguous alias node_id flags) =
     SemanticNode role label (map node_content children)
       (if attributes = Some [] then None else attributes) stable_key ambiguous alias 0 flags"

lemma hash_node_content [simp]: "hash_node (node_content n) = hash_node n"
proof (induction n rule: node_content.induct)
  case (1 role label children attributes stable_key ambiguous al node_id flags)
  then show ?case by (auto simp: hash_attributes_def comp_def cong: map_cong)
qed

lemma nul_split: "nul_free a \<Longrightarrow> nul_free b \<Longrightarrow> a @ NUL # x = b @ NUL # y \<longleftrightarrow> a = b \<and> x = y"
proof (induction a arbitrary: b)
  case Nil
  then show ?case by (cases b) (auto simp: nul_free_def)
next
  case (Cons c a)
  then show ?case by (cases b) (auto simp: nul_free_def)
qed

lemma hash_optional_split:
  "nul_free_opt a \<Longrightarrow> nul_free_opt b \<Longrightarrow>
     hash_optional_string l a @ x = hash_optional_string l b @ y \<longleftrightarrow> a = b \<and> x = y"
  by (cases a; cases b) (auto simp: hash_optional_string_def nul_free_opt_def nul_split)

lemma attrs_split:
  "list_all clean_attr a \<Longrightarrow> list_all clean_attr b \<Longrightarrow>
     concat (map (\<lambda>(k, v). k @ NUL # v @ [NUL]) a) @ CHR 0x1E # x =
     concat (map (\<lambda>(k, v). k @ NUL # v @ [NUL]) b) @ CHR 0x1E # y \<longleftrightarrow> a = b \<and> x = y"
proof (induction a arbitrary: b)
  case Nil
  show ?case
  proof (cases b)
    case (Cons kv b')
    then show ?thesis using Nil by (cases kv; cases "fst kv") (auto simp: clean_attr_def)
  qed auto
next
  case (Cons kv a)
  show ?case
  proof (cases b)
    case Nil
    then show ?thesis using Cons.prems by (cases kv; cases "fst kv") (auto simp: clean_attr_def)
  next
    case (Cons kv' b')
    then show ?thesis using Cons.prems Cons.IH [of b']
      by (cases kv; cases kv') (auto simp: clean_attr_def nul_split)
  qed
qed

definition attr_list :: "(string \<times> string) list option \<Rightarrow> (string \<times> string) list" where
  "attr_list a = (case a of None \<Rightarrow> [] | Some xs \<Rightarrow> xs)"

lemma hash_attributes_append:
  "hash_attributes c @ z = concat (map (\<lambda>(k, v). k @ NUL # v @ [NUL]) (attr_list c)) @ CHR 0x1E # z"
  by (cases c) (simp_all add: hash_attributes_def attr_list_def)

lemma hash_attributes_split:
  assumes "list_all clean_attr (attr_list a)" "list_all clean_attr (attr_list b)"
  shows "hash_attributes a @ x = hash_attributes b @ y \<longleftrightarrow> attr_list a = attr_list b \<and> x = y"
  unfolding hash_attributes_append by (rule attrs_split [OF assms])

lemma length_le_bytes64 [simp]: "length (le_bytes64 n) = 8"
  by (simp add: le_bytes64_def)

lemma digits_determine_mod:
  fixes m n :: int
  shows "(\<forall>i<k. m div 256 ^ i mod 256 = n div 256 ^ i mod 256) \<Longrightarrow> m mod 256 ^ k = n mod 256 ^ k"
proof (induction k)
  case (Suc k)
  have s: "x mod 256 ^ Suc k = 256 ^ k * (x div 256 ^ k mod 256) + x mod 256 ^ k" for x :: int
    unfolding power_Suc2 by (rule zmod_zmult2_eq) simp
  from Suc have "m mod 256 ^ k = n mod 256 ^ k" "m div 256 ^ k mod 256 = n div 256 ^ k mod 256" by auto
  then show ?case by (simp only: s)
qed simp

lemma le_bytes64_inj:
  assumes "le_bytes64 m = le_bytes64 n" "0 \<le> m" "m < 2 ^ 64" "0 \<le> n" "n < 2 ^ 64"
  shows "m = n"
proof -
  have "m div 256 ^ i mod 256 = n div 256 ^ i mod 256" if "i < 8" for i
  proof -
    have "le_bytes64 k ! i = char_of (k div 256 ^ i mod 256)" for k
      using that by (simp add: le_bytes64_def del: upt_Suc upt_rec_numeral)
    with assms(1) have "char_of (m div 256 ^ i mod 256) = (char_of (n div 256 ^ i mod 256) :: char)"
      by metis
    then have "of_char (char_of (m div 256 ^ i mod 256)) = (of_char (char_of (n div 256 ^ i mod 256)) :: int)"
      by simp
    then show ?thesis by (simp only: of_char_of mod_mod_trivial)
  qed
  then have "m mod 256 ^ 8 = n mod 256 ^ 8" using digits_determine_mod by blast
  with assms(2-5) show ?thesis by simp
qed

lemma flags_split:
  "list_all nul_free a \<Longrightarrow> list_all nul_free b \<Longrightarrow> length a = length b \<Longrightarrow>
     concat (map (\<lambda>f. f @ [NUL]) a) @ x = concat (map (\<lambda>f. f @ [NUL]) b) @ y \<longleftrightarrow> a = b \<and> x = y"
proof (induction a arbitrary: b)
  case (Cons f a)
  then show ?case by (cases b) (auto simp: nul_split)
qed auto

lemma le_bytes64_length_eq:
  assumes "length a < 2 ^ 64" "length b < 2 ^ 64"
  shows "le_bytes64 (int (length a)) = le_bytes64 (int (length b)) \<longleftrightarrow> length a = length b"
  using assms le_bytes64_inj [of "int (length a)" "int (length b)"] by auto

lemma le_bytes64_split:
  assumes "length a < 2 ^ 64" "length b < 2 ^ 64"
  shows "le_bytes64 (int (length a)) @ x = le_bytes64 (int (length b)) @ y \<longleftrightarrow> length a = length b \<and> x = y"
  by (simp add: le_bytes64_length_eq [OF assms])

lemma hash_flags_split:
  assumes "list_all nul_free a" "list_all nul_free b" "length a < 2 ^ 64" "length b < 2 ^ 64"
  shows "hash_flags a @ x = hash_flags b @ y \<longleftrightarrow> a = b \<and> x = y"
  using flags_split [OF assms(1,2)]
  by (auto simp: hash_flags_def le_bytes64_split [OF assms(3,4)])

lemma children_split:
  "length cs = length ds \<Longrightarrow>
   (\<And>c d x y. c \<in> set cs \<Longrightarrow> clean_node c \<Longrightarrow> clean_node d \<Longrightarrow>
      hash_node c @ x = hash_node d @ y \<Longrightarrow> node_content c = node_content d \<and> x = y) \<Longrightarrow>
   list_all clean_node cs \<Longrightarrow> list_all clean_node ds \<Longrightarrow>
   concat (map hash_node cs) @ x = concat (map hash_node ds) @ y \<Longrightarrow>
   map node_content cs = map node_content ds \<and> x = y"
proof (induction cs ds rule: list_induct2)
  case (Cons c cs d ds)
  from Cons.prems(2-4) have
    "hash_node c @ (concat (map hash_node cs) @ x) = hash_node d @ (concat (map hash_node ds) @ y)"
    "clean_node c" "clean_node d" "list_all clean_node cs" "list_all clean_node ds" by auto
  note e = this
  have hd: "node_content c = node_content d \<and> concat (map hash_node cs) @ x = concat (map hash_node ds) @ y"
    by (rule Cons.prems(1) [OF _ e(2,3,1)]) simp
  moreover have "map node_content cs = map node_content ds \<and> x = y"
    using hd by (intro Cons.IH [OF _ e(4,5)] Cons.prems(1)) auto
  ultimately show ?case by simp
qed simp

lemmas hash_splits = nul_split hash_optional_split hash_attributes_split hash_flags_split le_bytes64_split

lemma hash_node_prefix_free:
  "clean_node m \<Longrightarrow> clean_node n \<Longrightarrow> hash_node m @ x = hash_node n @ y \<Longrightarrow>
     node_content m = node_content n \<and> x = y"
proof (induction m arbitrary: n x y rule: hash_node.induct)
  case (1 r l ch a k am al i f)
  obtain r' l' ch' a' k' am' al' i' f' where n: "n = SemanticNode r' l' ch' a' k' am' al' i' f'"
    by (cases n)
  note prems = "1.prems" [unfolded n]
  have ca: "list_all clean_attr (attr_list a)" "list_all clean_attr (attr_list a')"
    using prems(1,2) by (auto simp: attr_list_def split: option.splits)
  have am: "[if am then CHR 0x01 else CHR 0x00] @ NUL # u = [if am' then CHR 0x01 else CHR 0x00] @ NUL # v
      \<longleftrightarrow> am = am' \<and> u = v" for u v by auto
  have am_eq: "(if am then CHR 0x01 else NUL) = (if am' then CHR 0x01 else NUL) \<longleftrightarrow> am = am'" by simp
  have lens: "length ch < 2 ^ 64" "length ch' < 2 ^ 64" using prems(1,2) by auto
  have eqs: "r = r'" "l = l'" "attr_list a = attr_list a'" "k = k'" "am = am'" "al = al'" "f = f'"
    "length ch = length ch'" and
    rest: "concat (map hash_node ch) @ (CHR 0x1F # x) = concat (map hash_node ch') @ (CHR 0x1F # y)"
    using prems ca by (simp_all add: hash_splits am am_eq le_bytes64_length_eq [OF lens])
  have "map node_content ch = map node_content ch' \<and> CHR 0x1F # x = CHR 0x1F # y"
    using prems(1,2) by (intro children_split [OF eqs(8) _ _ _ rest] "1.IH") auto
  moreover have "(if a = Some [] then None else a) = (if a' = Some [] then None else a')"
    using eqs(3) by (auto simp: attr_list_def split: option.splits)
  ultimately show ?case using eqs by (simp add: n)
qed

text \<open>
  The state hash identifies the content of a page. For clean trees, equal hashes mean equal
  content (roles, labels, attributes, keys, aliases, flags and structure, ids aside), unless
  SHA-256 itself collides on the two hashed byte strings; and equal content means equal hashes.
\<close>

theorem state_hash_identifies_content:
  assumes "clean_node m" "clean_node n"
    and "sha (hash_node m) = sha (hash_node n) \<Longrightarrow> hash_node m = hash_node n"
  shows "compute_hash sha m = compute_hash sha n \<longleftrightarrow> node_content m = node_content n"
proof
  assume "compute_hash sha m = compute_hash sha n"
  then have "hash_node m @ [] = hash_node n @ []" using assms(3) by (simp add: compute_hash_def)
  with hash_node_prefix_free [OF assms(1,2)] show "node_content m = node_content n" by blast
next
  assume "node_content m = node_content n"
  then show "compute_hash sha m = compute_hash sha n" by (metis compute_hash_def hash_node_content)
qed

theorem state_hash_identifies_content_witness:
  "compute_hash (\<lambda>s. s) sample_tree \<noteq> compute_hash (\<lambda>s. s) (leaf ''main'' ''Cart'' None 1)"
proof -
  have c: "clean_node sample_tree" "clean_node (leaf ''main'' ''Cart'' None 1)"
    by (simp_all add: sample_tree_def leaf_def nul_free_def nul_free_opt_def)
  show ?thesis using state_hash_identifies_content [OF c, of "\<lambda>s. s"]
    by (simp add: sample_tree_def leaf_def)
qed

end
