(* ===== verification/Sem_View.thy ===== *)
theory Sem_View
  imports Sem_State
begin

text \<open>
  The views and updates of a semantic state (\<open>core-runtime/src/sre/state.rs\<close>): the fast state
  (interactive elements and messages), the full state (forms and regions), the layered output,
  and the choice between a no-op, a full state and an RFC 6902 delta. JSON values, their encoding
  and their patches are third-party code, held in \<open>json_env\<close>.
\<close>

section \<open>Collecting nodes\<close>

datatype StateGenerationPhase = Fast | Full

record FastSemanticState =
  fs_interactive_elements :: "SemanticNode list"
  fs_messages :: "SemanticNode list"

record FullSemanticState =
  fl_forms :: "SemanticNode list"
  fl_regions :: "SemanticNode list"

record LayeredSemanticState =
  ls_fast :: FastSemanticState
  ls_full :: FullSemanticState
  ls_generation_trace :: "StateGenerationPhase list"

definition project_node_without_children :: "SemanticNode \<Rightarrow> SemanticNode" where
  "project_node_without_children node =
     SemanticNode (sn_role node) (sn_label node) [] (sn_attributes node) (sn_stable_key node)
       (sn_ambiguous node) (sn_alias node) (sn_id node) (sn_security_flags node)"

fun collect_nodes_recursive ::
  "SemanticNode \<Rightarrow> (SemanticNode \<Rightarrow> bool) \<Rightarrow> SemanticNode list \<Rightarrow> SemanticNode list"
and collect_nodes_children ::
  "SemanticNode list \<Rightarrow> (SemanticNode \<Rightarrow> bool) \<Rightarrow> SemanticNode list \<Rightarrow> SemanticNode list" where
  "collect_nodes_recursive (SemanticNode r l ch a k am al i f) predicate out =
     collect_nodes_children ch predicate
       (if predicate (SemanticNode r l ch a k am al i f)
        then out @ [project_node_without_children (SemanticNode r l ch a k am al i f)] else out)"
| "collect_nodes_children [] predicate out = out"
| "collect_nodes_children (c # cs) predicate out =
     collect_nodes_children cs predicate (collect_nodes_recursive c predicate out)"

definition collect_nodes_matching :: "SemanticNode \<Rightarrow> (SemanticNode \<Rightarrow> bool) \<Rightarrow> SemanticNode list" where
  "collect_nodes_matching root predicate = collect_nodes_recursive root predicate []"

definition role_attr_in :: "SemanticNode \<Rightarrow> string list \<Rightarrow> bool" where
  "role_attr_in node roles = (case node_attr node ''role'' of None \<Rightarrow> False | Some r \<Rightarrow> r \<in> set roles)"

definition is_nav_landmark_node :: "SemanticNode \<Rightarrow> bool \<Rightarrow> bool" where
  "is_nav_landmark_node node inside_sectioning_content \<longleftrightarrow>
     sn_role node = ''nav'' \<or>
     (sn_role node \<in> set [''header'', ''footer''] \<and> \<not> inside_sectioning_content) \<or>
     role_attr_in node [''navigation'', ''banner'', ''contentinfo'']"

definition is_sectioning_content_node :: "SemanticNode \<Rightarrow> bool" where
  "is_sectioning_content_node node \<longleftrightarrow>
     sn_role node \<in> set [''article'', ''aside'', ''main'', ''nav'', ''section'']"

definition is_interactive_node :: "SemanticNode \<Rightarrow> bool" where
  "is_interactive_node node \<longleftrightarrow>
     sn_role node \<in> set [''a'', ''button'', ''input'', ''select'', ''textarea'', ''option'', ''summary''] \<or>
     role_attr_in node [''button'', ''link'', ''checkbox'', ''radio'', ''switch'', ''tab'', ''menuitem'', ''option'']"

definition is_message_node :: "SemanticNode \<Rightarrow> bool" where
  "is_message_node node \<longleftrightarrow>
     sn_role node = ''text'' \<and> (case sn_label node of None \<Rightarrow> False | Some v \<Rightarrow> trim v \<noteq> [])"

definition is_form_node :: "SemanticNode \<Rightarrow> bool" where
  "is_form_node node \<longleftrightarrow>
     sn_role node \<in> set [''form'', ''input'', ''select'', ''textarea'', ''button'', ''label'', ''option'']"

definition is_region_node :: "SemanticNode \<Rightarrow> bool" where
  "is_region_node node \<longleftrightarrow>
     sn_role node \<in> set [''main'', ''nav'', ''section'', ''article'', ''aside'', ''header'', ''footer''] \<or>
     role_attr_in node [''region'', ''main'', ''navigation'', ''complementary'', ''banner'', ''contentinfo'']"

definition is_anchor :: "SemanticNode \<Rightarrow> bool" where
  "is_anchor node \<longleftrightarrow> sn_role node = ''a'' \<or> role_attr_in node [''link'']"

fun collect_interactive_filtered_recursive ::
  "SemanticNode \<Rightarrow> bool \<Rightarrow> bool \<Rightarrow> SemanticNode list \<Rightarrow> SemanticNode list"
and collect_interactive_filtered_children ::
  "SemanticNode list \<Rightarrow> bool \<Rightarrow> bool \<Rightarrow> SemanticNode list \<Rightarrow> SemanticNode list" where
  "collect_interactive_filtered_recursive (SemanticNode r l ch a k am al i f)
     inside_nav_landmark inside_sectioning_content out =
     (let node = SemanticNode r l ch a k am al i f;
          in_landmark_now = inside_nav_landmark \<or> is_nav_landmark_node node inside_sectioning_content;
          in_sectioning_now = inside_sectioning_content \<or> is_sectioning_content_node node
      in collect_interactive_filtered_children ch in_landmark_now in_sectioning_now
           (if is_interactive_node node \<and> \<not> (in_landmark_now \<and> is_anchor node)
            then out @ [project_node_without_children node] else out))"
| "collect_interactive_filtered_children [] lm sec out = out"
| "collect_interactive_filtered_children (c # cs) lm sec out =
     collect_interactive_filtered_children cs lm sec
       (collect_interactive_filtered_recursive c lm sec out)"

definition collect_interactive_with_nav_filter :: "SemanticNode \<Rightarrow> bool \<Rightarrow> SemanticNode list" where
  "collect_interactive_with_nav_filter node inside_nav_landmark =
     collect_interactive_filtered_recursive node inside_nav_landmark False []"

definition generate_fast_state :: "SemanticState \<Rightarrow> FastSemanticState" where
  "generate_fast_state state =
     \<lparr>fs_interactive_elements =
        (if ss_load_profile state \<noteq> Interactive
         then collect_interactive_with_nav_filter (ss_root state) False
         else collect_nodes_matching (ss_root state) is_interactive_node),
      fs_messages = collect_nodes_matching (ss_root state) is_message_node\<rparr>"

definition generate_full_state :: "SemanticState \<Rightarrow> FullSemanticState" where
  "generate_full_state state =
     \<lparr>fl_forms = collect_nodes_matching (ss_root state) is_form_node,
      fl_regions = collect_nodes_matching (ss_root state) is_region_node\<rparr>"

definition generate_layered_state :: "SemanticState \<Rightarrow> LayeredSemanticState" where
  "generate_layered_state state =
     \<lparr>ls_fast = generate_fast_state state, ls_full = generate_full_state state,
      ls_generation_trace = [Fast, Full]\<rparr>"

subsection \<open>The views against the ancestors of each node\<close>

text \<open>Every node of a tree with its ancestors, outermost first, in document order.\<close>

fun with_ancestors :: "SemanticNode list \<Rightarrow> SemanticNode \<Rightarrow> (SemanticNode list \<times> SemanticNode) list" where
  "with_ancestors anc (SemanticNode r l ch a k am al i f) =
     (anc, SemanticNode r l ch a k am al i f) #
     concat (map (with_ancestors (anc @ [SemanticNode r l ch a k am al i f])) ch)"

text \<open>A path enters a landmark where one of its nodes is one, given the sections it is already in.\<close>

definition in_landmark :: "SemanticNode list \<Rightarrow> bool" where
  "in_landmark path \<longleftrightarrow>
     list_ex (\<lambda>j. is_nav_landmark_node (path ! j) (list_ex is_sectioning_content_node (take j path)))
       [0..<length path]"

lemma in_landmark_snoc [simp]:
  "in_landmark (path @ [n]) \<longleftrightarrow>
     in_landmark path \<or> is_nav_landmark_node n (list_ex is_sectioning_content_node path)"
  by (auto simp: in_landmark_def list_ex_iff nth_append less_Suc_eq)

definition listed :: "SemanticNode list \<times> SemanticNode \<Rightarrow> bool" where
  "listed = (\<lambda>(anc, n). is_interactive_node n \<and> \<not> (is_anchor n \<and> in_landmark (anc @ [n])))"

lemma collect_nodes_append:
  "collect_nodes_recursive n p out = out @ map project_node_without_children (filter p (preorder n))"
  "collect_nodes_children cs p out =
     out @ map project_node_without_children (filter p (concat (map preorder cs)))"
  by (induction n p out and cs p out rule: collect_nodes_recursive_collect_nodes_children.induct) auto

lemma collect_nodes_matching_eq:
  "collect_nodes_matching n p = map project_node_without_children (filter p (preorder n))"
  by (simp add: collect_nodes_matching_def collect_nodes_append)

lemma collect_interactive_append:
  "lm = in_landmark anc \<Longrightarrow> sec = list_ex is_sectioning_content_node anc \<Longrightarrow>
     collect_interactive_filtered_recursive n lm sec out =
     out @ map (project_node_without_children o snd) (filter listed (with_ancestors anc n))"
  "lm = in_landmark anc \<Longrightarrow> sec = list_ex is_sectioning_content_node anc \<Longrightarrow>
     collect_interactive_filtered_children cs lm sec out =
     out @ map (project_node_without_children o snd) (filter listed (concat (map (with_ancestors anc) cs)))"
proof (induction n lm sec out and cs lm sec out arbitrary: anc and anc
    rule: collect_interactive_filtered_recursive_collect_interactive_filtered_children.induct)
  case (1 r l ch a k am al i f lm sec out)
  let ?n = "SemanticNode r l ch a k am al i f"
  have l: "(lm \<or> is_nav_landmark_node ?n sec) = in_landmark (anc @ [?n])"
    and s: "(sec \<or> is_sectioning_content_node ?n) = list_ex is_sectioning_content_node (anc @ [?n])"
    using "1.prems" by simp_all
  have "collect_interactive_filtered_recursive ?n lm sec out =
      (if is_interactive_node ?n \<and> \<not> (in_landmark (anc @ [?n]) \<and> is_anchor ?n)
       then out @ [project_node_without_children ?n] else out) @
      map (project_node_without_children o snd) (filter listed (concat (map (with_ancestors (anc @ [?n])) ch)))"
    unfolding collect_interactive_filtered_recursive.simps Let_def
    by (subst "1.IH" [OF refl refl refl l s]) (simp only: l)
  then show ?case by (auto simp: listed_def)
qed auto

lemma snd_with_ancestors: "map snd (with_ancestors anc n) = preorder n"
  by (induction anc n rule: with_ancestors.induct) (simp add: map_concat comp_def cong: map_cong)

text \<open>
  The fast view is exact. Unless the profile is Interactive it lists, in document order, the
  interactive nodes of the page except the links inside a navigation landmark, where a header or
  footer within sectioning content is no landmark; an Interactive profile lists all of them. The
  messages are the text nodes with a visible label.
\<close>

theorem generate_fast_state_exact:
  "fs_interactive_elements (generate_fast_state state) =
     map (project_node_without_children o snd)
       (filter (\<lambda>(anc, n). is_interactive_node n \<and>
          (ss_load_profile state = Interactive \<or> \<not> (is_anchor n \<and> in_landmark (anc @ [n]))))
        (with_ancestors [] (ss_root state))) \<and>
   fs_messages (generate_fast_state state) =
     map project_node_without_children (filter is_message_node (preorder (ss_root state)))"
proof -
  have e: "filter (\<lambda>(anc, n). is_interactive_node n) (with_ancestors [] r) =
      filter (is_interactive_node o snd) (with_ancestors [] r)" for r
    by (simp add: case_prod_unfold comp_def)
  have m: "filter is_interactive_node (preorder r) =
      map snd (filter (is_interactive_node o snd) (with_ancestors [] r))" for r
    by (simp add: filter_map flip: snd_with_ancestors [of "[]"])
  have "collect_interactive_with_nav_filter r False =
      map (project_node_without_children o snd) (filter listed (with_ancestors [] r))" for r
    by (simp add: collect_interactive_with_nav_filter_def in_landmark_def
        collect_interactive_append(1) [of False "[]" False])
  then show ?thesis
    by (cases "ss_load_profile state = Interactive")
      (simp_all add: generate_fast_state_def collect_nodes_matching_eq listed_def m e)
qed

text \<open>A page with a link in its header and one in an article.\<close>

definition two_links :: SemanticNode where
  "two_links = SemanticNode ''body'' None
     [SemanticNode ''header'' None [leaf ''a'' ''Home'' None 2] None None False None 0 [],
      SemanticNode ''article'' None [SemanticNode ''header'' None [leaf ''a'' ''Read'' None 3] None None False None 0 []]
        None None False None 0 []] None None False None 1 []"

theorem generate_fast_state_exact_witness:
  "fs_interactive_elements (generate_fast_state (new_state (\<lambda>s. s) ''u'' 0 two_links Minimal)) = [leaf ''a'' ''Read'' None 3] \<and>
   fs_interactive_elements (generate_fast_state (new_state (\<lambda>s. s) ''u'' 0 two_links Interactive)) =
     [leaf ''a'' ''Home'' None 2, leaf ''a'' ''Read'' None 3]"
proof -
  have "map (project_node_without_children o snd)
       (filter (\<lambda>(anc, n). is_interactive_node n \<and> (Minimal = Interactive \<or> \<not> (is_anchor n \<and> in_landmark (anc @ [n]))))
        (with_ancestors [] two_links)) = [leaf ''a'' ''Read'' None 3]"
    "map (project_node_without_children o snd)
       (filter (\<lambda>(anc, n). is_interactive_node n \<and> (Interactive = Interactive \<or> \<not> (is_anchor n \<and> in_landmark (anc @ [n]))))
        (with_ancestors [] two_links)) = [leaf ''a'' ''Home'' None 2, leaf ''a'' ''Read'' None 3]"
    by code_simp+
  then show ?thesis
    using generate_fast_state_exact [of "new_state (\<lambda>s. s) ''u'' 0 two_links Minimal"]
      generate_fast_state_exact [of "new_state (\<lambda>s. s) ''u'' 0 two_links Interactive"]
    by (simp add: new_state_def)
qed

section \<open>Updates\<close>

record DeltaPolicy =
  max_patch_bytes_ratio :: f32
  max_operations :: int

definition default_delta_policy :: DeltaPolicy where
  "default_delta_policy = \<lparr>max_patch_bytes_ratio = f32_of_ratio 60 100, max_operations = 64\<rparr>"

record 'op SemanticDelta =
  sd_previous_state_hash :: string
  sd_next_state_hash :: string
  sd_patch :: "'op list"

datatype 'op StateUpdate =
    Noop string
  | FullUpdate SemanticState
  | Delta "'op SemanticDelta"

text \<open>
  \<open>serde_json\<close> and \<open>json_patch\<close>: encoding and decoding a tree, the patch between two values and
  its application, the size of an encoded patch, and the size of an encoded full update.
\<close>

record ('j, 'op) json_env =
  to_value :: "SemanticNode \<Rightarrow> string + 'j"
  from_value :: "'j \<Rightarrow> string + SemanticNode"
  json_diff :: "'j \<Rightarrow> 'j \<Rightarrow> 'op list"
  json_patch :: "'j \<Rightarrow> 'op list \<Rightarrow> string + 'j"
  patch_to_vec_len :: "'op list \<Rightarrow> int option"
  full_update_len :: "SemanticState \<Rightarrow> string + int"

definition operation_count :: "'op SemanticDelta \<Rightarrow> int" where
  "operation_count delta = int (length (sd_patch delta))"

definition patch_size_bytes :: "('j, 'op) json_env \<Rightarrow> 'op SemanticDelta \<Rightarrow> int" where
  "patch_size_bytes env delta = (case patch_to_vec_len env (sd_patch delta) of Some n \<Rightarrow> n | None \<Rightarrow> 0)"

definition apply_to_root :: "('j, 'op) json_env \<Rightarrow> 'op SemanticDelta \<Rightarrow> SemanticNode \<Rightarrow> string + SemanticNode" where
  "apply_to_root env delta base_root =
     res_bind (to_value env base_root) (\<lambda>json_root.
     res_bind (json_patch env json_root (sd_patch delta)) (\<lambda>patched.
     from_value env patched))"

definition build_delta ::
  "('j, 'op) json_env \<Rightarrow> SemanticState \<Rightarrow> SemanticState \<Rightarrow> string + 'op SemanticDelta option" where
  "build_delta env state previous =
     (if ss_state_hash state = ss_state_hash previous then Inr None
      else res_bind (to_value env (ss_root previous)) (\<lambda>previous_root_json.
           res_bind (to_value env (ss_root state)) (\<lambda>next_root_json.
             let patch = json_diff env previous_root_json next_root_json
             in if patch = [] then Inr None
                else Inr (Some \<lparr>sd_previous_state_hash = ss_state_hash previous,
                                sd_next_state_hash = ss_state_hash state, sd_patch = patch\<rparr>))))"

definition should_send_delta ::
  "('j, 'op) json_env \<Rightarrow> int \<Rightarrow> 'op SemanticDelta \<Rightarrow> DeltaPolicy \<Rightarrow> bool" where
  "should_send_delta env full_payload_bytes delta policy =
     (if operation_count delta = 0 \<or> max_operations policy < operation_count delta then False
      else if full_payload_bytes = 0 then False
      else f32_le (f32_quotient (patch_size_bytes env delta) full_payload_bytes)
             (max_patch_bytes_ratio policy))"

definition select_update ::
  "('j, 'op) json_env \<Rightarrow> SemanticState \<Rightarrow> SemanticState option \<Rightarrow> DeltaPolicy \<Rightarrow> string + 'op StateUpdate" where
  "select_update env state previous policy =
     (case previous of
        None \<Rightarrow> Inr (FullUpdate state)
      | Some previous_state \<Rightarrow>
          res_bind (build_delta env state previous_state) (\<lambda>d.
            case d of
              None \<Rightarrow> Inr (Noop (ss_state_hash state))
            | Some delta \<Rightarrow>
                res_bind (full_update_len env state) (\<lambda>full_payload_bytes.
                  if should_send_delta env full_payload_bytes delta policy
                  then Inr (Delta delta) else Inr (FullUpdate state))))"

subsection \<open>A client can follow the page\<close>

text \<open>
  What a client that holds \<open>base\<close> makes of an update: it keeps its tree, takes the new one, or
  applies the patch.
\<close>

definition client_root :: "('j, 'op) json_env \<Rightarrow> SemanticNode \<Rightarrow> 'op StateUpdate \<Rightarrow> string + SemanticNode" where
  "client_root env base u =
     (case u of Noop _ \<Rightarrow> Inr base | FullUpdate s \<Rightarrow> Inr (ss_root s)
      | Delta d \<Rightarrow> apply_to_root env d base)"

text \<open>The documented behaviour of the JSON libraries: round trips of the encoding and of a diff.\<close>

definition json_laws :: "('j, 'op) json_env \<Rightarrow> bool" where
  "json_laws env \<longleftrightarrow>
     (\<forall>n j. to_value env n = Inr j \<longrightarrow> from_value env j = Inr n) \<and>
     (\<forall>a b. json_patch env a (json_diff env a b) = Inr b) \<and>
     (\<forall>a. json_patch env a [] = Inr a)"

lemma json_laws_empty_diff:
  assumes "json_laws env" "json_diff env a b = []"
  shows "a = b"
proof -
  have "json_patch env a (json_diff env a b) = Inr b" "json_patch env a [] = Inr a"
    using assms(1) unfolding json_laws_def by blast+
  with assms(2) show ?thesis by simp
qed

lemma build_delta_None:
  assumes "json_laws env" "build_delta env s p = Inr None"
  shows "ss_state_hash s = ss_state_hash p \<or> ss_root s = ss_root p"
proof (rule disjCI)
  assume "ss_root s \<noteq> ss_root p"
  show "ss_state_hash s = ss_state_hash p"
  proof (rule ccontr)
    assume "ss_state_hash s \<noteq> ss_state_hash p"
    with assms(2) obtain a b where ab: "to_value env (ss_root p) = Inr a" "to_value env (ss_root s) = Inr b"
      and d: "json_diff env a b = []"
      by (auto simp: build_delta_def res_bind_Inr_iff Let_def split: if_splits)
    from json_laws_empty_diff [OF assms(1) d] ab assms(1)
    have "ss_root s = ss_root p" unfolding json_laws_def by (metis sum.inject(2))
    with \<open>ss_root s \<noteq> ss_root p\<close> show False ..
  qed
qed

lemma build_delta_Some:
  assumes "json_laws env" "build_delta env s p = Inr (Some d)"
  shows "apply_to_root env d (ss_root p) = Inr (ss_root s)"
    and "sd_previous_state_hash d = ss_state_hash p" "sd_next_state_hash d = ss_state_hash s"
    and "ss_state_hash s \<noteq> ss_state_hash p"
proof -
  obtain a b where ab: "to_value env (ss_root p) = Inr a" "to_value env (ss_root s) = Inr b"
    and d: "sd_patch d = json_diff env a b" and
      h: "sd_previous_state_hash d = ss_state_hash p" "sd_next_state_hash d = ss_state_hash s"
    and n: "ss_state_hash s \<noteq> ss_state_hash p"
    using assms(2) by (auto simp: build_delta_def res_bind_Inr_iff Let_def split: if_splits)
  have "json_patch env a (json_diff env a b) = Inr b" "from_value env b = Inr (ss_root s)"
    using assms(1) ab unfolding json_laws_def by blast+
  then show "apply_to_root env d (ss_root p) = Inr (ss_root s)"
    by (simp add: apply_to_root_def ab d)
  show "sd_previous_state_hash d = ss_state_hash p" "sd_next_state_hash d = ss_state_hash s"
    "ss_state_hash s \<noteq> ss_state_hash p" by (rule h n)+
qed

text \<open>
  C37: the updates keep a client in step. Under the round-trip laws of the JSON libraries, a client
  that holds the previous tree gets, from the update chosen for it, a tree with the content of the
  current one, whatever the policy; a delta names the hashes it leads from and to, changes the
  hash, and respects the policy's operation limit. The trees are clean, their hashes are the ones
  \<open>compute_hash\<close> gives, and SHA-256 does not collide on them.
\<close>

theorem select_update_keeps_client_in_step:
  assumes "json_laws env" and "clean_node (ss_root s)" "clean_node (ss_root p)"
    and "ss_state_hash s = compute_hash sha (ss_root s)" "ss_state_hash p = compute_hash sha (ss_root p)"
    and "sha (hash_node (ss_root s)) = sha (hash_node (ss_root p)) \<Longrightarrow>
         hash_node (ss_root s) = hash_node (ss_root p)"
    and "select_update env s (Some p) policy = Inr u"
  shows "\<exists>n. client_root env (ss_root p) u = Inr n \<and> node_content n = node_content (ss_root s) \<and>
    (\<forall>d. u = Delta d \<longrightarrow> n = ss_root s \<and> sd_previous_state_hash d = ss_state_hash p \<and>
       sd_next_state_hash d = ss_state_hash s \<and> ss_state_hash s \<noteq> ss_state_hash p \<and>
       0 < operation_count d \<and> operation_count d \<le> max_operations policy)"
proof -
  from assms(7) obtain dd where dd: "build_delta env s p = Inr dd"
    by (auto simp: select_update_def res_bind_Inr_iff)
  show ?thesis
  proof (cases dd)
    case None
    then have u: "u = Noop (ss_state_hash s)" using assms(7) dd by (simp add: select_update_def)
    have "ss_state_hash s = ss_state_hash p \<or> ss_root s = ss_root p"
      using build_delta_None assms(1) dd None by metis
    then have "node_content (ss_root p) = node_content (ss_root s)"
      using hash_node_prefix_free [OF assms(2,3), of "[]" "[]"] assms(4-6)
      by (auto simp: compute_hash_def)
    then show ?thesis by (simp add: u client_root_def)
  next
    case (Some d)
    note b = build_delta_Some [OF assms(1) dd [unfolded Some]]
    from assms(7) dd Some obtain len where
      "u = (if should_send_delta env len d policy then Delta d else FullUpdate s)"
      by (auto simp: select_update_def res_bind_Inr_iff split: if_splits)
    then show ?thesis using b by (auto simp: client_root_def should_send_delta_def operation_count_def
        split: if_splits)
  qed
qed

text \<open>A JSON library whose values are the trees and whose patches replace the whole value.\<close>

definition replace_json :: "(SemanticNode, SemanticNode) json_env" where
  "replace_json = \<lparr>to_value = Inr, from_value = Inr, json_diff = (\<lambda>a b. [b]),
     json_patch = (\<lambda>a ops. Inr (last (a # ops))), patch_to_vec_len = (\<lambda>_. Some 300),
     full_update_len = (\<lambda>_. Inr 1000)\<rparr>"

theorem select_update_keeps_client_in_step_witness:
  "\<exists>n. client_root replace_json (leaf ''p'' ''b'' None 1)
       (Delta \<lparr>sd_previous_state_hash = hash_node (leaf ''p'' ''b'' None 1),
               sd_next_state_hash = hash_node (leaf ''p'' ''a'' None 1),
               sd_patch = [leaf ''p'' ''a'' None 1]\<rparr>) = Inr n \<and>
     node_content n = node_content (leaf ''p'' ''a'' None 1)"
proof -
  define s where "s = new_state (\<lambda>s. s) ''x'' 0 (leaf ''p'' ''a'' None 1) Minimal"
  define p where "p = new_state (\<lambda>s. s) ''y'' 0 (leaf ''p'' ''b'' None 1) Minimal"
  have c: "clean_node (ss_root s)" "clean_node (ss_root p)"
    by (simp_all add: s_def p_def new_state_def leaf_def nul_free_def nul_free_opt_def)
  have j: "json_laws replace_json" by (simp add: json_laws_def replace_json_def)
  have q: "f32_le (f32_quotient 300 1000) (f32_of_ratio 60 100)" by code_simp
  have h: "ss_state_hash s = compute_hash (\<lambda>s. s) (ss_root s)" "ss_state_hash p = compute_hash (\<lambda>s. s) (ss_root p)"
    by (simp_all add: s_def p_def new_state_def)
  have ne: "hash_node (leaf ''p'' ''a'' None 1) \<noteq> hash_node (leaf ''p'' ''b'' None 1)"
    by (simp add: leaf_def hash_optional_string_def)
  have "select_update replace_json s (Some p) default_delta_policy =
      Inr (Delta \<lparr>sd_previous_state_hash = ss_state_hash p, sd_next_state_hash = ss_state_hash s,
                  sd_patch = [ss_root s]\<rparr>)"
    using ne q by (simp add: select_update_def build_delta_def replace_json_def s_def p_def new_state_def
        compute_hash_def should_send_delta_def operation_count_def default_delta_policy_def patch_size_bytes_def)
  from select_update_keeps_client_in_step [OF j c h _ this] show ?thesis
    by (auto simp: s_def p_def new_state_def compute_hash_def)
qed

end
