(* ===== verification/Audit_Trail.thy ===== *)
theory Audit_Trail
  imports Json Bounded_Log Sem_View
begin

text \<open>
  The audit trail, \<open>core-runtime/src/audit.rs\<close>: the events, their sanitization, the logger that
  buffers recent events and sends every event to a worker, and the worker that delivers them to the
  sinks. Redaction and JSON encoding are parameters; locks and the channel never fail.
\<close>

section \<open>Events\<close>

datatype AuditEvent =
    StateSnapshot string string u64 Json
  | StatePatch string string u64 Json
  | ToolCall string Json u64
  | AePolicyDecision string string string "string option" u64 \<comment> \<open>\<open>AuditEvent::PolicyDecision\<close>\<close>
  | HitlEvent string "string option" "string option" u64
  | VisualCapture string nat u64
  | PluginStateTransform string bool "string option" u64
  | PluginPolicyDecision string bool "string option" u64
  | BrowserRestart string u64 u64

record redactor =
  redact_text :: "string \<Rightarrow> string"
  redact_json :: "Json \<Rightarrow> Json"
  redact_json_tool_args :: "Json \<Rightarrow> Json"

section \<open>Sanitization\<close>

definition TRUNCATED :: string where
  "TRUNCATED = '' [truncated]''"

definition MAX_HITL_STRING_LEN :: nat where
  "MAX_HITL_STRING_LEN = 512"

definition sanitize_hitl_string :: "redactor \<Rightarrow> string \<Rightarrow> string" where
  "sanitize_hitl_string r s =
     (let redacted = redact_text r s; cut = take_chars MAX_HITL_STRING_LEN redacted
      in if length cut < length redacted then cut @ TRUNCATED else redacted)"

definition MAX_PLUGIN_STRING_LEN :: nat where
  "MAX_PLUGIN_STRING_LEN = 200"

text \<open>The limit counts bytes, and slicing inside a character panics.\<close>

definition truncate_plugin_string :: "string \<Rightarrow> string call" where
  "truncate_plugin_string s =
     (if length s \<le> MAX_PLUGIN_STRING_LEN then Ret s
      else case slice_to s MAX_PLUGIN_STRING_LEN of Panic \<Rightarrow> Panic | Ret t \<Rightarrow> Ret (t @ TRUNCATED))"

lemma call_map_Ret_iff: "call_map f c = Ret b \<longleftrightarrow> (\<exists>a. c = Ret a \<and> b = f a)"
  by (cases c) auto

definition sanitize_plugin_text :: "redactor \<Rightarrow> string option \<Rightarrow> string option call" where
  "sanitize_plugin_text r v = (case v of None \<Rightarrow> Ret None
     | Some s \<Rightarrow> call_map Some (truncate_plugin_string (redact_text r s)))"

definition is_hex_digit :: "char \<Rightarrow> bool" where
  "is_hex_digit c \<longleftrightarrow> 48 \<le> byte c \<and> byte c \<le> 57 \<or> 65 \<le> byte c \<and> byte c \<le> 70 \<or> 97 \<le> byte c \<and> byte c \<le> 102"

definition valid_fingerprint :: "string \<Rightarrow> bool" where
  "valid_fingerprint f \<longleftrightarrow>
     length f = 71 \<and> starts_with f ''sha256:'' \<and> list_all is_hex_digit (drop 7 f)"

fun sanitize_audit_event :: "redactor \<Rightarrow> AuditEvent \<Rightarrow> AuditEvent call" where
  "sanitize_audit_event r (ToolCall tool_name args timestamp) =
     Ret (ToolCall tool_name (redact_json_tool_args r args) timestamp)"
| "sanitize_audit_event r (StateSnapshot state_hash page_instance_id timestamp payload) =
     Ret (StateSnapshot state_hash page_instance_id timestamp (redact_json r payload))"
| "sanitize_audit_event r (StatePatch state_hash page_instance_id timestamp patch) =
     Ret (StatePatch state_hash page_instance_id timestamp (redact_json r patch))"
| "sanitize_audit_event r (AePolicyDecision rule_id action decision destination_fingerprint timestamp) =
     Ret (AePolicyDecision rule_id action decision
       (case destination_fingerprint of None \<Rightarrow> None
        | Some f \<Rightarrow> if valid_fingerprint f then Some f else None) timestamp)"
| "sanitize_audit_event r (PluginStateTransform plugin_id success error_message timestamp) =
     call_map (\<lambda>m. PluginStateTransform plugin_id success m timestamp) (sanitize_plugin_text r error_message)"
| "sanitize_audit_event r (PluginPolicyDecision plugin_id allowed reason timestamp) =
     call_map (\<lambda>m. PluginPolicyDecision plugin_id allowed m timestamp) (sanitize_plugin_text r reason)"
| "sanitize_audit_event r (HitlEvent event_type reason user_id timestamp) =
     Ret (HitlEvent event_type (map_option (sanitize_hitl_string r) reason)
       (map_option (sanitize_hitl_string r) user_id) timestamp)"
| "sanitize_audit_event r (VisualCapture trigger marks_count timestamp) = Ret (VisualCapture trigger marks_count timestamp)"
| "sanitize_audit_event r (BrowserRestart reason restart_count timestamp) = Ret (BrowserRestart reason restart_count timestamp)"

text \<open>
  A long plugin message can crash the audit. Recording a plugin's decision panics exactly when
  its redacted reason is longer than 200 bytes and byte 200 lies inside a character; any other
  event, and any other reason, is recorded.
\<close>

theorem sanitize_panics_iff:
  "sanitize_audit_event r ev = Panic \<longleftrightarrow>
     (\<exists>m. (\<exists>p ok ts. ev = PluginStateTransform p ok (Some m) ts \<or> ev = PluginPolicyDecision p ok (Some m) ts) \<and>
          200 < length (redact_text r m) \<and> \<not> is_char_boundary (redact_text r m) 200)"
proof -
  have t: "call_map f (sanitize_plugin_text r v) = Panic \<longleftrightarrow>
      (\<exists>m. v = Some m \<and> 200 < length (redact_text r m) \<and> \<not> is_char_boundary (redact_text r m) 200)" for f :: "string option \<Rightarrow> AuditEvent" and v
    by (auto simp: call_map_def sanitize_plugin_text_def truncate_plugin_string_def slice_to_def
        MAX_PLUGIN_STRING_LEN_def split: option.splits call.splits)
  show ?thesis by (cases ev) (auto simp: t)
qed

section \<open>The logger and its worker\<close>

datatype AuditMessage =
    Event AuditEvent
  | StateUpdateMsg "SemanticState option" SemanticState

text \<open>
  The logger: the ring of recent events, the channel to the worker, and what the worker has
  delivered to the sinks (each sink gets the same events in the same order).
\<close>

record AuditLogger =
  al_recent_events :: "AuditEvent list"
  al_channel :: "AuditMessage list"
  al_delivered :: "AuditEvent list"

definition new_logger :: AuditLogger where
  "new_logger = \<lparr>al_recent_events = [], al_channel = [], al_delivered = []\<rparr>"

definition MAX_RECENT_EVENTS :: nat where
  "MAX_RECENT_EVENTS = 512"

definition push_recent_event :: "nat \<Rightarrow> AuditEvent list \<Rightarrow> AuditEvent \<Rightarrow> AuditEvent list" where
  "push_recent_event max_recent_events recent_events event =
     pop_front_while_over max_recent_events (recent_events @ [event])"

interpretation recent: bounded_log "push_recent_event MAX_RECENT_EVENTS" MAX_RECENT_EVENTS
  by unfold_locales
    (simp_all add: push_recent_event_def MAX_RECENT_EVENTS_def push_pop_front_room push_pop_front_full)

definition log_event :: "redactor \<Rightarrow> AuditLogger \<Rightarrow> AuditEvent \<Rightarrow> AuditLogger call" where
  "log_event r lg event =
     call_map (\<lambda>sanitized. lg\<lparr>al_recent_events := push_recent_event MAX_RECENT_EVENTS (al_recent_events lg) sanitized,
                            al_channel := al_channel lg @ [Event sanitized]\<rparr>)
       (sanitize_audit_event r event)"

definition log_state_update :: "AuditLogger \<Rightarrow> SemanticState option \<Rightarrow> SemanticState \<Rightarrow> AuditLogger" where
  "log_state_update lg previous current = lg\<lparr>al_channel := al_channel lg @ [StateUpdateMsg previous current]\<rparr>"

text \<open>The JSON functions the worker uses: those of \<open>json_env\<close>, here with JSON values, and the encoding of a patch.\<close>

definition build_state_update_event ::
  "(Json, 'op) json_env \<Rightarrow> ('op list \<Rightarrow> string + Json) \<Rightarrow> u64 \<Rightarrow> SemanticState option \<Rightarrow> SemanticState \<Rightarrow>
   string + AuditEvent option" where
  "build_state_update_event env patch_to_value timestamp previous current =
     (case previous of
        None \<Rightarrow> res_bind (to_value env (ss_root current)) (\<lambda>payload.
          Inr (Some (StateSnapshot (ss_state_hash current) (ss_page_instance_id current) timestamp payload)))
      | Some previous \<Rightarrow> res_bind (build_delta env current previous) (\<lambda>delta.
          case delta of
            None \<Rightarrow> Inr None
          | Some d \<Rightarrow> res_bind (patch_to_value (sd_patch d)) (\<lambda>patch.
              Inr (Some (StatePatch (ss_state_hash current) (ss_page_instance_id current) timestamp patch)))))"

text \<open>What a message is worth to the sinks, and whether it is also buffered.\<close>

definition message_event ::
  "(Json, 'op) json_env \<Rightarrow> ('op list \<Rightarrow> string + Json) \<Rightarrow> u64 \<Rightarrow> AuditMessage \<Rightarrow> AuditEvent option" where
  "message_event env patch_to_value timestamp msg =
     (case msg of
        Event event \<Rightarrow> Some event
      | StateUpdateMsg previous current \<Rightarrow>
          (case build_state_update_event env patch_to_value timestamp previous current of
             Inl _ \<Rightarrow> None
           | Inr event \<Rightarrow> event))"

text \<open>One turn of the worker: it takes the oldest message, if there is one.\<close>

definition worker_turn ::
  "redactor \<Rightarrow> (Json, 'op) json_env \<Rightarrow> ('op list \<Rightarrow> string + Json) \<Rightarrow> u64 \<Rightarrow> AuditLogger \<Rightarrow> AuditLogger call" where
  "worker_turn r env patch_to_value timestamp lg =
     (case al_channel lg of
        [] \<Rightarrow> Ret lg
      | msg # rest \<Rightarrow>
          (case message_event env patch_to_value timestamp msg of
             None \<Rightarrow> Ret (lg\<lparr>al_channel := rest\<rparr>)
           | Some event \<Rightarrow>
               call_map (\<lambda>sanitized.
                 lg\<lparr>al_channel := rest,
                    al_recent_events :=
                      (if (\<exists>e. msg = Event e) then al_recent_events lg
                       else push_recent_event MAX_RECENT_EVENTS (al_recent_events lg) sanitized),
                    al_delivered := al_delivered lg @ [sanitized]\<rparr>)
                 (sanitize_audit_event r event)))"

section \<open>The trail is complete and in order\<close>

text \<open>
  The steps of the threads that share a logger; the clock, which only fills timestamps, stands at
  \<open>ts\<close> during a run.
\<close>

datatype audit_step = LogEvent AuditEvent | LogState "SemanticState option" SemanticState | WorkerTurn

definition audit_do ::
  "redactor \<Rightarrow> (Json, 'op) json_env \<Rightarrow> ('op list \<Rightarrow> string + Json) \<Rightarrow> u64 \<Rightarrow> AuditLogger \<Rightarrow> audit_step \<Rightarrow> AuditLogger call" where
  "audit_do r env pv ts lg step =
     (case step of LogEvent ev \<Rightarrow> log_event r lg ev
      | LogState p c \<Rightarrow> Ret (log_state_update lg p c)
      | WorkerTurn \<Rightarrow> worker_turn r env pv ts lg)"

fun audit_run ::
  "redactor \<Rightarrow> (Json, 'op) json_env \<Rightarrow> ('op list \<Rightarrow> string + Json) \<Rightarrow> u64 \<Rightarrow> AuditLogger \<Rightarrow> audit_step list \<Rightarrow> AuditLogger call" where
  "audit_run r env pv ts lg [] = Ret lg"
| "audit_run r env pv ts lg (s # ss) = call_bind (audit_do r env pv ts lg s) (\<lambda>lg'. audit_run r env pv ts lg' ss)"

text \<open>The messages the steps put on the channel, and what a message is delivered as.\<close>

definition sent :: "redactor \<Rightarrow> audit_step \<Rightarrow> AuditMessage list" where
  "sent r step = (case step of LogEvent ev \<Rightarrow> (case sanitize_audit_event r ev of Panic \<Rightarrow> [] | Ret e \<Rightarrow> [Event e])
     | LogState p c \<Rightarrow> [StateUpdateMsg p c] | WorkerTurn \<Rightarrow> [])"

definition delivered_as ::
  "redactor \<Rightarrow> (Json, 'op) json_env \<Rightarrow> ('op list \<Rightarrow> string + Json) \<Rightarrow> u64 \<Rightarrow> AuditMessage \<Rightarrow> AuditEvent list" where
  "delivered_as r env pv ts msg = (case message_event env pv ts msg of None \<Rightarrow> []
     | Some ev \<Rightarrow> (case sanitize_audit_event r ev of Panic \<Rightarrow> [] | Ret e \<Rightarrow> [e]))"

lemma audit_do_trail:
  assumes "audit_do r env pv ts lg s = Ret lg'"
  shows "al_delivered lg' @ concat (map (delivered_as r env pv ts) (al_channel lg')) =
    al_delivered lg @ concat (map (delivered_as r env pv ts) (al_channel lg @ sent r s))"
    and "length (al_recent_events lg) \<le> 512 \<Longrightarrow> length (al_recent_events lg') \<le> 512"
  using assms recent.length_push
  by (auto simp: audit_do_def log_event_def log_state_update_def worker_turn_def sent_def delivered_as_def
      call_map_Ret_iff MAX_RECENT_EVENTS_def split: audit_step.splits list.splits option.splits)

text \<open>
  C40: nothing is lost or reordered between the threads and the sinks. However logging and the
  worker interleave, what has been delivered followed by what the channel still holds is the
  sanitized form of every message sent, in sending order; and the ring of recent events never
  exceeds 512 entries.
\<close>

theorem audit_trail_complete:
  assumes "audit_run r env pv ts new_logger steps = Ret lg"
  shows "al_delivered lg @ concat (map (delivered_as r env pv ts) (al_channel lg)) =
      concat (map (delivered_as r env pv ts) (concat (map (sent r) steps))) \<and>
    length (al_recent_events lg) \<le> 512"
proof -
  have "audit_run r env pv ts l steps = Ret lg \<Longrightarrow> length (al_recent_events l) \<le> 512 \<Longrightarrow>
      al_delivered lg @ concat (map (delivered_as r env pv ts) (al_channel lg)) =
        al_delivered l @ concat (map (delivered_as r env pv ts) (al_channel l @ concat (map (sent r) steps))) \<and>
      length (al_recent_events lg) \<le> 512" for l
  proof (induction steps arbitrary: l)
    case (Cons s steps)
    then obtain l' where l': "audit_do r env pv ts l s = Ret l'" "audit_run r env pv ts l' steps = Ret lg"
      by (auto simp: call_bind_Ret_iff)
    from Cons.IH [OF l'(2) audit_do_trail(2) [OF l'(1) Cons.prems(2)]] audit_do_trail(1) [OF l'(1)]
    show ?case by simp
  qed simp
  from this [OF assms] show ?thesis by (simp add: new_logger_def)
qed

definition plain_redactor :: redactor where
  "plain_redactor = \<lparr>redact_text = (\<lambda>s. s), redact_json = (\<lambda>j. j), redact_json_tool_args = (\<lambda>j. j)\<rparr>"

definition no_json :: "(Json, unit) json_env" where
  "no_json = \<lparr>to_value = (\<lambda>_. Inl ''no''), from_value = (\<lambda>_. Inl ''no''), json_diff = (\<lambda>a b. []),
     json_patch = (\<lambda>a p. Inr a), patch_to_vec_len = (\<lambda>_. None), full_update_len = (\<lambda>_. Inl ''no'')\<rparr>"

theorem audit_trail_complete_witness:
  "audit_run plain_redactor no_json (\<lambda>_. Inl ''no'') 0 new_logger
     [LogEvent (BrowserRestart ''a'' 1 2), LogEvent (VisualCapture ''b'' 0 3), WorkerTurn] =
     Ret \<lparr>al_recent_events = [BrowserRestart ''a'' 1 2, VisualCapture ''b'' 0 3],
          al_channel = [Event (VisualCapture ''b'' 0 3)], al_delivered = [BrowserRestart ''a'' 1 2]\<rparr> \<and>
   [BrowserRestart ''a'' 1 2] @ [VisualCapture ''b'' 0 3] = [BrowserRestart ''a'' 1 2, VisualCapture ''b'' 0 3] @ []"
proof -
  let ?steps = "[LogEvent (BrowserRestart ''a'' 1 2), LogEvent (VisualCapture ''b'' 0 3), WorkerTurn]"
  have run: "audit_run plain_redactor no_json (\<lambda>_. Inl ''no'') 0 new_logger ?steps =
     Ret \<lparr>al_recent_events = [BrowserRestart ''a'' 1 2, VisualCapture ''b'' 0 3],
          al_channel = [Event (VisualCapture ''b'' 0 3)], al_delivered = [BrowserRestart ''a'' 1 2]\<rparr>"
    by (simp add: audit_do_def log_event_def worker_turn_def message_event_def new_logger_def
        push_recent_event_def MAX_RECENT_EVENTS_def)
  from audit_trail_complete [OF run] run show ?thesis
    by (simp add: sent_def delivered_as_def message_event_def)
qed

end
