(* ===== verification/Approvals.thy ===== *)
theory Approvals
  imports Policy Audit_Trail
begin

text \<open>
  Human approvals of a page session: \<open>browser/mod.rs\<close> (the approval state), \<open>browser/policy.rs\<close>
  (approve, reject, consume, publish), \<open>browser/approval_context.rs\<close> (the identity of the page
  that was reviewed), \<open>browser/navigation_policy.rs\<close> (validity of a grant, navigation grants) and
  \<open>expire_navigation_approvals\<close> of \<open>browser/persistent_navigation.rs\<close>. The URL parser, SHA-256,
  fresh UUIDs, the clock and the document the browser reports are parameters of the operations.
\<close>

section \<open>Data\<close>

record DocumentSnapshot =
  ds_frame_id :: string
  ds_loader_id :: string
  ds_url :: string
  ds_revision :: u64

text \<open>\<open>Url::parse\<close> (the serialized URL), and the URL without its fragment.\<close>

record url_env =
  url_parse :: "string \<Rightarrow> string option"
  url_drop_fragment :: "string \<Rightarrow> string"

datatype ApprovalError =
    IdentityUnavailable
  | DocumentUnresolvable
  | DocumentUnreadable
  | NoLongerPending
  | DocumentChangedSinceRequest
  | DocumentChangedBeforeCommit
  | PendingChangedBeforeCommit
  | NonePending
  | DocumentChangedBeforePublication
  | DocumentChangedBeforeConsumption
  | DocumentChangedDuringCapture

record PageApprovalContext =
  pac_revision :: u64
  pac_frame_id :: string
  pac_loader_id :: string
  pac_url_fingerprint :: string
  pac_full_url_fingerprint :: string

definition approval_url_fingerprint :: "(string \<Rightarrow> string) \<Rightarrow> string \<Rightarrow> string" where
  "approval_url_fingerprint sha url = sha url"

definition from_snapshot ::
  "url_env \<Rightarrow> (string \<Rightarrow> string) \<Rightarrow> DocumentSnapshot \<Rightarrow> ApprovalError + PageApprovalContext" where
  "from_snapshot env sha snapshot =
     (if ds_frame_id snapshot = [] \<or> ds_loader_id snapshot = [] then Inl IdentityUnavailable
      else case url_parse env (ds_url snapshot) of
             None \<Rightarrow> Inl DocumentUnresolvable
           | Some url \<Rightarrow>
               Inr \<lparr>pac_revision = ds_revision snapshot, pac_frame_id = ds_frame_id snapshot,
                    pac_loader_id = ds_loader_id snapshot,
                    pac_url_fingerprint = approval_url_fingerprint sha (url_drop_fragment env url),
                    pac_full_url_fingerprint = approval_url_fingerprint sha url\<rparr>)"

definition same_document :: "PageApprovalContext \<Rightarrow> PageApprovalContext \<Rightarrow> bool" where
  "same_document a b \<longleftrightarrow> pac_revision a = pac_revision b \<and> pac_frame_id a = pac_frame_id b \<and>
     pac_loader_id a = pac_loader_id b \<and> pac_url_fingerprint a = pac_url_fingerprint b"

definition context_matches :: "PageApprovalContext \<Rightarrow> PageApprovalContext \<Rightarrow> ApprovalScope \<Rightarrow> bool" where
  "context_matches a b scope \<longleftrightarrow> same_document a b \<and>
     (scope \<noteq> UntilNavigation \<or> pac_full_url_fingerprint a = pac_full_url_fingerprint b)"

datatype ApprovalBinding = PageAction PageApprovalContext | NavigationCapability

record PolicyApprovalRequest =
  ar_rule_id :: string
  ar_scope :: ApprovalScope
  ar_action :: string
  ar_target_signature :: string
  ar_outcome :: "OutcomeProjection option"

type_synonym uuid = nat

record PendingPolicyApproval =
  pend_id :: uuid
  pend_request :: PolicyApprovalRequest
  pend_binding :: ApprovalBinding

record GrantedPolicyApproval =
  gr_request :: PolicyApprovalRequest
  gr_binding :: ApprovalBinding
  gr_navigation_epoch :: u64
  gr_url_fingerprint :: string
  gr_expires_at_epoch_ms :: "int option"
  gr_remaining_uses :: "int option"

record PolicyApprovalState =
  pas_pending :: "PendingPolicyApproval option"
  pas_granted :: "GrantedPolicyApproval list"

definition default_approvals :: PolicyApprovalState where
  "default_approvals = \<lparr>pas_pending = None, pas_granted = []\<rparr>"

definition replace_pending ::
  "uuid \<Rightarrow> PolicyApprovalState \<Rightarrow> PolicyApprovalRequest \<Rightarrow> ApprovalBinding \<Rightarrow> PolicyApprovalState" where
  "replace_pending uuid st request binding =
     st\<lparr>pas_pending := Some \<lparr>pend_id = uuid, pend_request = request, pend_binding = binding\<rparr>\<rparr>"

text \<open>
  The part of a page session the approvals depend on: the document the navigation observer has
  last seen, the approval state, the navigation epoch and the events handed to the audit logger.
\<close>

record approval_session =
  se_document :: DocumentSnapshot
  se_approvals :: PolicyApprovalState
  se_navigation_epoch :: u64
  se_audit :: "AuditEvent list"

definition log_audit :: "AuditEvent \<Rightarrow> 'a approval_session_scheme \<Rightarrow> 'a approval_session_scheme" where
  "log_audit ev s = s\<lparr>se_audit := se_audit s @ [ev]\<rparr>"

text \<open>\<open>with_approval_document_context_current\<close>: the operation runs only if the observed document is the expected one.\<close>

definition document_current :: "'a approval_session_scheme \<Rightarrow> DocumentSnapshot \<Rightarrow> bool" where
  "document_current s expected \<longleftrightarrow>
     ds_revision (se_document s) = ds_revision expected \<and> ds_frame_id (se_document s) = ds_frame_id expected \<and>
     ds_loader_id (se_document s) = ds_loader_id expected \<and> ds_url (se_document s) = ds_url expected"

section \<open>Approving and rejecting\<close>

definition pending_id :: "PolicyApprovalState \<Rightarrow> uuid option" where
  "pending_id st = map_option pend_id (pas_pending st)"

definition grant_lifetime :: "int \<Rightarrow> ApprovalScope \<Rightarrow> int option \<times> int option" where
  "grant_lifetime now_ms scope = (case scope of
       ActionOnly \<Rightarrow> (None, Some 1)
     | UntilNavigation \<Rightarrow> (None, None)
     | Timeboxed ms \<Rightarrow> (Some (now_ms + uint ms), None))"

definition approved_event :: "string \<Rightarrow> u64 \<Rightarrow> AuditEvent" where
  "approved_event reason ts = HitlEvent ''approved'' (Some reason) None ts"

text \<open>
  \<open>document\<close> is what \<open>approval_document_snapshot\<close> read; \<open>reason\<close> is the formatted text of the
  audit entry.
\<close>

definition commit_pending_policy_approval ::
  "url_env \<Rightarrow> (string \<Rightarrow> string) \<Rightarrow> int \<Rightarrow> u64 \<Rightarrow> (PolicyApprovalRequest \<Rightarrow> string) \<Rightarrow>
   PendingPolicyApproval \<Rightarrow> DocumentSnapshot \<Rightarrow> 'a approval_session_scheme \<Rightarrow>
   (ApprovalError + PolicyApprovalRequest) \<times> 'a approval_session_scheme" where
  "commit_pending_policy_approval env sha now_ms ts reason pending document s =
     (case (case pend_binding pending of
              NavigationCapability \<Rightarrow> Inr ()
            | PageAction reviewed \<Rightarrow>
                res_bind (from_snapshot env sha document) (\<lambda>current.
                  ensure (context_matches reviewed current (ar_scope (pend_request pending)))
                    DocumentChangedSinceRequest)) of
        Inl e \<Rightarrow> (Inl e, s)
      | Inr _ \<Rightarrow>
          if \<not> document_current s document then (Inl DocumentChangedBeforeCommit, s)
          else if pending_id (se_approvals s) \<noteq> Some (pend_id pending) then (Inl PendingChangedBeforeCommit, s)
          else (let request = pend_request pending;
                    grant = \<lparr>gr_request = request, gr_binding = pend_binding pending,
                       gr_navigation_epoch = se_navigation_epoch s,
                       gr_url_fingerprint = approval_url_fingerprint sha (ds_url document),
                       gr_expires_at_epoch_ms = fst (grant_lifetime now_ms (ar_scope request)),
                       gr_remaining_uses = snd (grant_lifetime now_ms (ar_scope request))\<rparr>
                in (Inr request,
                    log_audit (approved_event (reason request) ts)
                      (s\<lparr>se_approvals := \<lparr>pas_pending = None, pas_granted = pas_granted (se_approvals s) @ [grant]\<rparr>\<rparr>))))"

text \<open>
  The steps up to the commit: the pending request is copied, its identity checked, and the
  document read; the session may change before the commit, so the commit gets its own state.
\<close>

definition approve_begin ::
  "uuid option \<Rightarrow> 'a approval_session_scheme \<Rightarrow> ApprovalError + PendingPolicyApproval option" where
  "approve_begin expected_id s =
     (case pas_pending (se_approvals s) of
        None \<Rightarrow> if expected_id \<noteq> None then Inl NoLongerPending else Inr None
      | Some snapshot \<Rightarrow>
          if (case expected_id of None \<Rightarrow> False | Some expected \<Rightarrow> expected \<noteq> pend_id snapshot) then Inl NoLongerPending
          else Inr (Some snapshot))"

definition approve_pending_policy_request_with_expected ::
  "url_env \<Rightarrow> (string \<Rightarrow> string) \<Rightarrow> int \<Rightarrow> u64 \<Rightarrow> (PolicyApprovalRequest \<Rightarrow> string) \<Rightarrow>
   ApprovalError + DocumentSnapshot \<Rightarrow> ('a approval_session_scheme \<Rightarrow> 'a approval_session_scheme) \<Rightarrow>
   uuid option \<Rightarrow> 'a approval_session_scheme \<Rightarrow>
   (ApprovalError + PolicyApprovalRequest option) \<times> 'a approval_session_scheme" where
  "approve_pending_policy_request_with_expected env sha now_ms ts reason read_document meanwhile expected_id s =
     (case approve_begin expected_id s of
        Inl e \<Rightarrow> (Inl e, s)
      | Inr None \<Rightarrow> (Inr None, s)
      | Inr (Some snapshot) \<Rightarrow>
          (case read_document of
             Inl e \<Rightarrow> (Inl e, meanwhile s)
           | Inr document \<Rightarrow>
               (case commit_pending_policy_approval env sha now_ms ts reason snapshot document (meanwhile s) of
                  (Inl e, s') \<Rightarrow> (Inl e, s')
                | (Inr request, s') \<Rightarrow> (Inr (Some request), s'))))"

definition rejected_event :: "u64 \<Rightarrow> AuditEvent" where
  "rejected_event ts = HitlEvent ''rejected'' None None ts"

definition reject_pending_policy_request_with_expected ::
  "u64 \<Rightarrow> uuid option \<Rightarrow> 'a approval_session_scheme \<Rightarrow> (ApprovalError + unit) \<times> 'a approval_session_scheme" where
  "reject_pending_policy_request_with_expected ts expected_id s =
     (if expected_id \<noteq> None \<and> pending_id (se_approvals s) \<noteq> expected_id then (Inl NoLongerPending, s)
      else case pas_pending (se_approvals s) of
             None \<Rightarrow> (Inl NonePending, s)
           | Some _ \<Rightarrow> (Inr (), log_audit (rejected_event ts) (s\<lparr>se_approvals := (se_approvals s)\<lparr>pas_pending := None\<rparr>\<rparr>)))"

section \<open>Publishing and consuming\<close>

definition set_pending_policy_approval_for_document ::
  "url_env \<Rightarrow> (string \<Rightarrow> string) \<Rightarrow> uuid \<Rightarrow> ApprovalError + DocumentSnapshot \<Rightarrow> PolicyApprovalRequest \<Rightarrow> DocumentSnapshot \<Rightarrow>
   'a approval_session_scheme \<Rightarrow> (ApprovalError + unit) \<times> 'a approval_session_scheme" where
  "set_pending_policy_approval_for_document env sha uuid read_document request document s =
     (case res_bind read_document (\<lambda>current.
           res_bind (from_snapshot env sha document) (\<lambda>reviewed.
           res_bind (from_snapshot env sha current) (\<lambda>current_context.
           res_then (ensure (context_matches reviewed current_context (ar_scope request)) DocumentChangedBeforePublication)
             (Inr (current, reviewed))))) of
        Inl e \<Rightarrow> (Inl e, s)
      | Inr (current, reviewed) \<Rightarrow>
          if \<not> document_current s current then (Inl DocumentChangedBeforeCommit, s)
          else (Inr (), s\<lparr>se_approvals := replace_pending uuid (se_approvals s) request (PageAction reviewed)\<rparr>))"

definition is_grant_valid ::
  "(string \<Rightarrow> string) \<Rightarrow> GrantedPolicyApproval \<Rightarrow> u64 \<Rightarrow> string \<Rightarrow> int \<Rightarrow> bool" where
  "is_grant_valid sha grant navigation_epoch current_url now_ms =
     (case ar_scope (gr_request grant) of
        ActionOnly \<Rightarrow> gr_navigation_epoch grant = navigation_epoch \<and>
          (case gr_remaining_uses grant of None \<Rightarrow> 0 | Some n \<Rightarrow> n) > 0
      | UntilNavigation \<Rightarrow> gr_navigation_epoch grant = navigation_epoch \<and>
          gr_url_fingerprint grant = approval_url_fingerprint sha current_url
      | Timeboxed _ \<Rightarrow> (case gr_expires_at_epoch_ms grant of None \<Rightarrow> False | Some expires_at \<Rightarrow> now_ms \<le> expires_at))"

definition request_is :: "string \<Rightarrow> ApprovalScope \<Rightarrow> string \<Rightarrow> string \<Rightarrow> PolicyApprovalRequest \<Rightarrow> bool" where
  "request_is rule_id scope action target_signature r \<longleftrightarrow>
     ar_rule_id r = rule_id \<and> ar_scope r = scope \<and> ar_action r = action \<and> ar_target_signature r = target_signature"

text \<open>What \<open>ActionOnly\<close> does to the grant it uses: one use less, and no grant without a use left.\<close>

definition use_action_only :: "nat \<Rightarrow> GrantedPolicyApproval list \<Rightarrow> GrantedPolicyApproval list" where
  "use_action_only index granted =
     (case gr_remaining_uses (granted ! index) of
        Some n \<Rightarrow> if n > 1 then granted[index := (granted ! index)\<lparr>gr_remaining_uses := Some (n - 1)\<rparr>]
                  else remove_at index granted
      | None \<Rightarrow> remove_at index granted)"

definition consume_granted_policy_approval ::
  "url_env \<Rightarrow> (string \<Rightarrow> string) \<Rightarrow> int \<Rightarrow> ApprovalError + DocumentSnapshot \<Rightarrow>
   string \<Rightarrow> ApprovalScope \<Rightarrow> string \<Rightarrow> string \<Rightarrow> DocumentSnapshot \<Rightarrow> 'a approval_session_scheme \<Rightarrow>
   (ApprovalError + bool) \<times> 'a approval_session_scheme" where
  "consume_granted_policy_approval env sha now_ms read_document rule_id scope action target_signature document s =
     (case res_bind read_document (\<lambda>current.
           res_bind (from_snapshot env sha document) (\<lambda>reviewed.
           res_bind (from_snapshot env sha current) (\<lambda>current_binding.
           res_then (ensure (context_matches reviewed current_binding scope) DocumentChangedBeforeConsumption)
             (Inr (current, current_binding))))) of
        Inl e \<Rightarrow> (Inl e, s)
      | Inr (current, current_binding) \<Rightarrow>
          if \<not> document_current s current then (Inl DocumentChangedBeforeCommit, s)
          else
            (let granted = filter (\<lambda>grant.
                   (case gr_binding grant of
                      PageAction context \<Rightarrow> context_matches context current_binding (ar_scope (gr_request grant))
                    | NavigationCapability \<Rightarrow> True) \<and>
                   is_grant_valid sha grant (se_navigation_epoch s) (ds_url current) now_ms)
                 (pas_granted (se_approvals s));
                 with_granted = (\<lambda>g. s\<lparr>se_approvals := (se_approvals s)\<lparr>pas_granted := g\<rparr>\<rparr>)
             in case position (\<lambda>grant. gr_binding grant \<noteq> NavigationCapability \<and>
                       request_is rule_id scope action target_signature (gr_request grant)) granted of
                  None \<Rightarrow> (Inr False, with_granted granted)
                | Some index \<Rightarrow>
                    (Inr True, with_granted (if scope = ActionOnly then use_action_only index granted else granted))))"

definition consume_navigation_approval ::
  "(string \<Rightarrow> string) \<Rightarrow> int \<Rightarrow> string \<Rightarrow> string \<Rightarrow> ApprovalScope \<Rightarrow> string \<Rightarrow>
   'a approval_session_scheme \<Rightarrow> bool \<times> 'a approval_session_scheme" where
  "consume_navigation_approval sha now_ms approval_context_url rule_id scope approval_signature s =
     (let granted = filter (\<lambda>grant. is_grant_valid sha grant (se_navigation_epoch s) approval_context_url now_ms)
            (pas_granted (se_approvals s));
          with_granted = (\<lambda>g. s\<lparr>se_approvals := (se_approvals s)\<lparr>pas_granted := g\<rparr>\<rparr>)
      in case position (\<lambda>grant. gr_binding grant = NavigationCapability \<and>
                request_is rule_id scope ''navigate'' approval_signature (gr_request grant)) granted of
           None \<Rightarrow> (False, with_granted granted)
         | Some index \<Rightarrow>
             (True, with_granted (if scope = ActionOnly then remove_at index granted else granted)))"

definition expire_navigation_approvals ::
  "PolicyApprovalState \<Rightarrow> uuid option \<Rightarrow> bool \<Rightarrow> PolicyApprovalState" where
  "expire_navigation_approvals st initial_pending_id requires_approval =
     \<lparr>pas_pending = (if \<not> requires_approval \<and> pending_id st = initial_pending_id then None else pas_pending st),
      pas_granted = []\<rparr>"

section \<open>Every use of an approval was approved\<close>

text \<open>
  What a grant is for: a navigation or a page action, the rule, scope, action and target. The
  trace of a session records the approvals and the uses.
\<close>

type_synonym grant_key = "bool \<times> string \<times> ApprovalScope \<times> string \<times> string"

definition request_key :: "ApprovalBinding \<Rightarrow> PolicyApprovalRequest \<Rightarrow> grant_key" where
  "request_key b r = (b = NavigationCapability, ar_rule_id r, ar_scope r, ar_action r, ar_target_signature r)"

definition grant_key :: "GrantedPolicyApproval \<Rightarrow> grant_key" where
  "grant_key g = request_key (gr_binding g) (gr_request g)"

definition key_scope :: "grant_key \<Rightarrow> ApprovalScope" where
  "key_scope k = (case k of (_, _, scope, _, _) \<Rightarrow> scope)"

datatype approval_trace = Approved grant_key | Used grant_key

text \<open>
  The histories of a session: the session, the requests published so far (a UUID is fresh when a
  request is published), and the trace. An approval works on a snapshot of any request published
  before, and the other operations and document changes may run in between.
\<close>

inductive approval_history ::
  "url_env \<Rightarrow> (string \<Rightarrow> string) \<Rightarrow> approval_session \<Rightarrow> PendingPolicyApproval set \<Rightarrow> approval_trace list \<Rightarrow> bool"
  for env sha where
  start: "se_approvals s = default_approvals \<Longrightarrow> approval_history env sha s {} []"
| document: "approval_history env sha s H tr \<Longrightarrow> approval_history env sha (s\<lparr>se_document := d\<rparr>) H tr"
| publish: "approval_history env sha s H tr \<Longrightarrow> uuid \<notin> pend_id ` H \<Longrightarrow>
    set_pending_policy_approval_for_document env sha uuid rd request doc s = (r, s') \<Longrightarrow>
    approval_history env sha s' (H \<union> {p. pas_pending (se_approvals s') = Some p}) tr"
| publish_navigation: "approval_history env sha s H tr \<Longrightarrow> uuid \<notin> pend_id ` H \<Longrightarrow>
    s' = s\<lparr>se_approvals := replace_pending uuid (se_approvals s) request NavigationCapability\<rparr> \<Longrightarrow>
    approval_history env sha s' (H \<union> {p. pas_pending (se_approvals s') = Some p}) tr"
| approve: "approval_history env sha s H tr \<Longrightarrow> pending \<in> H \<Longrightarrow>
    commit_pending_policy_approval env sha now_ms ts reason pending doc s = (r, s') \<Longrightarrow>
    approval_history env sha s' H
      (tr @ (case r of Inl _ \<Rightarrow> [] | Inr request \<Rightarrow> [Approved (request_key (pend_binding pending) request)]))"
| reject: "approval_history env sha s H tr \<Longrightarrow>
    reject_pending_policy_request_with_expected ts expected s = (r, s') \<Longrightarrow> approval_history env sha s' H tr"
| clear: "approval_history env sha s H tr \<Longrightarrow>
    approval_history env sha (s\<lparr>se_approvals := (se_approvals s)\<lparr>pas_pending := None\<rparr>\<rparr>) H tr"
| set_rules: "approval_history env sha s H tr \<Longrightarrow>
    approval_history env sha (s\<lparr>se_approvals := default_approvals\<rparr>) H tr"
| epoch: "approval_history env sha s H tr \<Longrightarrow>
    approval_history env sha (s\<lparr>se_navigation_epoch := se_navigation_epoch s + 1\<rparr>) H tr"
| expire: "approval_history env sha s H tr \<Longrightarrow>
    approval_history env sha (s\<lparr>se_approvals := expire_navigation_approvals (se_approvals s) initial required\<rparr>) H tr"
| consume: "approval_history env sha s H tr \<Longrightarrow>
    consume_granted_policy_approval env sha now_ms rd rule_id scope action sig doc s = (r, s') \<Longrightarrow>
    approval_history env sha s' H (tr @ (if r = Inr True then [Used (False, rule_id, scope, action, sig)] else []))"
| consume_navigation: "approval_history env sha s H tr \<Longrightarrow>
    consume_navigation_approval sha now_ms url rule_id scope sig s = (r, s') \<Longrightarrow>
    approval_history env sha s' H (tr @ (if r then [Used (True, rule_id, scope, ''navigate'', sig)] else []))"
| audit: "approval_history env sha s H tr \<Longrightarrow> approval_history env sha (log_audit ev s) H tr"

text \<open>The invariant: what is granted, what is used and what was approved.\<close>

definition grants_ok :: "GrantedPolicyApproval list \<Rightarrow> approval_trace list \<Rightarrow> bool" where
  "grants_ok granted tr \<longleftrightarrow>
     (\<forall>g\<in>set granted. Approved (grant_key g) \<in> set tr \<and>
        (ar_scope (gr_request g) = ActionOnly \<longrightarrow> gr_remaining_uses g = Some 1)) \<and>
     (\<forall>k. Used k \<in> set tr \<longrightarrow> Approved k \<in> set tr) \<and>
     (\<forall>k. key_scope k = ActionOnly \<longrightarrow>
        count_list (map grant_key granted) k + count_list tr (Used k) \<le> count_list tr (Approved k))"

definition history_ok :: "'a approval_session_scheme \<Rightarrow> PendingPolicyApproval set \<Rightarrow> approval_trace list \<Rightarrow> bool" where
  "history_ok s H tr \<longleftrightarrow>
     inj_on pend_id H \<and> (\<forall>p. pas_pending (se_approvals s) = Some p \<longrightarrow> p \<in> H) \<and>
     grants_ok (pas_granted (se_approvals s)) tr"

lemma grants_ok_empty: "grants_ok granted tr \<Longrightarrow> grants_ok [] tr"
  by (auto simp: grants_ok_def) (metis add_leD2)

lemma count_list_filter_le: "count_list (map f (filter p xs)) k \<le> count_list (map f xs) k"
  by (induction xs) auto

lemma grants_ok_countD:
  "grants_ok granted tr \<Longrightarrow> key_scope k = ActionOnly \<Longrightarrow>
     count_list (map grant_key granted) k + count_list tr (Used k) \<le> count_list tr (Approved k)"
  unfolding grants_ok_def by blast

lemma grants_okI:
  assumes "\<And>g. g \<in> set granted \<Longrightarrow> Approved (grant_key g) \<in> set tr"
    and "\<And>g. g \<in> set granted \<Longrightarrow> ar_scope (gr_request g) = ActionOnly \<Longrightarrow> gr_remaining_uses g = Some 1"
    and "\<And>k. Used k \<in> set tr \<Longrightarrow> Approved k \<in> set tr"
    and "\<And>k. key_scope k = ActionOnly \<Longrightarrow>
      count_list (map grant_key granted) k + count_list tr (Used k) \<le> count_list tr (Approved k)"
  shows "grants_ok granted tr"
  unfolding grants_ok_def using assms by blast

lemma grants_okD:
  assumes "grants_ok granted tr"
  shows "g \<in> set granted \<Longrightarrow> Approved (grant_key g) \<in> set tr"
    and "g \<in> set granted \<Longrightarrow> ar_scope (gr_request g) = ActionOnly \<Longrightarrow> gr_remaining_uses g = Some 1"
    and "Used k \<in> set tr \<Longrightarrow> Approved k \<in> set tr"
  using assms unfolding grants_ok_def by blast+

lemma grants_ok_filter: "grants_ok granted tr \<Longrightarrow> grants_ok (filter p granted) tr"
  by (rule grants_okI) (auto dest: grants_okD intro: order_trans [OF add_right_mono [OF count_list_filter_le] grants_ok_countD])

lemma remove_at_split: "i < length xs \<Longrightarrow> xs = take i xs @ xs ! i # drop (Suc i) xs"
  by (rule id_take_nth_drop)

lemma count_list_remove_at:
  "i < length xs \<Longrightarrow> count_list (map f xs) k =
     count_list (map f (remove_at i xs)) k + (if f (xs ! i) = k then 1 else 0)"
  by (subst remove_at_split [of i xs]) (simp_all add: remove_at_def)

lemma grants_ok_use:
  assumes "grants_ok granted tr" "i < length granted" "grant_key (granted ! i) = k"
  shows "key_scope k = ActionOnly \<Longrightarrow> grants_ok (remove_at i granted) (tr @ [Used k])"
    and "key_scope k \<noteq> ActionOnly \<Longrightarrow> grants_ok granted (tr @ [Used k])"
proof -
  have a: "Approved k \<in> set tr" using assms by (auto simp: grants_ok_def)
  show "grants_ok (remove_at i granted) (tr @ [Used k])" if "key_scope k = ActionOnly"
  proof (rule grants_okI)
    fix j assume j: "key_scope j = ActionOnly"
    show "count_list (map grant_key (remove_at i granted)) j + count_list (tr @ [Used k]) (Used j)
        \<le> count_list (tr @ [Used k]) (Approved j)"
      using grants_ok_countD [OF assms(1) j] count_list_remove_at [OF assms(2), of grant_key j] assms(3)
      by (auto split: if_splits)
  qed (use a grants_okD [OF assms(1)] set_remove_at [of i granted] in auto)
  show "grants_ok granted (tr @ [Used k])" if k: "key_scope k \<noteq> ActionOnly"
  proof (rule grants_okI)
    fix j assume j: "key_scope j = ActionOnly"
    then have "j \<noteq> k" using k by auto
    then show "count_list (map grant_key granted) j + count_list (tr @ [Used k]) (Used j)
        \<le> count_list (tr @ [Used k]) (Approved j)"
      using grants_ok_countD [OF assms(1) j] by simp
  qed (use a grants_okD [OF assms(1)] in auto)
qed

lemma grants_ok_approve:
  assumes "grants_ok granted tr" "ar_scope (gr_request g) = ActionOnly \<Longrightarrow> gr_remaining_uses g = Some 1"
  shows "grants_ok (granted @ [g]) (tr @ [Approved (grant_key g)])"
  using assms unfolding grants_ok_def by auto

lemma key_scope_grant [simp]: "key_scope (grant_key g) = ar_scope (gr_request g)"
  by (simp add: key_scope_def grant_key_def request_key_def)

lemma request_is_key:
  "request_is rule_id scope action sig (gr_request g) \<and> (gr_binding g = NavigationCapability) = nav \<longleftrightarrow>
     grant_key g = (nav, rule_id, scope, action, sig)"
  by (auto simp: request_is_def grant_key_def request_key_def)

lemma consume_granted_ok:
  assumes "consume_granted_policy_approval env sha now_ms rd rule_id scope action sig doc s = (r, s')"
    and "grants_ok (pas_granted (se_approvals s)) tr"
  shows "grants_ok (pas_granted (se_approvals s'))
      (tr @ (if r = Inr True then [Used (False, rule_id, scope, action, sig)] else []))"
    and "pas_pending (se_approvals s') = pas_pending (se_approvals s)"
proof -
  let ?k = "(False, rule_id, scope, action, sig)"
  let ?P = "\<lambda>grant. gr_binding grant \<noteq> NavigationCapability \<and>
      request_is rule_id scope action sig (gr_request grant)"
  have used: "grants_ok (if scope = ActionOnly then use_action_only i g else g) (tr @ [Used ?k])"
    if g: "grants_ok g tr" and i: "position ?P g = Some i" for g i
  proof -
    from position_Some [OF i] have i: "i < length g" and k: "grant_key (g ! i) = ?k"
      using request_is_key [of rule_id scope action sig "g ! i" False] by auto
    have sc: "ar_scope (gr_request (g ! i)) = scope" using k by (simp add: grant_key_def request_key_def)
    have "use_action_only i g = remove_at i g" if "scope = ActionOnly"
      using grants_okD(2) [OF g nth_mem [OF i]] sc that by (simp add: use_action_only_def)
    then show ?thesis using grants_ok_use [OF g i k] by (simp add: key_scope_def)
  qed
  show "grants_ok (pas_granted (se_approvals s')) (tr @ (if r = Inr True then [Used ?k] else []))"
  proof (cases "res_bind rd (\<lambda>current. res_bind (from_snapshot env sha doc) (\<lambda>reviewed.
      res_bind (from_snapshot env sha current) (\<lambda>current_binding.
      res_then (ensure (context_matches reviewed current_binding scope) DocumentChangedBeforeConsumption)
        (Inr (current, current_binding)))))")
    case (Inl e)
    then show ?thesis using assms by (auto simp: consume_granted_policy_approval_def)
  next
    case (Inr cb)
    obtain current binding where cb: "cb = (current, binding)" by force
    define g where "g = filter (\<lambda>grant. (case gr_binding grant of
        PageAction context \<Rightarrow> context_matches context binding (ar_scope (gr_request grant))
      | NavigationCapability \<Rightarrow> True) \<and>
      is_grant_valid sha grant (se_navigation_epoch s) (ds_url current) now_ms) (pas_granted (se_approvals s))"
    have g: "grants_ok g tr" unfolding g_def by (rule grants_ok_filter [OF assms(2)])
    note eq = assms(1) [unfolded consume_granted_policy_approval_def Inr cb sum.case prod.case Let_def, folded g_def]
    show ?thesis
    proof (cases "document_current s current")
      case True
      with eq g used [OF g] show ?thesis by (cases "position ?P g") auto
    qed (use eq assms(2) in auto)
  qed
  show "pas_pending (se_approvals s') = pas_pending (se_approvals s)"
    using assms(1) by (auto simp: consume_granted_policy_approval_def Let_def split: sum.splits if_splits option.splits)
qed

lemma consume_navigation_ok:
  assumes "consume_navigation_approval sha now_ms url rule_id scope sig s = (r, s')"
    and "grants_ok (pas_granted (se_approvals s)) tr"
  shows "grants_ok (pas_granted (se_approvals s'))
      (tr @ (if r then [Used (True, rule_id, scope, ''navigate'', sig)] else []))"
    and "pas_pending (se_approvals s') = pas_pending (se_approvals s)"
proof -
  let ?k = "(True, rule_id, scope, ''navigate'', sig)"
  let ?P = "\<lambda>grant. gr_binding grant = NavigationCapability \<and>
      request_is rule_id scope ''navigate'' sig (gr_request grant)"
  define g where "g = filter (\<lambda>grant. is_grant_valid sha grant (se_navigation_epoch s) url now_ms)
      (pas_granted (se_approvals s))"
  have g: "grants_ok g tr" unfolding g_def by (rule grants_ok_filter [OF assms(2)])
  note eq = assms(1) [unfolded consume_navigation_approval_def Let_def, folded g_def]
  show "grants_ok (pas_granted (se_approvals s')) (tr @ (if r then [Used ?k] else []))"
  proof (cases "position ?P g")
    case (Some i)
    from position_Some [OF Some] have i: "i < length g" and k: "grant_key (g ! i) = ?k"
      using request_is_key [of rule_id scope "''navigate''" sig "g ! i" True] by auto
    show ?thesis using eq Some grants_ok_use [OF g i k] by (auto simp: key_scope_def)
  qed (use eq g in auto)
  show "pas_pending (se_approvals s') = pas_pending (se_approvals s)"
    using eq by (auto split: option.splits)
qed

lemma commit_ok:
  assumes "commit_pending_policy_approval env sha now_ms ts reason pending document s = (r, s')"
    and "grants_ok (pas_granted (se_approvals s)) tr"
  shows "grants_ok (pas_granted (se_approvals s'))
      (tr @ (case r of Inl _ \<Rightarrow> [] | Inr request \<Rightarrow> [Approved (request_key (pend_binding pending) request)]))"
    and "pas_pending (se_approvals s') = None \<or> pas_pending (se_approvals s') = pas_pending (se_approvals s)"
proof -
  let ?g = "\<lambda>request. \<lparr>gr_request = request, gr_binding = pend_binding pending,
      gr_navigation_epoch = se_navigation_epoch s, gr_url_fingerprint = approval_url_fingerprint sha (ds_url document),
      gr_expires_at_epoch_ms = fst (grant_lifetime now_ms (ar_scope request)),
      gr_remaining_uses = snd (grant_lifetime now_ms (ar_scope request))\<rparr>"
  have k: "grant_key (?g request) = request_key (pend_binding pending) request" for request
    by (simp add: grant_key_def)
  have "grants_ok (pas_granted (se_approvals s) @ [?g request]) (tr @ [Approved (grant_key (?g request))])" for request
    by (rule grants_ok_approve [OF assms(2)]) (simp add: grant_lifetime_def)
  note new = this [unfolded k]
  show "grants_ok (pas_granted (se_approvals s'))
      (tr @ (case r of Inl _ \<Rightarrow> [] | Inr request \<Rightarrow> [Approved (request_key (pend_binding pending) request)]))"
    using assms new
    by (auto simp: commit_pending_policy_approval_def Let_def log_audit_def split: sum.splits if_splits)
  show "pas_pending (se_approvals s') = None \<or> pas_pending (se_approvals s') = pas_pending (se_approvals s)"
    using assms(1) by (auto simp: commit_pending_policy_approval_def Let_def log_audit_def split: sum.splits if_splits)
qed

lemma set_pending_cases:
  assumes "set_pending_policy_approval_for_document env sha uuid rd request doc s = (r, s')"
  shows "s' = s \<or> (\<exists>b. s' = s\<lparr>se_approvals := replace_pending uuid (se_approvals s) request b\<rparr>)"
  using assms unfolding set_pending_policy_approval_for_document_def by (auto split: sum.splits if_splits)

lemma history_ok_publish:
  assumes "history_ok s H tr" "uuid \<notin> pend_id ` H"
    and "s' = s \<or> (\<exists>b. s' = s\<lparr>se_approvals := replace_pending uuid (se_approvals s) request b\<rparr>)"
  shows "history_ok s' (H \<union> {p. pas_pending (se_approvals s') = Some p}) tr"
  using assms(3)
proof
  assume "s' = s"
  moreover have "H \<union> {p. pas_pending (se_approvals s) = Some p} = H" using assms(1) by (auto simp: history_ok_def)
  ultimately show ?thesis using assms(1) by simp
next
  assume "\<exists>b. s' = s\<lparr>se_approvals := replace_pending uuid (se_approvals s) request b\<rparr>"
  then show ?thesis using assms(1,2) by (auto simp: history_ok_def replace_pending_def)
qed

lemma history_invariant: "approval_history env sha s H tr \<Longrightarrow> history_ok s H tr"
proof (induction rule: approval_history.induct)
  case (start s)
  then show ?case by (simp add: history_ok_def default_approvals_def grants_ok_def)
next
  case (publish s H tr uuid rd request doc r s')
  show ?case by (rule history_ok_publish [OF publish.IH publish.hyps(2) set_pending_cases [OF publish.hyps(3)]])
next
  case (publish_navigation s H tr uuid s' request)
  show ?case by (rule history_ok_publish [OF publish_navigation.IH publish_navigation.hyps(2)]) (use publish_navigation.hyps(3) in blast)
next
  case (approve s H tr pending now_ms ts reason r s')
  then show ?case using commit_ok [OF approve.hyps(3)] by (fastforce simp: history_ok_def)
next
  case (reject s H tr ts expected r s')
  then show ?case
    by (auto simp: history_ok_def reject_pending_policy_request_with_expected_def log_audit_def
        split: if_splits option.splits)
next
  case (consume s H tr now_ms rd rule_id scope action sig doc r s')
  then show ?case using consume_granted_ok [OF consume.hyps(2)] by (auto simp: history_ok_def)
next
  case (consume_navigation s H tr now_ms url rule_id scope sig r s')
  then show ?case using consume_navigation_ok [OF consume_navigation.hyps(2)] by (auto simp: history_ok_def)
qed (auto simp: history_ok_def log_audit_def default_approvals_def expire_navigation_approvals_def
    intro: grants_ok_empty)

text \<open>
  C3: every use of an approval was approved, and a single-use approval is used once. In every
  history of a session, with any interleaving of requests, approvals by humans, rejections,
  navigations and policy changes, a key (page action or navigation, rule, scope, action, target)
  is used only after it was approved, and a key of scope \<open>ActionOnly\<close> is used at most as often as
  it was approved.
\<close>

theorem approvals_cover_uses:
  assumes "approval_history env sha s H tr"
  shows "(Used k \<in> set tr \<longrightarrow> Approved k \<in> set tr) \<and>
    (key_scope k = ActionOnly \<longrightarrow> count_list tr (Used k) \<le> count_list tr (Approved k))"
  using history_invariant [OF assms] grants_ok_countD [of "pas_granted (se_approvals s)" tr k]
  by (auto simp: history_ok_def dest: grants_okD)

text \<open>
  C4: a decision applies to the request that was reviewed. An approval that commits grants the
  request that is pending at the commit, with the binding it was published with, and no other: in
  every history, when the commit of a snapshot succeeds, the snapshot is the pending request; it
  is then the last grant, and nothing is pending.
\<close>

theorem approval_commits_the_pending_request:
  assumes "approval_history env sha s H tr" "pending \<in> H"
    and "commit_pending_policy_approval env sha now_ms ts reason pending document s = (Inr request, s')"
  shows "pas_pending (se_approvals s) = Some pending \<and> request = pend_request pending \<and>
    pas_pending (se_approvals s') = None \<and>
    (\<exists>g. pas_granted (se_approvals s') = pas_granted (se_approvals s) @ [g] \<and>
       gr_request g = request \<and> gr_binding g = pend_binding pending)"
proof -
  from assms(3) have c: "pending_id (se_approvals s) = Some (pend_id pending)" "request = pend_request pending"
    "pas_pending (se_approvals s') = None"
    "\<exists>g. pas_granted (se_approvals s') = pas_granted (se_approvals s) @ [g] \<and>
       gr_request g = request \<and> gr_binding g = pend_binding pending"
    by (auto simp: commit_pending_policy_approval_def Let_def log_audit_def split: sum.splits if_splits)
  then obtain p where p: "pas_pending (se_approvals s) = Some p" "pend_id p = pend_id pending"
    by (auto simp: pending_id_def)
  have "p = pending" using history_invariant [OF assms(1)] p assms(2) by (auto simp: history_ok_def inj_on_def)
  then show ?thesis using p c by simp
qed

subsection \<open>A session in which a purchase is approved and made\<close>

definition plain_urls :: url_env where
  "plain_urls = \<lparr>url_parse = Some, url_drop_fragment = (\<lambda>u. u)\<rparr>"

definition shop_page :: DocumentSnapshot where
  "shop_page = \<lparr>ds_frame_id = ''f'', ds_loader_id = ''l'', ds_url = ''https://shop/'', ds_revision = 1\<rparr>"

definition shop_session :: approval_session where
  "shop_session = \<lparr>se_document = shop_page, se_approvals = default_approvals, se_navigation_epoch = 0, se_audit = []\<rparr>"

definition shop_request :: PolicyApprovalRequest where
  "shop_request = \<lparr>ar_rule_id = ''pay'', ar_scope = ActionOnly, ar_action = ''click'',
     ar_target_signature = ''key'', ar_outcome = None\<rparr>"

definition shop_context :: PageApprovalContext where
  "shop_context = \<lparr>pac_revision = 1, pac_frame_id = ''f'', pac_loader_id = ''l'',
     pac_url_fingerprint = ''https://shop/'', pac_full_url_fingerprint = ''https://shop/''\<rparr>"

definition shop_pending :: PendingPolicyApproval where
  "shop_pending = \<lparr>pend_id = 7, pend_request = shop_request, pend_binding = PageAction shop_context\<rparr>"

lemmas shop_defs = shop_session_def shop_page_def shop_request_def shop_pending_def shop_context_def
  plain_urls_def default_approvals_def

definition shop_requested :: approval_session where
  "shop_requested = shop_session\<lparr>se_approvals := \<lparr>pas_pending = Some shop_pending, pas_granted = []\<rparr>\<rparr>"

lemma shop_publish:
  "set_pending_policy_approval_for_document plain_urls (\<lambda>s. s) 7 (Inr shop_page) shop_request shop_page shop_session
     = (Inr (), shop_requested)"
  by (simp add: set_pending_policy_approval_for_document_def shop_requested_def shop_defs from_snapshot_def
      context_matches_def same_document_def document_current_def replace_pending_def approval_url_fingerprint_def)

lemma shop_history_pending:
  "approval_history plain_urls (\<lambda>s. s) shop_requested {shop_pending} []"
proof -
  have "approval_history plain_urls (\<lambda>s. s) shop_requested
      ({} \<union> {p. pas_pending (se_approvals shop_requested) = Some p}) []"
    by (rule approval_history.publish [OF _ _ shop_publish])
      (auto intro!: approval_history.start simp: shop_session_def)
  then show ?thesis by (simp add: shop_requested_def)
qed

definition shop_grant :: GrantedPolicyApproval where
  "shop_grant = \<lparr>gr_request = shop_request, gr_binding = PageAction shop_context, gr_navigation_epoch = 0,
     gr_url_fingerprint = ''https://shop/'', gr_expires_at_epoch_ms = None, gr_remaining_uses = Some 1\<rparr>"

definition shop_approved :: approval_session where
  "shop_approved = log_audit (approved_event ''ok'' 5)
     (shop_session\<lparr>se_approvals := \<lparr>pas_pending = None, pas_granted = [shop_grant]\<rparr>\<rparr>)"

lemma shop_commit:
  "commit_pending_policy_approval plain_urls (\<lambda>s. s) 0 5 (\<lambda>_. ''ok'') shop_pending shop_page shop_requested
     = (Inr shop_request, shop_approved)"
  by (simp add: commit_pending_policy_approval_def shop_requested_def shop_approved_def shop_defs from_snapshot_def
      context_matches_def same_document_def document_current_def pending_id_def grant_lifetime_def shop_grant_def
      log_audit_def approval_url_fingerprint_def Let_def)

theorem approval_commits_the_pending_request_witness:
  "pas_pending (se_approvals shop_requested) = Some shop_pending \<and>
   (\<exists>g. pas_granted (se_approvals shop_approved) = pas_granted (se_approvals shop_requested) @ [g] \<and>
      gr_request g = shop_request)"
  using approval_commits_the_pending_request [OF shop_history_pending _ shop_commit] by auto

lemma shop_use:
  "fst (consume_granted_policy_approval plain_urls (\<lambda>s. s) 9 (Inr shop_page) ''pay'' ActionOnly ''click'' ''key'' shop_page shop_approved)
     = Inr True"
  by (simp add: consume_granted_policy_approval_def shop_approved_def shop_grant_def shop_defs from_snapshot_def
      context_matches_def same_document_def document_current_def log_audit_def approval_url_fingerprint_def
      is_grant_valid_def request_is_def Let_def)

theorem approvals_cover_uses_witness:
  "\<exists>s tr. approval_history plain_urls (\<lambda>s. s) s {shop_pending} tr \<and>
     Used (False, ''pay'', ActionOnly, ''click'', ''key'') \<in> set tr \<and>
     Approved (False, ''pay'', ActionOnly, ''click'', ''key'') \<in> set tr"
proof -
  let ?k = "(False, ''pay'', ActionOnly, ''click'', ''key'')"
  obtain s' where s': "consume_granted_policy_approval plain_urls (\<lambda>s. s) 9 (Inr shop_page) ''pay'' ActionOnly
      ''click'' ''key'' shop_page shop_approved = (Inr True, s')"
    using shop_use by (cases "consume_granted_policy_approval plain_urls (\<lambda>s. s) 9 (Inr shop_page) ''pay'' ActionOnly
      ''click'' ''key'' shop_page shop_approved") simp
  have "approval_history plain_urls (\<lambda>s. s) shop_approved {shop_pending} [Approved ?k]"
    using approval_history.approve [OF shop_history_pending _ shop_commit]
    by (simp add: shop_pending_def shop_request_def request_key_def)
  from approval_history.consume [OF this s']
  have h: "approval_history plain_urls (\<lambda>s. s) s' {shop_pending} [Approved ?k, Used ?k]" by simp
  from approvals_cover_uses [OF h, of ?k] h show ?thesis by force
qed

end
