(* ===== verification/Plugin_Hooks.thy ===== *)
theory Plugin_Hooks
  imports Audit_Trail
begin

text \<open>
  Plugin hooks, \<open>core-runtime/src/plugin_hooks.rs\<close>, and their use on captured states
  (\<open>apply_state_hooks\<close> of \<open>browser/capture.rs\<close>). A plugin is its id and its function, which may
  fail; the JSON parser is a parameter.
\<close>

record StatePlugin =
  sp_plugin_id :: string
  sp_on_state :: "string \<Rightarrow> string + string"

record PolicyPlugin =
  pp_plugin_id :: string
  pp_before_act :: "string \<Rightarrow> string + string"

record PluginHookConfig =
  state_plugins :: "StatePlugin list"
  policy_plugins :: "PolicyPlugin list"

datatype PolicyHookOutcome = HookAllow | HookBlock string "string option"

section \<open>State hooks\<close>

fun run_state_hooks_from ::
  "u64 \<Rightarrow> string \<Rightarrow> AuditEvent list \<Rightarrow> StatePlugin list \<Rightarrow> string \<times> AuditEvent list" where
  "run_state_hooks_from timestamp current events [] = (current, events)"
| "run_state_hooks_from timestamp current events (plugin # plugins) =
     (case sp_on_state plugin current of
        Inr transformed \<Rightarrow>
          run_state_hooks_from timestamp transformed
            (events @ [PluginStateTransform (sp_plugin_id plugin) True None timestamp]) plugins
      | Inl err \<Rightarrow>
          run_state_hooks_from timestamp current
            (events @ [PluginStateTransform (sp_plugin_id plugin) False (Some err) timestamp]) plugins)"

definition run_state_hooks :: "u64 \<Rightarrow> string \<Rightarrow> StatePlugin list \<Rightarrow> string \<times> AuditEvent list" where
  "run_state_hooks timestamp initial_state_json plugins =
     run_state_hooks_from timestamp initial_state_json [] plugins"

section \<open>Policy hooks\<close>

definition parse_policy_response :: "(string \<Rightarrow> string + Json) \<Rightarrow> string \<Rightarrow> bool \<times> string option" where
  "parse_policy_response from_str json =
     (case from_str json of
        Inl _ \<Rightarrow> (False, Some (''failed to parse policy plugin response: '' @ json))
      | Inr value \<Rightarrow>
          (case Option.bind (json_get ''allow'' value) as_bool of None \<Rightarrow> False | Some b \<Rightarrow> b,
           Option.bind (json_get ''reason'' value) as_str))"

definition plugin_verdict :: "(string \<Rightarrow> string + Json) \<Rightarrow> string \<Rightarrow> PolicyPlugin \<Rightarrow> bool \<times> string option" where
  "plugin_verdict from_str intent_json plugin =
     (case pp_before_act plugin intent_json of
        Inr response_json \<Rightarrow> parse_policy_response from_str response_json
      | Inl err \<Rightarrow> (False, Some (''plugin execution failed: '' @ err)))"

fun run_policy_hooks_from ::
  "(string \<Rightarrow> string + Json) \<Rightarrow> u64 \<Rightarrow> string \<Rightarrow> AuditEvent list \<Rightarrow> PolicyPlugin list \<Rightarrow> PolicyHookOutcome \<times> AuditEvent list" where
  "run_policy_hooks_from from_str timestamp intent_json events [] = (HookAllow, events)"
| "run_policy_hooks_from from_str timestamp intent_json events (plugin # plugins) =
     (case plugin_verdict from_str intent_json plugin of (allowed, reason) \<Rightarrow>
        (let events' = events @ [PluginPolicyDecision (pp_plugin_id plugin) allowed reason timestamp]
         in if \<not> allowed then (HookBlock (pp_plugin_id plugin) reason, events')
            else run_policy_hooks_from from_str timestamp intent_json events' plugins))"

definition run_policy_hooks ::
  "(string \<Rightarrow> string + Json) \<Rightarrow> u64 \<Rightarrow> string \<Rightarrow> PolicyPlugin list \<Rightarrow> PolicyHookOutcome \<times> AuditEvent list" where
  "run_policy_hooks from_str timestamp intent_json plugins =
     run_policy_hooks_from from_str timestamp intent_json [] plugins"

section \<open>State hooks on a captured state\<close>

text \<open>
  The serialization of the root (\<open>to_string\<close>) and its inverse (\<open>from_str_node\<close>) are \<open>serde_json\<close>; a
  transformed root becomes a new state with a fresh id and time.
\<close>

definition apply_state_hooks ::
  "(SemanticNode \<Rightarrow> string + string) \<Rightarrow> (string \<Rightarrow> string + SemanticNode) \<Rightarrow> (string \<Rightarrow> string) \<Rightarrow> string \<Rightarrow> u64 \<Rightarrow> u64 \<Rightarrow>
   StatePlugin list \<Rightarrow> SemanticState \<Rightarrow> SemanticState \<times> AuditEvent list" where
  "apply_state_hooks node_to_string from_str_node sha uuid now now_ms plugins state =
     (if plugins = [] then (state, [])
      else case node_to_string (ss_root state) of
             Inl _ \<Rightarrow> (state, [])
           | Inr state_json \<Rightarrow>
               (case run_state_hooks now_ms state_json plugins of (transformed_json, events) \<Rightarrow>
                  if transformed_json = state_json then (state, events)
                  else case from_str_node transformed_json of
                         Inr new_root \<Rightarrow> (new_state sha uuid now new_root (ss_load_profile state), events)
                       | Inl _ \<Rightarrow> (state, events)))"

section \<open>Correctness\<close>

lemma run_state_hooks_from_append:
  "run_state_hooks_from ts current events plugins =
     (foldl (\<lambda>c p. case sp_on_state p c of Inr t \<Rightarrow> t | Inl _ \<Rightarrow> c) current plugins,
      events @ snd (run_state_hooks_from ts current [] plugins))"
proof (induction plugins arbitrary: current events)
  case (Cons p plugins)
  show ?case
    by (cases "sp_on_state p current") (simp_all, (subst Cons.IH, subst (2) Cons.IH, simp)+)
qed simp

definition state_ok :: "StatePlugin \<Rightarrow> bool" where
  "state_ok p \<longleftrightarrow> (\<forall>s. \<exists>t. sp_on_state p s = Inr t)"

text \<open>
  A failing state plugin changes nothing but the log. The result of the hooks is the result
  of the plugins that succeed, as if the failing ones were not installed, and there is one event
  per plugin, in order.
\<close>

theorem run_state_hooks_skips_failures:
  assumes "\<forall>p\<in>set plugins. state_ok p \<or> (\<forall>s. \<exists>e. sp_on_state p s = Inl e)"
  shows "fst (run_state_hooks ts json plugins) = fst (run_state_hooks ts json (filter state_ok plugins)) \<and>
    map (\<lambda>e. case e of PluginStateTransform i _ _ _ \<Rightarrow> i | _ \<Rightarrow> []) (snd (run_state_hooks ts json plugins)) =
      map sp_plugin_id plugins"
proof -
  let ?step = "\<lambda>c p. case sp_on_state p c of Inr t \<Rightarrow> t | Inl _ \<Rightarrow> c"
  have f: "fst (run_state_hooks ts json ps) = foldl ?step json ps" for ps
    unfolding run_state_hooks_def by (subst run_state_hooks_from_append) simp
  have "foldl ?step json plugins = foldl ?step json (filter state_ok plugins)"
    using assms
  proof (induction plugins arbitrary: json)
    case (Cons p plugins)
    have "?step json p = json" if "\<not> state_ok p"
    proof -
      have "\<exists>e. sp_on_state p json = Inl e" using Cons.prems that by simp
      then show ?thesis by auto
    qed
    then show ?case using Cons by simp
  qed simp
  then have "fst (run_state_hooks ts json plugins) = fst (run_state_hooks ts json (filter state_ok plugins))"
    by (simp only: f)
  moreover have "map (\<lambda>e. case e of PluginStateTransform i _ _ _ \<Rightarrow> i | _ \<Rightarrow> [])
      (snd (run_state_hooks_from ts json [] plugins)) = map sp_plugin_id plugins"
  proof (induction plugins arbitrary: json)
    case (Cons p plugins)
    then show ?case
      by (cases "sp_on_state p json") (simp_all add: run_state_hooks_from_append [where events = "[_]"])
  qed simp
  ultimately show ?thesis by (simp add: run_state_hooks_def)
qed

definition failing_plugin :: StatePlugin where
  "failing_plugin = \<lparr>sp_plugin_id = ''bad'', sp_on_state = (\<lambda>_. Inl ''trap'')\<rparr>"

definition tagging_plugin :: StatePlugin where
  "tagging_plugin = \<lparr>sp_plugin_id = ''tag'', sp_on_state = (\<lambda>s. Inr (s @ ''!''))\<rparr>"

theorem run_state_hooks_skips_failures_witness:
  "fst (run_state_hooks 0 ''s'' [failing_plugin, tagging_plugin]) = ''s!''"
proof -
  have h: "\<forall>p\<in>set [failing_plugin, tagging_plugin]. state_ok p \<or> (\<forall>s. \<exists>e. sp_on_state p s = Inl e)"
    by (simp add: failing_plugin_def tagging_plugin_def state_ok_def)
  have f: "filter state_ok [failing_plugin, tagging_plugin] = [tagging_plugin]"
    by (simp add: failing_plugin_def tagging_plugin_def state_ok_def)
  from run_state_hooks_skips_failures [OF h, of 0 "''s''", unfolded f] show ?thesis
    by (simp add: run_state_hooks_def tagging_plugin_def)
qed

lemma run_policy_hooks_from_split:
  "run_policy_hooks_from fs ts intent events plugins =
     (case dropWhile (\<lambda>p. fst (plugin_verdict fs intent p)) plugins of
        [] \<Rightarrow> (HookAllow, events @ map (\<lambda>p. PluginPolicyDecision (pp_plugin_id p) True (snd (plugin_verdict fs intent p)) ts) plugins)
      | p # _ \<Rightarrow> (HookBlock (pp_plugin_id p) (snd (plugin_verdict fs intent p)),
          events @ map (\<lambda>p. PluginPolicyDecision (pp_plugin_id p) True (snd (plugin_verdict fs intent p)) ts)
                     (takeWhile (\<lambda>p. fst (plugin_verdict fs intent p)) plugins)
                 @ [PluginPolicyDecision (pp_plugin_id p) False (snd (plugin_verdict fs intent p)) ts]))"
proof (induction plugins arbitrary: events)
  case (Cons p plugins)
  show ?case
    by (cases "plugin_verdict fs intent p"; cases "fst (plugin_verdict fs intent p)";
        cases "dropWhile (\<lambda>p. fst (plugin_verdict fs intent p)) plugins")
      (simp_all add: Let_def Cons.IH del: dropWhile_eq_Nil_conv)
qed simp

lemma run_policy_hooks_allow_iff:
  "fst (run_policy_hooks fs ts intent plugins) = HookAllow \<longleftrightarrow> (\<forall>p\<in>set plugins. fst (plugin_verdict fs intent p))"
  by (auto simp: run_policy_hooks_def run_policy_hooks_from_split split: list.splits)
    (metis dropWhile_eq_Nil_conv list.distinct(1))

text \<open>
  C14: policy hooks fail closed. The action is allowed exactly when every plugin runs and answers
  with JSON whose \<open>allow\<close> member is the boolean true; otherwise the first plugin that does not is
  named in the block, no later plugin is asked, and each plugin asked has one event, the last one
  recording the refusal.
\<close>

theorem run_policy_hooks_fail_closed:
  "(fst (run_policy_hooks fs ts intent plugins) = HookAllow \<longleftrightarrow>
     (\<forall>p\<in>set plugins. \<exists>resp v. pp_before_act p intent = Inr resp \<and> fs resp = Inr v \<and>
        json_get ''allow'' v = Some (JBool True))) \<and>
   (\<forall>i r. fst (run_policy_hooks fs ts intent plugins) = HookBlock i r \<longrightarrow>
     (\<exists>pre p post. plugins = pre @ p # post \<and> pp_plugin_id p = i \<and> \<not> fst (plugin_verdict fs intent p) \<and>
        (\<forall>q\<in>set pre. fst (plugin_verdict fs intent q)) \<and>
        length (snd (run_policy_hooks fs ts intent plugins)) = length pre + 1 \<and>
        last (snd (run_policy_hooks fs ts intent plugins)) = PluginPolicyDecision i False r ts))"
proof -
  let ?ok = "\<lambda>p. fst (plugin_verdict fs intent p)"
  have ok: "?ok p \<longleftrightarrow> (\<exists>resp v. pp_before_act p intent = Inr resp \<and> fs resp = Inr v \<and>
      json_get ''allow'' v = Some (JBool True))" for p
  proof -
    have "(case Option.bind j as_bool of None \<Rightarrow> False | Some b \<Rightarrow> b) \<longleftrightarrow> j = Some (JBool True)" for j
      by (cases j) (auto simp: as_bool_def split: Json.splits)
    then show ?thesis by (auto simp: plugin_verdict_def parse_policy_response_def split: sum.splits)
  qed
  show ?thesis
  proof (cases "dropWhile ?ok plugins")
    case Nil
    then have "\<forall>p\<in>set plugins. ?ok p" by (simp add: dropWhile_eq_Nil_conv)
    moreover have "fst (run_policy_hooks fs ts intent plugins) = HookAllow"
      by (simp add: run_policy_hooks_def run_policy_hooks_from_split Nil)
    ultimately show ?thesis by (simp add: ok)
  next
    case (Cons p post)
    have split: "plugins = takeWhile ?ok plugins @ p # post"
      by (metis Cons takeWhile_dropWhile_id)
    have p: "\<not> ?ok p" using Cons by (metis dropWhile_eq_Cons_conv)
    have run: "run_policy_hooks fs ts intent plugins =
        (HookBlock (pp_plugin_id p) (snd (plugin_verdict fs intent p)),
         map (\<lambda>p. PluginPolicyDecision (pp_plugin_id p) True (snd (plugin_verdict fs intent p)) ts) (takeWhile ?ok plugins)
           @ [PluginPolicyDecision (pp_plugin_id p) False (snd (plugin_verdict fs intent p)) ts])"
      by (simp add: run_policy_hooks_def run_policy_hooks_from_split Cons)
    have "p \<in> set plugins" using split by (metis in_set_conv_decomp)
    then have "\<not> (\<forall>p\<in>set plugins. ?ok p)" using p by blast
    then have n: "\<not> (\<forall>p\<in>set plugins. \<exists>resp v. pp_before_act p intent = Inr resp \<and> fs resp = Inr v \<and>
        json_get ''allow'' v = Some (JBool True))" by (simp only: ok not_False_eq_True)
    have "\<forall>q\<in>set (takeWhile ?ok plugins). ?ok q" by (auto dest: set_takeWhileD)
    then have "\<exists>pre q rest. plugins = pre @ q # rest \<and> pp_plugin_id q = pp_plugin_id p \<and> \<not> ?ok q \<and>
        (\<forall>q\<in>set pre. ?ok q) \<and> length (takeWhile ?ok plugins) = length pre"
      using split p by blast
    then show ?thesis using n by (simp only: run fst_conv snd_conv) auto
  qed
qed

definition answering :: "string \<Rightarrow> string \<Rightarrow> PolicyPlugin" where
  "answering i response = \<lparr>pp_plugin_id = i, pp_before_act = (\<lambda>_. Inr response)\<rparr>"

definition yes_no_parser :: "string \<Rightarrow> string + Json" where
  "yes_no_parser s = (if s = ''yes'' then Inr (JObject [(''allow'', JBool True)])
     else if s = ''no'' then Inr (JObject [(''allow'', JBool False)]) else Inl ''bad'')"

theorem run_policy_hooks_fail_closed_witness:
  "fst (run_policy_hooks yes_no_parser 0 ''{}'' [answering ''a'' ''yes'']) = HookAllow \<and>
   fst (run_policy_hooks yes_no_parser 0 ''{}'' [answering ''a'' ''yes'', answering ''b'' ''?'', answering ''c'' ''no'']) \<noteq> HookAllow"
  using run_policy_hooks_fail_closed [of yes_no_parser 0 "''{}''" "[answering ''a'' ''yes'']"]
    run_policy_hooks_fail_closed [of yes_no_parser 0 "''{}''" "[answering ''a'' ''yes'', answering ''b'' ''?'', answering ''c'' ''no'']"]
  by (simp add: answering_def yes_no_parser_def json_get_def)

end
