(* ===== verification/Dom_Signature.thy ===== *)
theory Dom_Signature
  imports Sem_Tree Rust_Float
begin

text \<open>
  Self-healing recovery, \<open>core-runtime/src/dom_signature.rs\<close>: the signature of a node an action
  succeeded on, its similarity to the live nodes, and the cache that looks for the one best match.
  The lock of the cache is taken as never poisoned.
\<close>

section \<open>Signatures and scores\<close>

record NodeSignature =
  sig_role :: string
  sig_label :: "string option"
  sig_alias :: "string option"
  sig_attributes :: "(string \<times> string) list" \<comment> \<open>a BTreeMap: ascending keys\<close>

definition IDENTITY_ATTRS :: "string list" where
  "IDENTITY_ATTRS = [''type'', ''name'', ''id'', ''placeholder'', ''aria-label'']"

definition from_node :: "SemanticNode \<Rightarrow> NodeSignature" where
  "from_node node =
     \<lparr>sig_role = sn_role node, sig_label = sn_label node, sig_alias = sn_alias node,
      sig_attributes = (case sn_attributes node of None \<Rightarrow> []
        | Some a \<Rightarrow> filter (\<lambda>(k, v). k \<in> set IDENTITY_ATTRS) a)\<rparr>"

text \<open>\<open>(i as f32 / u as f32) * 30.0\<close> truncated: every operation rounds to 24 bits.\<close>

definition thirtieths :: "int \<Rightarrow> int \<Rightarrow> int" where
  "thirtieths i u =
     (case fl_ratio 24 i 1 of (a, b) \<Rightarrow> case fl_ratio 24 u 1 of (c, d) \<Rightarrow>
      case fl_ratio 24 (a * d) (b * c) of (n, m) \<Rightarrow> case fl_ratio 24 (n * 30) m of (p, q) \<Rightarrow> p div q)"

definition label_similarity :: "string option \<Rightarrow> string option \<Rightarrow> int" where
  "label_similarity x y =
     (case (x, y) of
        (Some a, Some b) \<Rightarrow>
          if a = b then 30
          else
            (let words_a = remdups (split_whitespace a); words_b = remdups (split_whitespace b)
             in if words_a = [] \<and> words_b = [] then 0
                else
                  (let intersection = length (filter (\<lambda>w. w \<in> set words_b) words_a);
                       union = length (remdups (words_a @ words_b))
                   in if union = 0 then 0 else thirtieths (int intersection) (int union)))
      | _ \<Rightarrow> 0)"

definition alias_points :: "string option \<Rightarrow> string option \<Rightarrow> int" where
  "alias_points x y = (case (x, y) of (Some a, Some b) \<Rightarrow> if a = b then 20 else 0 | _ \<Rightarrow> 0)"

definition attribute_points :: "(string \<times> string) list \<Rightarrow> (string \<times> string) list option \<Rightarrow> int" where
  "attribute_points attributes candidate =
     (case candidate of None \<Rightarrow> 0
      | Some candidate_attrs \<Rightarrow>
          min (int (length (filter (\<lambda>(k, v). map_of candidate_attrs k = Some v) attributes))) 3 * 10)"

definition score_against :: "NodeSignature \<Rightarrow> SemanticNode \<Rightarrow> int" where
  "score_against sig candidate =
     min ((if sig_role sig = sn_role candidate then 35 else 0)
          + label_similarity (sig_label sig) (sn_label candidate)
          + alias_points (sig_alias sig) (sn_alias candidate)
          + attribute_points (sig_attributes sig) (sn_attributes candidate)) 100"

definition RECOVERY_THRESHOLD :: int where
  "RECOVERY_THRESHOLD = 45"

section \<open>The cache\<close>

type_synonym DOMSignatureCache = "string \<rightharpoonup> NodeSignature"

definition record_signature :: "DOMSignatureCache \<Rightarrow> string \<Rightarrow> SemanticNode \<Rightarrow> DOMSignatureCache" where
  "record_signature entries stable_key node = entries(stable_key \<mapsto> from_node node)"

definition find_best_match :: "DOMSignatureCache \<Rightarrow> string \<Rightarrow> SemanticNode list \<Rightarrow> SemanticNode option" where
  "find_best_match entries stable_key nodes =
     (case entries stable_key of
        None \<Rightarrow> None
      | Some sig \<Rightarrow>
          (let scored = sort_key (\<lambda>(n, s). - s)
                 (filter (\<lambda>(n, s). RECOVERY_THRESHOLD \<le> s) (map (\<lambda>n. (n, score_against sig n)) nodes))
           in case scored of
                [] \<Rightarrow> None
              | (best, best_score) # _ \<Rightarrow>
                  if 1 < length (filter (\<lambda>(n, s). s = best_score) scored) then None else Some best))"

subsection \<open>Bounds of the scores\<close>

lemma round_ratio_le: "n \<le> c * d \<Longrightarrow> 0 < d \<Longrightarrow> round_ratio n d \<le> c"
proof -
  assume "n \<le> c * d" "0 < d"
  then have q: "n div d \<le> c" by (metis nonzero_mult_div_cancel_right mult.commute less_irrefl zdiv_mono1)
  show "round_ratio n d \<le> c"
  proof (cases "n div d = c")
    case True
    then have "c * d + n mod d = n" using div_mult_mod_eq [of n d] by simp
    with \<open>n \<le> c * d\<close> pos_mod_sign [of d n] \<open>0 < d\<close> have "n mod d = 0" by linarith
    then show ?thesis using True \<open>0 < d\<close> by (simp add: round_ratio_def Let_def)
  next
    case False
    then show ?thesis using q by (auto simp: round_ratio_def Let_def)
  qed
qed

lemma round_ratio_nonneg: "0 \<le> n \<Longrightarrow> 0 < d \<Longrightarrow> 0 \<le> round_ratio n d"
  using pos_imp_zdiv_nonneg_iff [of d n] by (auto simp: round_ratio_def Let_def)

lemma scale_pos: "0 < d \<Longrightarrow> 0 < scale k d"
  by (simp add: scale_def)

lemma fl_ratio_denom_pos: "0 < d \<Longrightarrow> 0 < snd (fl_ratio p n d)"
  by (simp add: fl_ratio_def Let_def scale_pos)

lemma fl_ratio_num_nonneg: "0 \<le> n \<Longrightarrow> 0 < d \<Longrightarrow> 0 \<le> fst (fl_ratio p n d)"
  by (auto simp: fl_ratio_def Let_def round_scaled_def scale_def intro!: round_ratio_nonneg mult_nonneg_nonneg)

lemma ilog2_mono: "m \<le> n \<Longrightarrow> ilog2 m \<le> ilog2 n"
proof (induction n arbitrary: m rule: ilog2.induct)
  case (1 n)
  have z: "0 \<le> ilog2 k" for k by (induction k rule: ilog2.induct) (subst ilog2.simps, auto)
  show ?case
  proof (cases "m < 2")
    case True
    then show ?thesis using z [of n] by (simp add: ilog2.simps [of m])
  next
    case False
    then show ?thesis using 1 by (simp add: ilog2.simps [of m] ilog2.simps [of n] zdiv_mono1)
  qed
qed

lemma ilog2_double: "0 < k \<Longrightarrow> ilog2 (k * 2) = 1 + ilog2 k"
  by (subst ilog2.simps) simp

lemma ilog2_mult32: "0 < d \<Longrightarrow> ilog2 (32 * d) = 5 + ilog2 d"
  using ilog2_double [of d] ilog2_double [of "d * 2"] ilog2_double [of "d * 4"]
    ilog2_double [of "d * 8"] ilog2_double [of "d * 16"]
  by (simp add: mult.assoc mult.commute)

text \<open>Rounding to \<open>p\<close> bits keeps a quotient below a bound \<open>c \<le> 32\<close>.\<close>

lemma fl_ratio_le:
  assumes "0 \<le> n" "0 < d" "n \<le> c * d" "0 \<le> c" "c \<le> 32" "6 \<le> p"
  shows "fst (fl_ratio p n d) \<le> c * snd (fl_ratio p n d)"
proof (cases "n = 0")
  case False
  have "c * d \<le> 32 * d" using assms(2,5) by (intro mult_right_mono) simp_all
  then have "n \<le> 32 * d" using assms(3) by simp
  then have "ilog2 n \<le> 5 + ilog2 d" using ilog2_mono ilog2_mult32 [OF assms(2)] by metis
  then have k: "0 \<le> p - 1 - ratio_exp n d" using assms(6) by (simp add: ratio_exp_def Let_def)
  let ?k = "p - 1 - ratio_exp n d"
  have "n * 2 ^ nat ?k \<le> (c * 2 ^ nat ?k) * d"
    using mult_right_mono [OF assms(3), of "2 ^ nat ?k"] by (simp add: ac_simps)
  then have "round_ratio (n * 2 ^ nat ?k) d \<le> c * 2 ^ nat ?k" by (rule round_ratio_le) (rule assms(2))
  then show ?thesis using False k by (simp add: fl_ratio_def Let_def round_scaled_def scale_def)
qed (use assms in \<open>simp add: fl_ratio_def\<close>)

lemma round_ratio_exact: "0 < d \<Longrightarrow> round_ratio (n * d) d = n"
  by (simp add: round_ratio_def Let_def)

lemma fl_ratio_int_exact:
  assumes "0 < n" "n < 2 ^ 24"
  shows "fst (fl_ratio 24 n 1) = n * snd (fl_ratio 24 n 1)"
proof -
  have "ilog2 n \<le> ilog2 (2 ^ 24 - 1)" using assms(2) by (intro ilog2_mono) simp
  also have "ilog2 (2 ^ 24 - 1) = 23" by code_simp
  finally have "ratio_exp n 1 \<le> 23" by (simp add: ratio_exp_def Let_def ilog2.simps [of 1])
  then show ?thesis using assms(1) round_ratio_exact [of 1]
    by (simp add: fl_ratio_def Let_def round_scaled_def scale_def)
qed

lemma thirtieths_bounds:
  assumes "0 \<le> i" "i \<le> u" "0 < u" "u < 2 ^ 24"
  shows "thirtieths i u \<le> 30" "0 \<le> thirtieths i u"
proof -
  obtain a b where ab: "fl_ratio 24 i 1 = (a, b)" by force
  obtain c d where cd: "fl_ratio 24 u 1 = (c, d)" by force
  obtain n m where nm: "fl_ratio 24 (a * d) (b * c) = (n, m)" by force
  obtain p q where pq: "fl_ratio 24 (n * 30) m = (p, q)" by force
  have t: "thirtieths i u = p div q" by (simp add: thirtieths_def ab cd nm pq)
  have pos: "0 < b" "0 < d" using fl_ratio_denom_pos [of 1 24 i] fl_ratio_denom_pos [of 1 24 u] ab cd by simp_all
  have c: "c = u * d" using fl_ratio_int_exact [OF assms(3,4)] cd by simp
  have a: "a = i * b"
    using fl_ratio_int_exact [of i] assms ab by (cases "i = 0") (auto simp: fl_ratio_def)
  have bc: "0 < b * c" "0 \<le> a * d" "a * d \<le> 1 * (b * c)"
    using pos assms(1-3) by (simp_all add: a c mult.commute mult.left_commute)
  have nm1: "0 < m" "0 \<le> n" "n \<le> 1 * m"
    using fl_ratio_denom_pos [OF bc(1), of 24 "a * d"] fl_ratio_num_nonneg [OF bc(2,1), of 24]
      fl_ratio_le [OF bc(2,1,3), of 24] nm by simp_all
  then have "n * 30 \<le> 30 * m" "0 \<le> n * 30" by simp_all
  from fl_ratio_le [OF this(2) nm1(1) this(1), of 24] fl_ratio_denom_pos [OF nm1(1), of 24 "n * 30"]
    fl_ratio_num_nonneg [OF this(2) nm1(1), of 24] pq
  have "p \<le> 30 * q" "0 < q" "0 \<le> p" by simp_all
  then show "thirtieths i u \<le> 30" "0 \<le> thirtieths i u"
    using zdiv_mono1 [of p "30 * q" q] by (simp_all add: t pos_imp_zdiv_nonneg_iff)
qed

lemma label_similarity_bounds:
  assumes "\<And>l. x = Some l \<Longrightarrow> int (length (split_whitespace l)) < 2 ^ 23"
    and "\<And>l. y = Some l \<Longrightarrow> int (length (split_whitespace l)) < 2 ^ 23"
  shows "label_similarity x y \<le> 30"
proof (cases "\<exists>a b. x = Some a \<and> y = Some b \<and> a \<noteq> b")
  case True
  then obtain a b where ab: "x = Some a" "y = Some b" "a \<noteq> b" by blast
  define wa where "wa = remdups (split_whitespace a)"
  define wb where "wb = remdups (split_whitespace b)"
  let ?i = "length (filter (\<lambda>w. w \<in> set wb) wa)" and ?u = "length (remdups (wa @ wb))"
  have l: "length wa \<le> length (split_whitespace a)" "length wb \<le> length (split_whitespace b)"
    by (simp_all add: wa_def wb_def length_remdups_leq)
  have "?u \<le> length wa + length wb" using length_remdups_leq [of "wa @ wb"] by simp
  then have u: "int ?u < 2 ^ 24" using l assms(1) [OF ab(1)] assms(2) [OF ab(2)] by simp
  have "?i = card (set (filter (\<lambda>w. w \<in> set wb) wa))"
    by (rule distinct_card [symmetric]) (simp add: wa_def)
  also have "\<dots> \<le> card (set (wa @ wb))" by (intro card_mono) auto
  also have "\<dots> = ?u" by (simp only: length_remdups_card_conv)
  finally have i: "int ?i \<le> int ?u" by simp
  have "label_similarity x y = (if wa = [] \<and> wb = [] then 0 else if ?u = 0 then 0 else thirtieths (int ?i) (int ?u))"
    using ab by (simp add: label_similarity_def wa_def wb_def Let_def)
  then show ?thesis using thirtieths_bounds(1) [OF _ i _ u] by (auto split: if_splits)
qed (auto simp: label_similarity_def split: option.splits)

section \<open>What recovery accepts\<close>

lemma filter_length_one:
  "length (filter p xs) = 1 \<longleftrightarrow> (\<exists>pre x post. xs = pre @ x # post \<and> p x \<and> (\<forall>y\<in>set pre \<union> set post. \<not> p y))"
proof
  assume "length (filter p xs) = 1"
  then obtain x where "filter p xs = [x]" by (auto simp: length_Suc_conv)
  then obtain us vs where "xs = us @ x # vs" "\<forall>u\<in>set us. \<not> p u" "p x" "filter p vs = []"
    by (auto simp: filter_eq_Cons_iff)
  then show "\<exists>pre x post. xs = pre @ x # post \<and> p x \<and> (\<forall>y\<in>set pre \<union> set post. \<not> p y)"
    by (intro exI [of _ us] exI [of _ x] exI [of _ vs]) (auto simp: filter_empty_conv)
qed (auto simp: filter_empty_conv)

text \<open>The winner of a non-empty scored list: the greatest score, if it occurs once.\<close>

lemma sort_key_hd:
  assumes "sort_key f xs = x # xs'"
  shows "x \<in> set xs" "\<forall>y\<in>set xs. f x \<le> f y"
proof -
  have "set (sort_key f xs) = set (x # xs')" by (simp only: assms)
  then have s: "set xs = insert x (set xs')" by simp
  then show "x \<in> set xs" by simp
  have "sorted (map f (sort_key f xs))" by (rule sorted_sort_key)
  then show "\<forall>y\<in>set xs. f x \<le> f y" by (auto simp: assms s)
qed

lemma find_best_match_Some_iff:
  "find_best_match entries k nodes = Some n \<longleftrightarrow>
     (\<exists>sig pre post. entries k = Some sig \<and> nodes = pre @ n # post \<and>
        RECOVERY_THRESHOLD \<le> score_against sig n \<and>
        (\<forall>m\<in>set pre \<union> set post. score_against sig m < score_against sig n))"
proof (cases "entries k")
  case None
  then show ?thesis by (simp add: find_best_match_def)
next
  case (Some sig)
  let ?sc = "score_against sig"
  let ?xs = "filter (\<lambda>(n, s). RECOVERY_THRESHOLD \<le> s) (map (\<lambda>n. (n, ?sc n)) nodes)"
  let ?S = "sort_key (\<lambda>(n, s). - s) ?xs"
  have xs: "?xs = map (\<lambda>n. (n, ?sc n)) (filter (\<lambda>n. RECOVERY_THRESHOLD \<le> ?sc n) nodes)"
    by (simp add: filter_map comp_def)
  have cnt: "length (filter (\<lambda>(n, s). s = b) ?S) = length (filter (\<lambda>n. ?sc n = b \<and> RECOVERY_THRESHOLD \<le> b) nodes)" for b
  proof -
    have "length (filter (\<lambda>(n, s). s = b) ?S) = length (filter (\<lambda>(n, s). s = b) ?xs)"
      by (simp only: filter_sort length_sort)
    also have "\<dots> = length (filter (\<lambda>n. ?sc n = b \<and> RECOVERY_THRESHOLD \<le> b) nodes)"
      unfolding xs filter_map by (auto simp: comp_def intro!: arg_cong [where f = length] filter_cong)
    finally show ?thesis .
  qed
  show ?thesis
  proof
    assume "find_best_match entries k nodes = Some n"
    then obtain b rest where S: "?S = (n, b) # rest" and c: "length (filter (\<lambda>(n, s). s = b) ?S) \<le> 1"
      using Some by (auto simp: find_best_match_def Let_def split: list.splits if_splits)
    from sort_key_hd [OF S] have m: "(n, b) \<in> set ?xs" "\<forall>y\<in>set ?xs. - b \<le> - snd y"
      by (auto simp: case_prod_unfold)
    then have b: "b = ?sc n" "RECOVERY_THRESHOLD \<le> b" "n \<in> set nodes" by auto
    have "filter (\<lambda>m. ?sc m = b \<and> RECOVERY_THRESHOLD \<le> b) nodes \<noteq> []" using b by (auto simp: filter_empty_conv)
    then have "length (filter (\<lambda>m. ?sc m = b \<and> RECOVERY_THRESHOLD \<le> b) nodes) = 1"
      using c cnt [of b] by (cases "filter (\<lambda>m. ?sc m = b \<and> RECOVERY_THRESHOLD \<le> b) nodes") auto
    then obtain pre x post where p: "nodes = pre @ x # post" "?sc x = b"
      "\<forall>y\<in>set pre \<union> set post. ?sc y \<noteq> b" using b(2) unfolding filter_length_one by blast
    have "x = n" using p b by auto
    moreover have "?sc y < ?sc n" if "y \<in> set pre \<union> set post" for y
    proof (cases "RECOVERY_THRESHOLD \<le> ?sc y")
      case True
      then have "(y, ?sc y) \<in> set ?xs" using that p(1) by auto
      with m(2) have "?sc y \<le> b" by auto
      moreover have "?sc y \<noteq> b" using p(3) that by blast
      ultimately show ?thesis using b(1) by simp
    qed (use b in simp)
    ultimately show "\<exists>sig pre post. entries k = Some sig \<and> nodes = pre @ n # post \<and>
        RECOVERY_THRESHOLD \<le> score_against sig n \<and>
        (\<forall>m\<in>set pre \<union> set post. score_against sig m < score_against sig n)"
      using Some p(1) b by blast
  next
    assume "\<exists>sig pre post. entries k = Some sig \<and> nodes = pre @ n # post \<and>
        RECOVERY_THRESHOLD \<le> score_against sig n \<and>
        (\<forall>m\<in>set pre \<union> set post. score_against sig m < score_against sig n)"
    then obtain pre post where p: "nodes = pre @ n # post" "RECOVERY_THRESHOLD \<le> ?sc n"
      "\<forall>m\<in>set pre \<union> set post. ?sc m < ?sc n" using Some by auto
    then have "(n, ?sc n) \<in> set ?S" by simp
    then obtain m b rest where S: "?S = (m, b) # rest" by (cases ?S) auto
    from sort_key_hd [OF S] have m: "(m, b) \<in> set ?xs" "\<forall>y\<in>set ?xs. - b \<le> - snd y"
      by (auto simp: case_prod_unfold)
    have "(n, ?sc n) \<in> set ?xs" using p by simp
    with m have "m \<in> set nodes" "b = ?sc m" "?sc n \<le> ?sc m" by auto
    with p have "m = n" by (auto dest: bspec)
    moreover have "filter (\<lambda>x. ?sc x = ?sc n \<and> RECOVERY_THRESHOLD \<le> ?sc n) nodes = [n]"
    proof -
      have "filter (\<lambda>x. ?sc x = ?sc n) pre = []" "filter (\<lambda>x. ?sc x = ?sc n) post = []"
        using p(3) by (simp_all only: filter_empty_conv) (metis UnCI less_irrefl)+
      then show ?thesis using p(1,2) by simp
    qed
    ultimately show "find_best_match entries k nodes = Some n"
      using Some S cnt [of "?sc n"] \<open>b = ?sc m\<close> by (simp add: find_best_match_def Let_def)
  qed
qed

text \<open>
  C39: recovery picks the single best candidate or nothing. A node is returned exactly when it
  reaches the threshold and every other candidate, at any other position, scores strictly less; so
  a tie for the best score is refused.
\<close>

theorem find_best_match_unique_best:
  "find_best_match (record_signature entries key seen) key nodes = Some n \<longleftrightarrow>
     (\<exists>pre post. nodes = pre @ n # post \<and> RECOVERY_THRESHOLD \<le> score_against (from_node seen) n \<and>
        (\<forall>m\<in>set pre \<union> set post. score_against (from_node seen) m < score_against (from_node seen) n))"
  by (simp add: find_best_match_Some_iff record_signature_def)

definition short_label :: "string option \<Rightarrow> bool" where
  "short_label l = (case l of None \<Rightarrow> True | Some s \<Rightarrow> int (length (split_whitespace s)) < 2 ^ 23)"

lemma attribute_points_bounds: "0 \<le> attribute_points a c" "attribute_points a c \<le> 30"
  by (auto simp: attribute_points_def split: option.splits)

text \<open>
  Recovery never rests on one signal. A node that recovery returns agrees with the recorded
  one in at least two of: role, label words, alias, an identity attribute. (Labels of fewer than
  eight million words, so that the word counts are exact in single precision.)
\<close>

theorem recovery_needs_two_signals:
  assumes "find_best_match (record_signature entries key seen) key nodes = Some n"
    and "short_label (sn_label seen)" "short_label (sn_label n)"
  shows "2 \<le> (if sn_role n = sn_role seen then 1 else 0)
    + (if 0 < label_similarity (sn_label seen) (sn_label n) then 1 else 0)
    + (if sn_alias n \<noteq> None \<and> sn_alias n = sn_alias seen then 1 else 0)
    + (if 0 < attribute_points (sig_attributes (from_node seen)) (sn_attributes n) then 1 else (0::nat))"
proof -
  have t: "45 \<le> score_against (from_node seen) n"
    using assms(1) by (auto simp: find_best_match_Some_iff record_signature_def RECOVERY_THRESHOLD_def)
  have l: "label_similarity (sn_label seen) (sn_label n) \<le> 30"
    using assms(2,3) by (intro label_similarity_bounds) (auto simp: short_label_def)
  define C where "C \<longleftrightarrow> sn_alias n \<noteq> None \<and> sn_alias n = sn_alias seen"
  define L where "L = label_similarity (sn_label seen) (sn_label n)"
  define P where "P = attribute_points (sig_attributes (from_node seen)) (sn_attributes n)"
  have a: "alias_points (sn_alias seen) (sn_alias n) = (if C then 20 else 0)"
    by (auto simp: alias_points_def C_def split: option.splits)
  have "45 \<le> (if sn_role seen = sn_role n then 35 else 0) + L + (if C then 20 else 0) + P"
    using t by (simp add: score_against_def L_def P_def a [symmetric] from_node_def)
  moreover have "L \<le> 30" "0 \<le> P" "P \<le> 30"
    using l attribute_points_bounds by (simp_all add: L_def P_def)
  ultimately show ?thesis unfolding C_def [symmetric] L_def [symmetric] P_def [symmetric]
    by (auto split: if_splits)
qed

text \<open>The element that was recorded, and a page where it lost its stable key.\<close>

definition pay_button :: "string option \<Rightarrow> int \<Rightarrow> SemanticNode" where
  "pay_button key i = SemanticNode ''button'' (Some ''Pay now'') [] (Some [(''type'', ''submit'')]) key False None i []"

theorem recovery_needs_two_signals_witness:
  "find_best_match (record_signature Map.empty ''k'' (pay_button (Some ''k'') 5)) ''k''
     [leaf ''button'' ''Cancel'' None 6, pay_button None 7] = Some (pay_button None 7) \<and>
   2 \<le> (1::nat) + 1 + 0 + 1"
proof -
  have f: "find_best_match (record_signature Map.empty ''k'' (pay_button (Some ''k'') 5)) ''k''
     [leaf ''button'' ''Cancel'' None 6, pay_button None 7] = Some (pay_button None 7)" by code_simp
  have s: "short_label (sn_label (pay_button k i))" for k i
  proof -
    have "int (length (split_whitespace ''Pay now'')) < 2 ^ 23" by code_simp
    then show ?thesis by (simp add: pay_button_def short_label_def)
  qed
  from recovery_needs_two_signals [OF f s s] f show ?thesis by simp
qed

theorem find_best_match_unique_best_witness:
  "find_best_match (record_signature Map.empty ''k'' (pay_button (Some ''k'') 5)) ''k''
     [leaf ''button'' ''Cancel'' None 6, pay_button None 7] = Some (pay_button None 7)"
proof -
  let ?sig = "from_node (pay_button (Some ''k'') 5)"
  have "RECOVERY_THRESHOLD \<le> score_against ?sig (pay_button None 7)"
    "score_against ?sig (leaf ''button'' ''Cancel'' None 6) < score_against ?sig (pay_button None 7)"
    by code_simp+
  then have "\<exists>pre post. [leaf ''button'' ''Cancel'' None 6, pay_button None 7] = pre @ pay_button None 7 # post \<and>
      RECOVERY_THRESHOLD \<le> score_against ?sig (pay_button None 7) \<and>
      (\<forall>m\<in>set pre \<union> set post. score_against ?sig m < score_against ?sig (pay_button None 7))"
    by (intro exI [of _ "[leaf ''button'' ''Cancel'' None 6]"] exI [of _ "[]"]) simp
  then show ?thesis by (subst find_best_match_unique_best)
qed

end
