(* ===== verification/Sem_Index.thy ===== *)
theory Sem_Index
  imports Sem_Tree
begin

text \<open>
  The indices \<open>browser/helpers.rs\<close> builds over a semantic tree (the stable-key index of
  \<open>browser/capture.rs\<close>, the index of unambiguous semantic paths), the waiting conditions, the
  error-chain tests and the fallback condition of a navigation. \<open>lower\<close> is
  \<open>str::to_lowercase\<close>.
\<close>

section \<open>The stable-key index\<close>

record StableKeyIndexEntry =
  ske_backend_node_id :: int
  ske_alias :: "string option"

definition index_node :: "SemanticNode \<Rightarrow> (string \<rightharpoonup> StableKeyIndexEntry) \<Rightarrow> (string \<rightharpoonup> StableKeyIndexEntry)" where
  "index_node node out = (case sn_stable_key node of
     None \<Rightarrow> out
   | Some key \<Rightarrow>
       if 0 < sn_id node then
         out(take_chars STABLE_KEY_SHORT_LEN key \<mapsto>
               \<lparr>ske_backend_node_id = sn_id node, ske_alias = sn_alias node\<rparr>)
       else out)"

fun collect_stable_key_entries ::
    "SemanticNode \<Rightarrow> (string \<rightharpoonup> StableKeyIndexEntry) \<Rightarrow> (string \<rightharpoonup> StableKeyIndexEntry)"
and collect_stable_key_entries_in ::
    "SemanticNode list \<Rightarrow> (string \<rightharpoonup> StableKeyIndexEntry) \<Rightarrow> (string \<rightharpoonup> StableKeyIndexEntry)" where
  "collect_stable_key_entries (SemanticNode r l ch a k am al i f) out =
     collect_stable_key_entries_in ch (index_node (SemanticNode r l ch a k am al i f) out)"
| "collect_stable_key_entries_in [] out = out"
| "collect_stable_key_entries_in (child # children) out =
     collect_stable_key_entries_in children (collect_stable_key_entries child out)"

definition lookup_backend_node_id_by_stable_key ::
  "(string \<rightharpoonup> StableKeyIndexEntry) \<Rightarrow> string \<Rightarrow> int option" where
  "lookup_backend_node_id_by_stable_key index stable_key =
     map_option ske_backend_node_id (index (take_chars STABLE_KEY_SHORT_LEN stable_key))"

definition lookup_alias_by_stable_key ::
  "(string \<rightharpoonup> StableKeyIndexEntry) \<Rightarrow> string \<Rightarrow> string option" where
  "lookup_alias_by_stable_key index stable_key =
     Option.bind (index (take_chars STABLE_KEY_SHORT_LEN stable_key)) ske_alias"

lemma collect_entries_fold:
  "collect_stable_key_entries n out = fold index_node (preorder n) out"
  "collect_stable_key_entries_in ns out = fold index_node (concat (map preorder ns)) out"
  by (induction n out and ns out rule: collect_stable_key_entries_collect_stable_key_entries_in.induct) auto

definition indexed_under :: "string \<Rightarrow> SemanticNode \<Rightarrow> bool" where
  "indexed_under short n \<longleftrightarrow>
     0 < sn_id n \<and> map_option (take_chars STABLE_KEY_SHORT_LEN) (sn_stable_key n) = Some short"

lemma fold_index_node:
  "fold index_node ns out short =
     (case find (indexed_under short) (rev ns) of
        Some n \<Rightarrow> Some \<lparr>ske_backend_node_id = sn_id n, ske_alias = sn_alias n\<rparr>
      | None \<Rightarrow> out short)"
proof (induction ns arbitrary: out)
  case (Cons n ns)
  have "index_node n out short = (if indexed_under short n
      then Some \<lparr>ske_backend_node_id = sn_id n, ske_alias = sn_alias n\<rparr> else out short)"
    by (auto simp: index_node_def indexed_under_def split: option.splits)
  with Cons show ?case by (auto simp: find_append split: option.splits)
qed simp

text \<open>
  After the index of a tree is built, a key resolves to the id and the alias of the last node in
  document order that has a positive id and the same first 16 characters of its key; the full key
  and the shortened key resolve alike.
\<close>

theorem stable_key_index_lookup:
  "collect_stable_key_entries root Map.empty (take_chars STABLE_KEY_SHORT_LEN key) =
     map_option (\<lambda>n. \<lparr>ske_backend_node_id = sn_id n, ske_alias = sn_alias n\<rparr>)
       (find (indexed_under (take_chars STABLE_KEY_SHORT_LEN key)) (rev (preorder root)))"
  by (simp add: collect_entries_fold fold_index_node split: option.splits)

lemma take_chars_ascii: "ascii s \<Longrightarrow> take_chars n s = take n s"
proof (induction s arbitrary: n)
  case (Cons c s)
  then show ?case by (cases n) (auto simp: ascii_def is_cont_def)
qed simp

lemma find_unique:
  assumes "x \<in> set xs" "P x" "\<forall>y\<in>set xs. P y \<longrightarrow> y = x"
  shows "find P xs = Some x"
  using assms(1,3)
proof (induction xs)
  case (Cons a xs)
  show ?case
  proof (cases "P a")
    case True
    with Cons.prems(2) have "a = x" by simp
    with True show ?thesis by simp
  next
    case False
    with assms(2) Cons.prems have "x \<in> set xs" "\<forall>y\<in>set xs. P y \<longrightarrow> y = x" by auto
    from Cons.IH [OF this] False show ?thesis by simp
  qed
qed simp

text \<open>
  The policy and the executor's fallback resolve a stable key to the same element. If the keys
  of a tree are ASCII of at least 16 bytes and no two of its nodes share their first 16 bytes, the
  node the policy finds for a key is, when it is live (positive id), the one the index returns.
\<close>

theorem policy_and_index_agree:
  assumes "ascii key" "16 \<le> length key"
    and "\<forall>n\<in>set (preorder root). \<forall>k. sn_stable_key n = Some k \<longrightarrow> ascii k \<and> 16 \<le> length k"
    and "\<forall>m\<in>set (preorder root). \<forall>n\<in>set (preorder root). \<forall>k k'.
           sn_stable_key m = Some k \<and> sn_stable_key n = Some k' \<and> take 16 k = take 16 k' \<longrightarrow> m = n"
    and "find_node_by_key p root key = Ret (Some (q, n))" "0 < sn_id n"
  shows "lookup_backend_node_id_by_stable_key (collect_stable_key_entries root Map.empty) key = Some (sn_id n)"
proof -
  have agree: "keys_agree k key \<longleftrightarrow> take 16 k = take 16 key" if "16 \<le> length k" for k
    using that assms(2) by (auto simp: keys_agree_def STABLE_KEY_SHORT_LEN_def Let_def)
  have "\<forall>n\<in>set (preorder root). ascii_key (sn_stable_key n)"
    using assms(3) by (auto simp: ascii_key_def split: option.splits)
  from find_node_by_key_first [OF assms(1) this, of p] assms(5)
  have "find (\<lambda>n. \<exists>k. sn_stable_key n = Some k \<and> keys_agree k key) (preorder root) = Some n" by auto
  then obtain k where n: "n \<in> set (preorder root)" "sn_stable_key n = Some k" "keys_agree k key"
    by (auto simp: find_Some_iff)
  have short: "take_chars STABLE_KEY_SHORT_LEN key = take 16 key"
    using assms(1) by (simp add: take_chars_ascii STABLE_KEY_SHORT_LEN_def)
  have k: "take 16 k = take 16 key" using n agree assms(3) by blast
  have under: "indexed_under (take 16 key) m \<longleftrightarrow>
      0 < sn_id m \<and> (\<exists>k'. sn_stable_key m = Some k' \<and> take 16 k' = take 16 key)"
    if "m \<in> set (preorder root)" for m
    using that assms(3) by (auto simp: indexed_under_def take_chars_ascii STABLE_KEY_SHORT_LEN_def)
  have "find (indexed_under (take 16 key)) (rev (preorder root)) = Some n"
  proof (rule find_unique)
    show "n \<in> set (rev (preorder root))" using n by simp
    show "indexed_under (take 16 key) n" using n k under assms(6) by blast
    show "\<forall>y\<in>set (rev (preorder root)). indexed_under (take 16 key) y \<longrightarrow> y = n"
    proof (intro ballI impI)
      fix y assume "y \<in> set (rev (preorder root))" and u: "indexed_under (take 16 key) y"
      then have y: "y \<in> set (preorder root)" by simp
      with u under obtain k' where "sn_stable_key y = Some k'" "take 16 k' = take 16 key" by blast
      with y n k assms(4) show "y = n" by metis
    qed
  qed
  then show ?thesis
    by (simp add: lookup_backend_node_id_by_stable_key_def short collect_entries_fold fold_index_node)
qed

theorem policy_and_index_agree_witness:
  "lookup_backend_node_id_by_stable_key (collect_stable_key_entries sample_tree Map.empty)
     ''bbbbbbbbbbbbbbbb'' = Some 7"
proof -
  have f: "find_node_by_key [] sample_tree ''bbbbbbbbbbbbbbbb'' =
      Ret (Some ([2], leaf ''button'' ''Delete account'' (Some ''bbbbbbbbbbbbbbbb0'') 7))"
    by code_simp
  have a: "ascii ''bbbbbbbbbbbbbbbb''" "ascii ''bbbbbbbbbbbbbbbb0''" "ascii ''aaaaaaaaaaaaaaaa0''" by code_simp+
  have "lookup_backend_node_id_by_stable_key (collect_stable_key_entries sample_tree Map.empty)
      ''bbbbbbbbbbbbbbbb'' = Some (sn_id (leaf ''button'' ''Delete account'' (Some ''bbbbbbbbbbbbbbbb0'') 7))"
    by (rule policy_and_index_agree [OF a(1) _ _ _ f]) (auto simp: sample_tree_def leaf_def a)
  then show ?thesis by (simp add: leaf_def)
qed

section \<open>Semantic paths\<close>

definition semantic_path :: "(string \<Rightarrow> string) \<Rightarrow> string \<Rightarrow> string \<Rightarrow> string" where
  "semantic_path lower parent_path role = parent_path @ ''/'' @ lower role"

fun count_semantic_paths ::
    "(string \<Rightarrow> string) \<Rightarrow> SemanticNode \<Rightarrow> string \<Rightarrow> (string \<rightharpoonup> nat) \<Rightarrow> (string \<rightharpoonup> nat)"
and count_semantic_paths_in ::
    "(string \<Rightarrow> string) \<Rightarrow> SemanticNode list \<Rightarrow> string \<Rightarrow> (string \<rightharpoonup> nat) \<Rightarrow> (string \<rightharpoonup> nat)" where
  "count_semantic_paths lower (SemanticNode r l ch a k am al i f) parent_path counts =
     (let current_path = semantic_path lower parent_path r
      in count_semantic_paths_in lower ch current_path
           (counts(current_path \<mapsto> (case counts current_path of None \<Rightarrow> 0 | Some c \<Rightarrow> c) + 1)))"
| "count_semantic_paths_in lower [] parent_path counts = counts"
| "count_semantic_paths_in lower (child # children) parent_path counts =
     count_semantic_paths_in lower children parent_path (count_semantic_paths lower child parent_path counts)"

fun collect_unique_semantic_paths ::
    "(string \<Rightarrow> string) \<Rightarrow> SemanticNode \<Rightarrow> string \<Rightarrow> (string \<rightharpoonup> nat) \<Rightarrow> nat list
      \<Rightarrow> (string \<rightharpoonup> nat list) \<Rightarrow> (string \<rightharpoonup> nat list)"
and collect_unique_semantic_paths_in ::
    "(string \<Rightarrow> string) \<Rightarrow> nat \<Rightarrow> SemanticNode list \<Rightarrow> string \<Rightarrow> (string \<rightharpoonup> nat) \<Rightarrow> nat list
      \<Rightarrow> (string \<rightharpoonup> nat list) \<Rightarrow> (string \<rightharpoonup> nat list)" where
  "collect_unique_semantic_paths lower (SemanticNode r l ch a k am al i f) parent_path counts child_path index =
     (let current_path = semantic_path lower parent_path r
      in collect_unique_semantic_paths_in lower 0 ch current_path counts child_path
           (if counts current_path = Some 1 then index(current_path \<mapsto> child_path) else index))"
| "collect_unique_semantic_paths_in lower j [] parent_path counts child_path index = index"
| "collect_unique_semantic_paths_in lower j (child # children) parent_path counts child_path index =
     collect_unique_semantic_paths_in lower (Suc j) children parent_path counts child_path
       (collect_unique_semantic_paths lower child parent_path counts (child_path @ [j]) index)"

definition build_semantic_path_index :: "(string \<Rightarrow> string) \<Rightarrow> SemanticNode \<Rightarrow> (string \<rightharpoonup> nat list)" where
  "build_semantic_path_index lower root =
     collect_unique_semantic_paths lower root ''root''
       (count_semantic_paths lower root ''root'' Map.empty) [] Map.empty"

text \<open>The semantic path of every position, in document order: the reference.\<close>

fun sem_paths :: "(string \<Rightarrow> string) \<Rightarrow> SemanticNode \<Rightarrow> string \<Rightarrow> nat list \<Rightarrow> (string \<times> nat list) list"
and sem_paths_in ::
    "(string \<Rightarrow> string) \<Rightarrow> nat \<Rightarrow> SemanticNode list \<Rightarrow> string \<Rightarrow> nat list \<Rightarrow> (string \<times> nat list) list" where
  "sem_paths lower (SemanticNode r l ch a k am al i f) parent_path p =
     (let current_path = semantic_path lower parent_path r
      in (current_path, p) # sem_paths_in lower 0 ch current_path p)"
| "sem_paths_in lower j [] parent_path p = []"
| "sem_paths_in lower j (child # children) parent_path p =
     sem_paths lower child parent_path (p @ [j]) @ sem_paths_in lower (Suc j) children parent_path p"

definition bump :: "string \<Rightarrow> (string \<rightharpoonup> nat) \<Rightarrow> (string \<rightharpoonup> nat)" where
  "bump s m = m(s \<mapsto> (case m s of None \<Rightarrow> 0 | Some c \<Rightarrow> c) + 1)"

lemma map_fst_sem_paths:
  "map fst (sem_paths lower n pp p) = map fst (sem_paths lower n pp q)"
  "map fst (sem_paths_in lower j ns pp p) = map fst (sem_paths_in lower j' ns pp q)"
proof (induction lower n pp p and lower j ns pp p arbitrary: q and q j' rule: sem_paths_sem_paths_in.induct)
  case (1 lower r l ch a k am al i f parent_path p)
  from "1.IH" [OF refl, of 0 q] show ?case by (simp add: Let_def)
next
  case (3 lower j child children parent_path p)
  from "3.IH"(1) [of "q @ [j']"] "3.IH"(2) [of "Suc j'" q] show ?case by simp
qed simp

lemma count_paths_fold:
  "count_semantic_paths lower n pp counts = fold bump (map fst (sem_paths lower n pp [])) counts"
  "count_semantic_paths_in lower ns pp counts = fold bump (map fst (sem_paths_in lower 0 ns pp [])) counts"
proof (induction lower n pp counts and lower ns pp counts rule: count_semantic_paths_count_semantic_paths_in.induct)
  case (1 lower r l ch a k am al i f parent_path counts)
  from "1.IH" [OF refl] show ?case
    by (simp add: Let_def fun_upd_def bump_def [of "semantic_path lower parent_path r" counts])
next
  case (3 lower child children parent_path counts)
  then show ?case
    by (simp add: map_fst_sem_paths(1) [of lower child parent_path "[0]" "[]"]
        map_fst_sem_paths(2) [of lower "Suc 0" children parent_path "[]" 0 "[]"])
qed simp

lemma fold_bump:
  "fold bump xs m s = (if s \<in> set xs then Some ((case m s of None \<Rightarrow> 0 | Some c \<Rightarrow> c) + count_list xs s) else m s)"
  by (induction xs arbitrary: m) (auto simp: bump_def)

definition keep_unique :: "(string \<rightharpoonup> nat) \<Rightarrow> string \<times> nat list \<Rightarrow> (string \<rightharpoonup> nat list) \<Rightarrow> (string \<rightharpoonup> nat list)" where
  "keep_unique counts sp index = (if counts (fst sp) = Some 1 then index(fst sp \<mapsto> snd sp) else index)"

lemma collect_unique_fold:
  "collect_unique_semantic_paths lower n pp counts p index = fold (keep_unique counts) (sem_paths lower n pp p) index"
  "collect_unique_semantic_paths_in lower j ns pp counts p index =
     fold (keep_unique counts) (sem_paths_in lower j ns pp p) index"
  by (induction lower n pp counts p index and lower j ns pp counts p index
      rule: collect_unique_semantic_paths_collect_unique_semantic_paths_in.induct)
    (auto simp: Let_def keep_unique_def)

lemma fold_keep_unique:
  "fold (keep_unique counts) xs index s =
     (if counts s = Some 1 then (case map_of (rev xs) s of Some p \<Rightarrow> Some p | None \<Rightarrow> index s) else index s)"
  by (induction xs arbitrary: index) (auto simp: keep_unique_def map_add_def split: option.splits)

lemma count_list_1_filter:
  "count_list (map fst xs) s = length (filter (\<lambda>x. fst x = s) xs)"
  by (induction xs) auto

lemma map_of_filter_key: "map_of (filter (\<lambda>x. fst x = s) xs) s = map_of xs s"
  by (induction xs) auto

text \<open>
  The path index holds exactly the unambiguous paths: a semantic path is mapped to a position
  if and only if the node at this position is the only one of the tree with that path, so a cached
  subtree is never looked up under a path two nodes share.
\<close>

theorem build_semantic_path_index_unique:
  "build_semantic_path_index lower root s = Some p \<longleftrightarrow>
     filter (\<lambda>x. fst x = s) (sem_paths lower root ''root'' []) = [(s, p)]"
proof -
  let ?xs = "sem_paths lower root ''root'' []"
  let ?c = "fold bump (map fst ?xs) Map.empty"
  have c: "?c s = Some 1 \<longleftrightarrow> length (filter (\<lambda>x. fst x = s) ?xs) = 1"
    by (auto simp: fold_bump count_list_1_filter [symmetric])
  have m: "map_of (rev ?xs) s = Some p \<longleftrightarrow> filter (\<lambda>x. fst x = s) ?xs = [(s, p)]"
    if one: "length (filter (\<lambda>x. fst x = s) ?xs) = 1"
  proof -
    from one obtain x where x: "filter (\<lambda>x. fst x = s) ?xs = [x]" by (auto simp: length_Suc_conv)
    have "map_of (rev ?xs) s = map_of (filter (\<lambda>x. fst x = s) (rev ?xs)) s"
      by (simp add: map_of_filter_key)
    also have "\<dots> = map_of [x] s" by (simp add: rev_filter [symmetric] x)
    finally have e: "map_of (rev ?xs) s = map_of [x] s" .
    from x have "x \<in> set (filter (\<lambda>x. fst x = s) ?xs)" by simp
    then have "fst x = s" by simp
    with e x show ?thesis by (cases x) simp
  qed
  show ?thesis
    using c m by (auto simp: build_semantic_path_index_def collect_unique_fold(1) count_paths_fold(1)
        fold_keep_unique split: option.splits)
qed

text \<open>
  Two buttons under the same parent share their path and are left out; the text node is kept.
\<close>

lemma build_semantic_path_index_sample:
  "build_semantic_path_index ascii_lower sample_tree ''root/main/text'' = Some [0]"
  "build_semantic_path_index ascii_lower sample_tree ''root/main/button'' = None"
  by code_simp+

section \<open>Waiting conditions\<close>

datatype SemanticTarget = TargetId int | TargetStableKey string | TargetIdWithStableKey int string

datatype SemanticWaitState = Enabled

definition node_is_enabled :: "SemanticNode \<Rightarrow> bool" where
  "node_is_enabled node \<longleftrightarrow> node_attr node ''disabled'' = None"

definition node_matches_state :: "SemanticNode \<Rightarrow> SemanticWaitState \<Rightarrow> bool" where
  "node_matches_state node desired_state = (case desired_state of Enabled \<Rightarrow> node_is_enabled node)"

definition target_matches_state :: "SemanticState \<Rightarrow> SemanticTarget \<Rightarrow> SemanticWaitState \<Rightarrow> bool call" where
  "target_matches_state state target desired_state =
     (let root = ss_root state;
          resolved = (case target of
              TargetId i \<Rightarrow> Ret (find_node_by_id [] root i)
            | TargetStableKey key \<Rightarrow> find_node_by_key [] root key
            | TargetIdWithStableKey i key \<Rightarrow>
                (case find_node_by_id [] root i of
                   Some n \<Rightarrow> Ret (Some n)
                 | None \<Rightarrow> find_node_by_key [] root key))
      in case resolved of
           Panic \<Rightarrow> Panic
         | Ret None \<Rightarrow> Ret False
         | Ret (Some n) \<Rightarrow> Ret (node_matches_state (snd n) desired_state))"

definition node_has_intent :: "(string \<Rightarrow> string) \<Rightarrow> SemanticNode \<Rightarrow> string \<Rightarrow> bool" where
  "node_has_intent lower node intent \<longleftrightarrow>
     (case sn_label node of None \<Rightarrow> False | Some l \<Rightarrow> lower (trim l) = intent) \<or>
     (case sn_attributes node of
        None \<Rightarrow> False
      | Some attrs \<Rightarrow> list_ex (\<lambda>(key, value).
          (lower key = ''data-intent'' \<or> lower key = ''intent'') \<and> lower value = intent) attrs)"

fun node_contains_intent :: "(string \<Rightarrow> string) \<Rightarrow> SemanticNode \<Rightarrow> string \<Rightarrow> bool"
and nodes_contain_intent :: "(string \<Rightarrow> string) \<Rightarrow> SemanticNode list \<Rightarrow> string \<Rightarrow> bool" where
  "node_contains_intent lower (SemanticNode r l ch a k am al i f) intent =
     (node_has_intent lower (SemanticNode r l ch a k am al i f) intent \<or> nodes_contain_intent lower ch intent)"
| "nodes_contain_intent lower [] intent = False"
| "nodes_contain_intent lower (child # children) intent =
     (node_contains_intent lower child intent \<or> nodes_contain_intent lower children intent)"

definition state_contains_intent :: "(string \<Rightarrow> string) \<Rightarrow> SemanticNode \<Rightarrow> string \<Rightarrow> bool" where
  "state_contains_intent lower root intent = node_contains_intent lower root (lower (trim intent))"

lemma node_contains_intent_preorder:
  "node_contains_intent lower n intent = list_ex (\<lambda>x. node_has_intent lower x intent) (preorder n)"
  "nodes_contain_intent lower ns intent =
     list_ex (\<lambda>x. node_has_intent lower x intent) (concat (map preorder ns))"
  by (induction lower n intent and lower ns intent rule: node_contains_intent_nodes_contain_intent.induct)
    auto

text \<open>
  Waiting for an intent succeeds on a state exactly when some node of the tree carries it, by
  its label or by an intent attribute, whatever the case and the outer white space.
\<close>

theorem state_contains_intent_iff:
  "state_contains_intent lower root intent \<longleftrightarrow>
     (\<exists>n\<in>set (preorder root). node_has_intent lower n (lower (trim intent)))"
  by (simp add: state_contains_intent_def node_contains_intent_preorder list_ex_iff)

definition normalize_text :: "(string \<Rightarrow> string) \<Rightarrow> string \<Rightarrow> string" where
  "normalize_text lower input = lower (join '' '' (split_whitespace input))"

definition normalize_dirty_paths :: "string list \<Rightarrow> string set" where
  "normalize_dirty_paths raw_paths = set (filter (\<lambda>p. p \<noteq> []) (map trim raw_paths))"

section \<open>Errors, time-outs and the navigation fallback\<close>

text \<open>An error chain is the list of its messages, outermost first.\<close>

definition error_chain_contains_any :: "(string \<Rightarrow> string) \<Rightarrow> string list \<Rightarrow> string list \<Rightarrow> bool" where
  "error_chain_contains_any lower err markers =
     list_ex (\<lambda>source. list_ex (\<lambda>marker. str_contains (lower source) marker) markers) err"

definition is_transient_capture_error :: "(string \<Rightarrow> string) \<Rightarrow> string list \<Rightarrow> bool" where
  "is_transient_capture_error lower err = error_chain_contains_any lower err
     [''could not find node'', ''no node with given id'', ''execution context was destroyed'',
      ''cannot find context with specified id'', ''navigation'']"

text \<open>Durations are nanoseconds.\<close>

definition DEFAULT_WAIT_POLL_INTERVAL :: nat where
  "DEFAULT_WAIT_POLL_INTERVAL = 50 * 10 ^ 6"

definition MAX_TRANSIENT_ERROR_BACKOFF :: nat where
  "MAX_TRANSIENT_ERROR_BACKOFF = 250 * 10 ^ 6"

definition remaining_timeout :: "nat \<Rightarrow> nat \<Rightarrow> nat" where
  "remaining_timeout elapsed timeout = timeout - elapsed"

definition normalized_poll_interval :: "nat \<Rightarrow> nat" where
  "normalized_poll_interval poll_interval =
     (if poll_interval = 0 then DEFAULT_WAIT_POLL_INTERVAL else poll_interval)"

definition transient_error_backoff :: "nat \<Rightarrow> nat" where
  "transient_error_backoff poll_interval =
     min (normalized_poll_interval poll_interval) MAX_TRANSIENT_ERROR_BACKOFF"

text \<open>The length of the sleep, None where the function returns without sleeping.\<close>

definition sleep_transient_backoff :: "nat \<Rightarrow> nat \<Rightarrow> nat \<Rightarrow> nat option" where
  "sleep_transient_backoff elapsed timeout poll_interval =
     (let remaining = remaining_timeout elapsed timeout
      in if remaining = 0 then None else Some (min poll_interval remaining))"

lemma transient_error_backoff_bounds:
  "0 < transient_error_backoff p \<and> transient_error_backoff p \<le> MAX_TRANSIENT_ERROR_BACKOFF"
  by (auto simp: transient_error_backoff_def normalized_poll_interval_def
      DEFAULT_WAIT_POLL_INTERVAL_def MAX_TRANSIENT_ERROR_BACKOFF_def)

text \<open>
  The back-off of a waiting loop always makes progress and never outlasts its time-out: where
  time remains, the sleep is positive, at most 250 ms, and ends by the time-out.
\<close>

theorem backoff_sleep_bounds:
  assumes "elapsed < timeout"
  shows "\<exists>d. sleep_transient_backoff elapsed timeout (transient_error_backoff p) = Some d \<and>
     0 < d \<and> d \<le> MAX_TRANSIENT_ERROR_BACKOFF \<and> elapsed + d \<le> timeout"
  using assms transient_error_backoff_bounds [of p]
  by (auto simp: sleep_transient_backoff_def remaining_timeout_def Let_def)

theorem backoff_sleep_bounds_witness:
  "\<exists>d. sleep_transient_backoff 0 1000 (transient_error_backoff 0) = Some d \<and> 0 < d \<and>
     d \<le> MAX_TRANSIENT_ERROR_BACKOFF \<and> 0 + d \<le> 1000"
  by (rule backoff_sleep_bounds) simp

definition navigation_fallback_condition_met ::
  "string \<Rightarrow> string option \<Rightarrow> string option \<Rightarrow> string option \<Rightarrow> bool \<Rightarrow> bool" where
  "navigation_fallback_condition_met requested_url previous_url current_url ready_state dom_non_empty =
     (let reached_requested_url = (current_url = Some requested_url);
          moved_to_new_url = (case (previous_url, current_url) of
             (_, None) \<Rightarrow> False
           | (Some previous, Some current) \<Rightarrow> current \<noteq> previous
           | (None, Some _) \<Rightarrow> True);
          dom_ready = (ready_state = Some ''interactive'' \<or> ready_state = Some ''complete'')
      in (reached_requested_url \<or> moved_to_new_url) \<and> (dom_ready \<or> dom_non_empty))"

end
