(* ===== verification/Enforce.thy ===== *)
theory Enforce
  imports Approvals Plugin_Hooks Dom_Signature Sem_Index
begin

text \<open>
  Policy enforcement of a page session: capturing the semantic state (\<open>browser/capture.rs\<close>),
  \<open>enforce_policy\<close> and \<open>enforce_plugin_policy\<close> (\<open>browser/policy.rs\<close>) and the decision on a
  navigation destination (\<open>browser/navigation_policy.rs\<close>). What the browser, the clock and the
  generator of UUIDs answer is a function of the number of answers given before, so that the page
  may change between any two of them.
\<close>

section \<open>The session and its environment\<close>

text \<open>The calls that reach the page: resolving a node, and what an action does with it.\<close>

datatype browser_call =
    ResolveNode int
  | ClickNode int
  | FocusNode int
  | TypeStr string

record ActionLogEntry =
  le_level :: string
  le_code :: string
  le_action :: string
  le_target_id :: "int option"
  le_stable_key :: "string option"
  le_message :: string
  le_timestamp :: u64

datatype SomTrigger = GetVisual | ActAmbiguous | VerifyFailed

record SomMark =
  sm_id :: int
  sm_stable_key :: "string option"
  sm_bbox :: "f64 list"

record VisualCaptureRecord =
  vc_trigger :: SomTrigger
  vc_marks :: "SomMark list"
  vc_image_png :: string

record 're page_session = approval_session +
  pg_engine :: "'re PolicyEngine"
  pg_hooks :: PluginHookConfig
  pg_index :: "string \<rightharpoonup> StableKeyIndexEntry"
  pg_cache :: "(LoadProfile \<times> SemanticState) option"
  pg_signatures :: DOMSignatureCache
  pg_action_logs :: "ActionLogEntry list"
  pg_state_updates :: "(SemanticState option \<times> SemanticState) list"
  pg_generation_count :: nat
  pg_last_capture :: "VisualCaptureRecord option"
  pg_calls :: "browser_call list"
  pg_clock :: nat

record 're session_env =
  en_policy :: "'re policy_env"
  en_urls :: url_env
  en_sha :: "string \<Rightarrow> string"
  en_from_str :: "string \<Rightarrow> string + Json"
  en_intent_json :: "string \<Rightarrow> string \<Rightarrow> string"
  en_node_to_string :: "SemanticNode \<Rightarrow> string + string"
  en_from_str_node :: "string \<Rightarrow> string + SemanticNode"
  en_document :: "nat \<Rightarrow> ApprovalError + DocumentSnapshot"
  en_observed :: "nat \<Rightarrow> DocumentSnapshot"
  en_dom :: "nat \<Rightarrow> LoadProfile \<Rightarrow> string list + SemanticNode"
  en_now_ms :: "nat \<Rightarrow> int"
  en_uuid :: "nat \<Rightarrow> uuid"
  en_uuid_text :: "nat \<Rightarrow> string"
  en_browser :: "nat \<Rightarrow> browser_call \<Rightarrow> string list + unit"
  en_text :: "nat \<Rightarrow> int \<Rightarrow> string list + string"
  en_bbox :: "nat \<Rightarrow> int \<Rightarrow> string list + f64 list option"
  en_screenshot :: "nat \<Rightarrow> string list + string"
  en_recovery_text :: "string \<Rightarrow> SemanticNode \<Rightarrow> string"

text \<open>
  The errors of an action. A failure of the browser carries the messages of its error chain,
  outermost first; a panic unwinds the call.
\<close>

datatype act_error =
    ApprovalFailure ApprovalError
  | BrowserFailure "string list"
  | Blocked string
  | HumanApprovalRequired string ApprovalScope "OutcomeProjection option"
  | VerifyRequired
  | AskHumanRequired
  | Panicked

type_synonym ('re, 'a) session_op = "('re page_session, act_error, 'a) stateful"

definition next_tick :: "('re, nat) session_op" where
  "next_tick s = (Inr (pg_clock s), s\<lparr>pg_clock := Suc (pg_clock s)\<rparr>)"

definition now_u64 :: "'re session_env \<Rightarrow> nat \<Rightarrow> u64" where
  "now_u64 env n = word_of_int (en_now_ms env n)"

definition audit :: "AuditEvent \<Rightarrow> ('re, unit) session_op" where
  "audit ev = st_modify (log_audit ev)"

text \<open>\<open>live_document_snapshot\<close>: the document read, or the failure; the observer may have moved on.\<close>

definition live_document_snapshot :: "'re session_env \<Rightarrow> ('re, ApprovalError + DocumentSnapshot) session_op" where
  "live_document_snapshot env =
     st_bind next_tick (\<lambda>n. st_seq (st_modify (\<lambda>s. s\<lparr>se_document := en_observed env n\<rparr>))
       (st_return (en_document env n)))"

section \<open>Capturing the state\<close>

definition cache_snapshot :: "LoadProfile \<Rightarrow> 're page_session \<Rightarrow> SemanticState option" where
  "cache_snapshot profile s = (case pg_cache s of None \<Rightarrow> None
     | Some (p, st) \<Rightarrow> if p = profile then Some st else None)"

definition replace_stable_key_index :: "SemanticNode \<Rightarrow> ('re, unit) session_op" where
  "replace_stable_key_index root = st_modify (\<lambda>s. s\<lparr>pg_index := collect_stable_key_entries root Map.empty\<rparr>)"

definition capture_raw :: "'re session_env \<Rightarrow> LoadProfile \<Rightarrow> ('re, SemanticState) session_op" where
  "capture_raw env profile =
     st_bind next_tick (\<lambda>n.
       case en_dom env n profile of
         Inl e \<Rightarrow> st_error (BrowserFailure e)
       | Inr sem_root \<Rightarrow>
           st_seq (replace_stable_key_index sem_root)
             (st_return (new_state (en_sha env) (en_uuid_text env n) (now_u64 env n div 1000) sem_root profile)))"

definition capture_state :: "'re session_env \<Rightarrow> LoadProfile \<Rightarrow> ('re, SemanticState) session_op" where
  "capture_state env profile =
     st_bind (st_get (cache_snapshot profile)) (\<lambda>cached.
     st_bind (capture_raw env profile) (\<lambda>raw_state.
     st_seq (st_modify (\<lambda>s. s\<lparr>pg_state_updates := pg_state_updates s @ [(cached, raw_state)]\<rparr>))
     (st_bind next_tick (\<lambda>n.
      st_bind (st_get (\<lambda>s. apply_state_hooks (en_node_to_string env) (en_from_str_node env) (en_sha env)
                 (en_uuid_text env n) (now_u64 env n div 1000) (now_u64 env n)
                 (state_plugins (pg_hooks s)) raw_state)) (\<lambda>(transformed_state, events).
      st_seq (st_modify (\<lambda>s. s\<lparr>se_audit := se_audit s @ events\<rparr>))
      (st_seq (st_modify (\<lambda>s. s\<lparr>pg_cache := Some (profile, raw_state)\<rparr>))
        (st_return transformed_state)))))))"

section \<open>Enforcing the policy on an action\<close>

definition enforce_plugin_policy :: "'re session_env \<Rightarrow> string \<Rightarrow> string \<Rightarrow> ('re, unit) session_op" where
  "enforce_plugin_policy env action url =
     st_bind (st_get (\<lambda>s. policy_plugins (pg_hooks s))) (\<lambda>plugins.
       if plugins = [] then st_return ()
       else st_bind next_tick (\<lambda>n.
         case run_policy_hooks (en_from_str env) (now_u64 env n) (en_intent_json env action url) plugins of
           (outcome, events) \<Rightarrow>
             st_seq (st_modify (\<lambda>s. s\<lparr>se_audit := se_audit s @ events\<rparr>))
               (case outcome of
                  HookAllow \<Rightarrow> st_return ()
                | HookBlock plugin_id reason \<Rightarrow> st_error (Blocked (''plugin:'' @ plugin_id)))))"

definition decision_text :: "PolicyAction \<Rightarrow> string" where
  "decision_text a = (case a of Allow \<Rightarrow> ''allow'' | Block \<Rightarrow> ''block''
     | RequireHumanApproval \<Rightarrow> ''require_human_approval'')"

definition rule_id_of :: "PolicyDecision \<Rightarrow> string" where
  "rule_id_of d = (case pd_rule_id d of Some i \<Rightarrow> i | None \<Rightarrow> ''unnamed-policy-rule'')"

definition scope_of :: "PolicyDecision \<Rightarrow> ApprovalScope" where
  "scope_of d = (case pd_scope d of Some sc \<Rightarrow> sc | None \<Rightarrow> ActionOnly)"

text \<open>The context the engine gets, and the signature an approval is bound to.\<close>

definition action_context ::
  "string \<Rightarrow> string \<Rightarrow> SemanticNode \<Rightarrow> node_ref option \<Rightarrow> PolicyContext" where
  "action_context url action root target_node =
     \<lparr>pc_url = url, pc_action = action,
      pc_target_role = map_option (\<lambda>n. sn_role (snd n)) target_node,
      pc_target_text = Option.bind target_node (\<lambda>n. policy_target_text (snd n)),
      pc_surrounding_text = map_option (\<lambda>n. policy_context_text n root) target_node\<rparr>"

definition map_approval :: "(ApprovalError + 'a) \<times> 're page_session \<Rightarrow> (act_error + 'a) \<times> 're page_session" where
  "map_approval r = (case r of (Inl e, s) \<Rightarrow> (Inl (ApprovalFailure e), s) | (Inr a, s) \<Rightarrow> (Inr a, s))"

definition lift_approval :: "ApprovalError + 'a \<Rightarrow> ('re, 'a) session_op" where
  "lift_approval r s = map_approval (r, s)"

definition approval_request :: "PolicyDecision \<Rightarrow> string \<Rightarrow> string \<Rightarrow> PolicyApprovalRequest" where
  "approval_request d action sig = \<lparr>ar_rule_id = rule_id_of d, ar_scope = scope_of d, ar_action = action,
     ar_target_signature = sig, ar_outcome = pd_outcome d\<rparr>"

text \<open>The three branches on the decision of the engine.\<close>

definition apply_decision ::
  "'re session_env \<Rightarrow> PolicyDecision \<Rightarrow> string \<Rightarrow> string \<Rightarrow> string \<Rightarrow> DocumentSnapshot \<Rightarrow> ('re, unit) session_op" where
  "apply_decision env decision action target_signature url document =
     (case pd_action decision of
        Allow \<Rightarrow> enforce_plugin_policy env action url
      | Block \<Rightarrow> st_error (Blocked (rule_id_of decision))
      | RequireHumanApproval \<Rightarrow>
          st_bind (live_document_snapshot env) (\<lambda>current.
          st_bind next_tick (\<lambda>n.
          st_bind (\<lambda>s. map_approval (consume_granted_policy_approval (en_urls env) (en_sha env) (en_now_ms env n)
                     current (rule_id_of decision) (scope_of decision) action target_signature document s)) (\<lambda>granted.
            if granted then enforce_plugin_policy env action url
            else
              st_bind (live_document_snapshot env) (\<lambda>current.
              st_bind next_tick (\<lambda>m.
              st_bind (\<lambda>s. map_approval (set_pending_policy_approval_for_document (en_urls env) (en_sha env)
                         (en_uuid env m) current (approval_request decision action target_signature) document s)) (\<lambda>_.
              st_seq (audit (HitlEvent ''request''
                        (Some (''Requires human approval for rule '' @ rule_id_of decision)) None (now_u64 env m)))
                (st_error (HumanApprovalRequired (rule_id_of decision) (scope_of decision) (pd_outcome decision)))))))))) "

text \<open>\<open>enforce_policy\<close> from the captured state on: the second document read, the decision, its audit entry.\<close>

definition enforce_on_target ::
  "'re session_env \<Rightarrow> int option \<Rightarrow> string option \<Rightarrow> string \<Rightarrow> DocumentSnapshot \<Rightarrow> PageApprovalContext \<Rightarrow>
   SemanticState \<Rightarrow> node_ref option \<Rightarrow> ('re, unit) session_op" where
  "enforce_on_target env target_id stable_key action document reviewed captured target_node =
     st_bind (live_document_snapshot env) (\<lambda>read.
     st_bind (lift_approval (case read of Inl _ \<Rightarrow> Inl DocumentUnreadable | Inr d \<Rightarrow> Inr d)) (\<lambda>after_capture.
     st_bind (lift_approval (from_snapshot (en_urls env) (en_sha env) after_capture)) (\<lambda>after_context.
       if \<not> same_document reviewed after_context then st_error (ApprovalFailure DocumentChangedDuringCapture)
       else
         (let url = ds_url document;
              target_signature = policy_target_signature (map_option snd target_node) target_id stable_key
          in st_bind (st_get (\<lambda>s. evaluate (en_policy env) (pg_engine s)
                        (action_context url action (ss_root captured) target_node))) (\<lambda>decision.
             st_bind next_tick (\<lambda>n.
             st_seq (audit (AePolicyDecision (rule_id_of decision) action
                       (decision_text (pd_action decision)) None (now_u64 env n)))
               (apply_decision env decision action target_signature url document)))))))"

definition enforce_policy ::
  "'re session_env \<Rightarrow> int option \<Rightarrow> string option \<Rightarrow> string \<Rightarrow> ('re, unit) session_op" where
  "enforce_policy env target_id stable_key action =
     st_bind (live_document_snapshot env) (\<lambda>read.
     st_bind (lift_approval (case read of Inl _ \<Rightarrow> Inl DocumentUnreadable | Inr d \<Rightarrow> Inr d)) (\<lambda>document.
     st_bind (lift_approval (from_snapshot (en_urls env) (en_sha env) document)) (\<lambda>reviewed.
     st_bind (capture_state env Interactive) (\<lambda>captured.
       case resolve_policy_target_node (ss_root captured) target_id stable_key of
         Panic \<Rightarrow> st_error Panicked
       | Ret target_node \<Rightarrow>
           enforce_on_target env target_id stable_key action document reviewed captured target_node))))"

text \<open>\<open>set_policy_rules\<close>: an accepted rule set forgets every approval.\<close>

definition set_policy_rules ::
  "'re session_env \<Rightarrow> PolicyRule list \<Rightarrow> 're page_session \<Rightarrow> (PolicyError + unit) \<times> 're page_session" where
  "set_policy_rules env rules s =
     (case try_new (en_policy env) rules of
        Inl e \<Rightarrow> (Inl e, s)
      | Inr engine \<Rightarrow> (Inr (), s\<lparr>pg_engine := engine, se_approvals := default_approvals\<rparr>))"

section \<open>Enforcing the policy on a navigation\<close>

datatype NavigationPolicyFailure =
    NavBlocked string
  | NavHumanApprovalRequired string ApprovalScope "OutcomeProjection option"

text \<open>The reasons of plugins are not recorded for navigations.\<close>

definition strip_reason :: "AuditEvent \<Rightarrow> AuditEvent list" where
  "strip_reason ev = (case ev of PluginPolicyDecision plugin_id allowed reason timestamp \<Rightarrow>
     [PluginPolicyDecision plugin_id allowed None timestamp] | _ \<Rightarrow> [])"

definition run_navigation_plugins ::
  "'re session_env \<Rightarrow> u64 \<Rightarrow> string \<Rightarrow> ('re page_session, NavigationPolicyFailure, unit) stateful" where
  "run_navigation_plugins env ts url s =
     (case run_policy_hooks (en_from_str env) ts (en_intent_json env ''navigate'' url) (policy_plugins (pg_hooks s)) of
        (outcome, events) \<Rightarrow>
          (case outcome of HookAllow \<Rightarrow> Inr () | HookBlock plugin_id reason \<Rightarrow> Inl (NavBlocked (''plugin:'' @ plugin_id)),
           s\<lparr>se_audit := se_audit s @ concat (map strip_reason events)\<rparr>))"

definition evaluate_navigation_destination ::
  "'re session_env \<Rightarrow> int \<Rightarrow> u64 \<Rightarrow> uuid \<Rightarrow> string \<Rightarrow> string \<Rightarrow> string \<Rightarrow> string \<Rightarrow> bool \<Rightarrow>
   ('re page_session, NavigationPolicyFailure, unit) stateful" where
  "evaluate_navigation_destination env now_ms ts uuid approval_context_url canonical_url destination_digest
     approval_signature clear_pending_on_block s =
     (let decision = evaluate (en_policy env) (pg_engine s)
            \<lparr>pc_url = canonical_url, pc_action = ''navigate'', pc_target_role = None, pc_target_text = None,
             pc_surrounding_text = None\<rparr>;
          rule_id = rule_id_of decision;
          s1 = log_audit (AePolicyDecision rule_id ''navigate'' (decision_text (pd_action decision))
                 (Some (''sha256:'' @ destination_digest)) ts) s
      in case pd_action decision of
           Allow \<Rightarrow> run_navigation_plugins env ts canonical_url s1
         | Block \<Rightarrow>
             (Inl (NavBlocked rule_id),
              if clear_pending_on_block then s1\<lparr>se_approvals := (se_approvals s1)\<lparr>pas_pending := None\<rparr>\<rparr> else s1)
         | RequireHumanApproval \<Rightarrow>
             (case consume_navigation_approval (en_sha env) now_ms approval_context_url rule_id (scope_of decision)
                     approval_signature s1 of
                (True, s2) \<Rightarrow> run_navigation_plugins env ts canonical_url s2
              | (False, s2) \<Rightarrow>
                  (Inl (NavHumanApprovalRequired rule_id (scope_of decision) (pd_outcome decision)),
                   log_audit (HitlEvent ''request'' (Some (''Requires human approval for rule '' @ rule_id)) None ts)
                     (s2\<lparr>se_approvals := replace_pending uuid (se_approvals s2)
                          (approval_request decision ''navigate'' approval_signature) NavigationCapability\<rparr>))))"

section \<open>What enforcement leaves alone\<close>

text \<open>The configuration of the session and the calls made to the page; with the approvals, while the state is captured.\<close>

definition fixed_part where
  "fixed_part s = (pg_calls s, pg_engine s, pg_hooks s, pg_signatures s)"

definition quiet_part where
  "quiet_part s = (fixed_part s, se_approvals s)"

lemmas part_defs = fixed_part_def quiet_part_def

lemma keeps_quiet_fixed: "keeps quiet_part m \<Longrightarrow> keeps fixed_part m"
  by (simp add: keeps_def quiet_part_def)

lemma keeps_quiet [keeps_intros]:
  "keeps quiet_part next_tick"
  "keeps quiet_part (audit ev)"
  "keeps quiet_part (lift_approval r)"
  "keeps quiet_part (live_document_snapshot env)"
  "keeps quiet_part (replace_stable_key_index root)"
proof -
  show n: "keeps quiet_part next_tick" by (simp add: keeps_def next_tick_def part_defs)
  show "keeps quiet_part (audit ev)" by (simp add: keeps_def audit_def log_audit_def part_defs)
  show "keeps quiet_part (lift_approval r)"
    by (simp add: keeps_def lift_approval_def map_approval_def split: sum.splits)
  show "keeps quiet_part (live_document_snapshot env)"
    unfolding live_document_snapshot_def by (intro keeps_intros n) (simp add: part_defs)
  show "keeps quiet_part (replace_stable_key_index root)"
    unfolding replace_stable_key_index_def by (intro keeps_intros) (simp add: part_defs)
qed

lemma keeps_capture_raw [keeps_intros]: "keeps quiet_part (capture_raw env profile)"
  unfolding capture_raw_def by (intro keeps_intros) (auto split: sum.splits intro: keeps_intros)

lemma keeps_capture_state [keeps_intros]: "keeps quiet_part (capture_state env profile)"
  unfolding capture_state_def
  by (intro keeps_intros) (auto simp: part_defs split: prod.splits intro!: keeps_intros)

lemma keeps_plugin_policy [keeps_intros]: "keeps quiet_part (enforce_plugin_policy env action url)"
  unfolding enforce_plugin_policy_def
  by (intro keeps_intros) (auto simp: part_defs split: prod.splits PolicyHookOutcome.splits intro!: keeps_intros)

lemmas keeps_fixed [keeps_intros] =
  keeps_quiet [THEN keeps_quiet_fixed] keeps_capture_raw [THEN keeps_quiet_fixed]
  keeps_capture_state [THEN keeps_quiet_fixed] keeps_plugin_policy [THEN keeps_quiet_fixed]

lemma keeps_consume [keeps_intros]:
  "keeps fixed_part (\<lambda>s. map_approval (consume_granted_policy_approval env sha now rd r sc a sig doc s))"
  by (auto simp: keeps_def consume_granted_policy_approval_def map_approval_def part_defs Let_def
      split: sum.splits option.splits)

lemma keeps_set_pending [keeps_intros]:
  "keeps fixed_part (\<lambda>s. map_approval (set_pending_policy_approval_for_document env sha uuid rd req doc s))"
  by (auto simp: keeps_def set_pending_policy_approval_for_document_def map_approval_def part_defs
      split: sum.splits)

lemma keeps_apply_decision [keeps_intros]: "keeps fixed_part (apply_decision env d a sig url doc)"
  unfolding apply_decision_def
  by (cases "pd_action d") (auto intro!: keeps_intros)

lemma keeps_enforce_on_target [keeps_intros]: "keeps fixed_part (enforce_on_target env t k a doc reviewed cap tn)"
  unfolding enforce_on_target_def Let_def by (intro keeps_intros)

lemma keeps_enforce_policy [keeps_intros]: "keeps fixed_part (enforce_policy env t k a)"
  unfolding enforce_policy_def
  by (intro keeps_intros) (auto simp: Let_def split: call.splits intro!: keeps_intros)

section \<open>What a permitted action means\<close>

definition plugins_permit :: "'re session_env \<Rightarrow> string \<Rightarrow> string \<Rightarrow> 're page_session \<Rightarrow> bool" where
  "plugins_permit env action url s \<longleftrightarrow>
     (\<forall>p\<in>set (policy_plugins (pg_hooks s)). fst (plugin_verdict (en_from_str env) (en_intent_json env action url) p))"

lemma enforce_plugin_policy_ok:
  assumes "enforce_plugin_policy env action url s = (Inr u, s')"
  shows "plugins_permit env action url s"
proof (cases "policy_plugins (pg_hooks s) = []")
  case False
  then obtain ts e where "run_policy_hooks (en_from_str env) ts (en_intent_json env action url)
      (policy_plugins (pg_hooks s)) = (HookAllow, e)"
    using assms by (auto simp: enforce_plugin_policy_def st_bind_Inr_iff st_seq_Inr_iff next_tick_def
        split: prod.splits PolicyHookOutcome.splits)
  then show ?thesis unfolding plugins_permit_def by (metis fst_conv run_policy_hooks_allow_iff)
qed (simp add: plugins_permit_def)

definition page_grant :: "string \<Rightarrow> ApprovalScope \<Rightarrow> string \<Rightarrow> string \<Rightarrow> 'a approval_session_scheme \<Rightarrow> bool" where
  "page_grant rule_id scope action sig s \<longleftrightarrow>
     (\<exists>g\<in>set (pas_granted (se_approvals s)). gr_binding g \<noteq> NavigationCapability \<and>
        request_is rule_id scope action sig (gr_request g))"

lemma consume_granted_true:
  assumes "consume_granted_policy_approval env sha now rd rule_id scope action sig doc s = (Inr True, s')"
  shows "page_grant rule_id scope action sig s"
proof -
  obtain p i where i: "position (\<lambda>grant. gr_binding grant \<noteq> NavigationCapability \<and>
      request_is rule_id scope action sig (gr_request grant)) (filter p (pas_granted (se_approvals s))) = Some i"
    using assms by (auto simp: consume_granted_policy_approval_def Let_def split: sum.splits if_splits option.splits)
  let ?g = "filter p (pas_granted (se_approvals s)) ! i"
  from position_Some [OF i] have "?g \<in> set (pas_granted (se_approvals s))"
    by (metis (no_types, lifting) filter_is_subset nth_mem subsetD)
  with position_Some [OF i] show ?thesis by (auto simp: page_grant_def)
qed

lemma lift_approval_Inr_iff: "lift_approval r s = (Inr a, s') \<longleftrightarrow> r = Inr a \<and> s' = s"
  by (auto simp: lift_approval_def map_approval_def split: sum.splits)

lemma apply_decision_ok:
  assumes "apply_decision env d action sig url doc s = (Inr u, s')"
  shows "pd_action d \<noteq> Block" "plugins_permit env action url s"
    "pd_action d = RequireHumanApproval \<Longrightarrow> page_grant (rule_id_of d) (scope_of d) action sig s"
proof -
  show "pd_action d \<noteq> Block" using assms by (auto simp: apply_decision_def)
  have req: "plugins_permit env action url s \<and> page_grant (rule_id_of d) (scope_of d) action sig s"
    if r: "pd_action d = RequireHumanApproval"
  proof -
    obtain current n s1 s2 s3 where run: "live_document_snapshot env s = (Inr current, s1)" "next_tick s1 = (Inr n, s2)"
      "map_approval (consume_granted_policy_approval (en_urls env) (en_sha env) (en_now_ms env n) current
         (rule_id_of d) (scope_of d) action sig doc s2) = (Inr True, s3)"
      "enforce_plugin_policy env action url s3 = (Inr u, s')"
      using assms r by (auto simp: apply_decision_def st_bind_Inr_iff st_seq_Inr_iff split: if_splits)
    have "quiet_part s2 = quiet_part s"
      using keepsD [OF keeps_quiet(4) run(1)] keepsD [OF keeps_quiet(1) run(2)] by simp
    moreover have "page_grant (rule_id_of d) (scope_of d) action sig s2"
      using run(3) by (auto simp: map_approval_def split: prod.splits sum.splits intro: consume_granted_true)
    moreover have "fixed_part s3 = fixed_part s2" using keepsD [OF keeps_consume run(3)] .
    ultimately show ?thesis using enforce_plugin_policy_ok [OF run(4)]
      by (simp add: part_defs page_grant_def plugins_permit_def)
  qed
  show "pd_action d = RequireHumanApproval \<Longrightarrow> page_grant (rule_id_of d) (scope_of d) action sig s" using req by blast
  show "plugins_permit env action url s"
    using assms req enforce_plugin_policy_ok by (cases "pd_action d") (auto simp: apply_decision_def)
qed

text \<open>Whether the engine, the approvals and the plugins permit an action on what the policy saw.\<close>

definition permitted ::
  "'re session_env \<Rightarrow> DocumentSnapshot \<Rightarrow> SemanticState \<Rightarrow> int option \<Rightarrow> string option \<Rightarrow> string \<Rightarrow> 're page_session \<Rightarrow> bool" where
  "permitted env document captured t k action s \<longleftrightarrow>
     (\<exists>target. resolve_policy_target_node (ss_root captured) t k = Ret target \<and>
        (let d = evaluate (en_policy env) (pg_engine s)
               (action_context (ds_url document) action (ss_root captured) target)
         in pd_action d \<noteq> Block \<and>
            (pd_action d = RequireHumanApproval \<longrightarrow>
               page_grant (rule_id_of d) (scope_of d) action
                 (policy_target_signature (map_option snd target) t k) s) \<and>
            plugins_permit env action (ds_url document) s))"


subsection \<open>A page with a dangerous button\<close>

definition danger_rule :: PolicyRule where
  "danger_rule = \<lparr>pr_id = ''no-delete'', pr_domain = None, pr_path_prefix = None, pr_role = None,
     pr_text_regex = Some ''delete'', pr_context_regex = None, pr_action = Block, pr_scope = None,
     pr_outcome_projector = None\<rparr>"

definition danger_engine :: "string PolicyEngine" where
  "danger_engine = \<lparr>pe_rules = [danger_rule], pe_compiled_rules =
     [\<lparr>cr_raw = danger_rule, cr_text_regex = Some ''delete'', cr_context_regex = None, cr_amount_regex = None\<rparr>]\<rparr>"

lemma danger_engine_loads: "try_new literal_env [danger_rule] = Inr danger_engine"
  by code_simp

definition danger_page :: SemanticNode where
  "danger_page = leaf ''button'' ''Delete account'' (Some ''k'') 5"

text \<open>An environment that always shows the dangerous page; a tree is serialized as its label.\<close>

definition demo_env :: "string session_env" where
  "demo_env = \<lparr>en_policy = literal_env, en_urls = plain_urls, en_sha = (\<lambda>s. s), en_from_str = yes_no_parser,
     en_intent_json = (\<lambda>a u. a @ u), en_node_to_string = (\<lambda>n. Inr (the (sn_label n))),
     en_from_str_node = (\<lambda>s. Inr (leaf ''button'' s (Some ''k'') 5)), en_document = (\<lambda>_. Inr shop_page),
     en_observed = (\<lambda>_. shop_page), en_dom = (\<lambda>_ _. Inr danger_page), en_now_ms = int, en_uuid = (\<lambda>n. n),
     en_uuid_text = (\<lambda>_. ''u''), en_browser = (\<lambda>_ _. Inr ()),
     en_text = (\<lambda>_ _. Inr ''Delete account''), en_bbox = (\<lambda>_ _. Inr None), en_screenshot = (\<lambda>_. Inr []),
     en_recovery_text = (\<lambda>k n. k)\<rparr>"

definition demo_session :: "StatePlugin list \<Rightarrow> string PolicyEngine \<Rightarrow> string page_session" where
  "demo_session plugins engine = \<lparr>se_document = shop_page, se_approvals = default_approvals, se_navigation_epoch = 0,
     se_audit = [], pg_engine = engine, pg_hooks = \<lparr>state_plugins = plugins, policy_plugins = []\<rparr>,
     pg_index = Map.empty, pg_cache = None, pg_signatures = Map.empty, pg_action_logs = [],
     pg_state_updates = [], pg_generation_count = 0, pg_last_capture = None, pg_calls = [], pg_clock = 0\<rparr>"


text \<open>A state plugin that relabels the button.\<close>

definition relabel_plugin :: StatePlugin where
  "relabel_plugin = \<lparr>sp_plugin_id = ''relabel'', sp_on_state = (\<lambda>_. Inr ''Continue'')\<rparr>"

text \<open>
  A state plugin decides what the policy sees. The comment in \<open>capture_state\<close> says plugins
  cannot influence policy decisions, but the state it returns, on which \<open>enforce_policy\<close>
  evaluates the rules, is the transformed one: on a page whose only button the rules block by its
  text, the action is blocked without the plugin and passes with it, although the raw state is
  kept in the capture cache in both cases.
\<close>

theorem state_plugin_lifts_block:
  "fst (enforce_policy demo_env (Some 5) None ''click'' (demo_session [] danger_engine)) = Inl (Blocked ''no-delete'') \<and>
   fst (enforce_policy demo_env (Some 5) None ''click'' (demo_session [relabel_plugin] danger_engine)) = Inr () \<and>
   map_option (ss_root o snd)
     (pg_cache (snd (enforce_policy demo_env (Some 5) None ''click'' (demo_session [relabel_plugin] danger_engine)))) =
     Some danger_page"
  by code_simp

section \<open>Navigation\<close>

definition navigation_grant :: "string \<Rightarrow> ApprovalScope \<Rightarrow> string \<Rightarrow> 'a approval_session_scheme \<Rightarrow> bool" where
  "navigation_grant rule_id scope sig s \<longleftrightarrow>
     (\<exists>g\<in>set (pas_granted (se_approvals s)). gr_binding g = NavigationCapability \<and>
        request_is rule_id scope ''navigate'' sig (gr_request g))"

definition without_reason :: "AuditEvent \<Rightarrow> bool" where
  "without_reason ev = (case ev of PluginPolicyDecision _ _ reason _ \<Rightarrow> reason = None | _ \<Rightarrow> True)"

lemma strip_reason_without: "list_all without_reason (concat (map strip_reason events))"
  by (auto simp: list_all_iff strip_reason_def without_reason_def split: AuditEvent.splits)

lemma run_navigation_plugins_props:
  assumes "run_navigation_plugins env ts url s = (r, s')"
  shows "r = Inr () \<Longrightarrow> plugins_permit env ''navigate'' url s"
    and "\<exists>new. se_audit s' = se_audit s @ new \<and> list_all without_reason new"
proof -
  show "plugins_permit env ''navigate'' url s" if "r = Inr ()"
    using assms that unfolding plugins_permit_def run_policy_hooks_allow_iff [symmetric, where ts = ts]
    by (auto simp: run_navigation_plugins_def split: prod.splits PolicyHookOutcome.splits)
  show "\<exists>new. se_audit s' = se_audit s @ new \<and> list_all without_reason new"
    using assms strip_reason_without by (fastforce simp: run_navigation_plugins_def split: prod.splits)
qed

lemma consume_navigation_props:
  assumes "consume_navigation_approval sha now url rule_id scope sig s = (r, s')"
  shows "r \<Longrightarrow> navigation_grant rule_id scope sig s" and "se_audit s' = se_audit s"
proof -
  show "se_audit s' = se_audit s"
    using assms by (auto simp: consume_navigation_approval_def Let_def split: option.splits)
  show "navigation_grant rule_id scope sig s" if r
  proof -
    note r = that
    obtain p i where i: "position (\<lambda>grant. gr_binding grant = NavigationCapability \<and>
        request_is rule_id scope ''navigate'' sig (gr_request grant)) (filter p (pas_granted (se_approvals s))) = Some i"
      using assms r by (auto simp: consume_navigation_approval_def Let_def split: option.splits)
    let ?g = "filter p (pas_granted (se_approvals s)) ! i"
    from position_Some [OF i] have "?g \<in> set (pas_granted (se_approvals s))"
      by (metis (no_types, lifting) filter_is_subset nth_mem subsetD)
    with position_Some [OF i] show ?thesis by (auto simp: navigation_grant_def)
  qed
qed

text \<open>
  C6: a navigation passes only if it is permitted, and its audit never holds a plugin's reason.
  \<open>evaluate_navigation_destination\<close> succeeds only if the engine does not block the destination,
  a required approval was granted to exactly this rule, scope and signature as a navigation, and
  every policy plugin allowed it; and every event it records names no reason given by a plugin.
\<close>

theorem navigation_permitted:
  assumes "evaluate_navigation_destination env now ts uuid ctx_url url digest sig clear s = (r, s')"
  shows "(r = Inr () \<longrightarrow>
      (let d = evaluate (en_policy env) (pg_engine s)
             \<lparr>pc_url = url, pc_action = ''navigate'', pc_target_role = None, pc_target_text = None, pc_surrounding_text = None\<rparr>
       in pd_action d \<noteq> Block \<and>
          (pd_action d = RequireHumanApproval \<longrightarrow> navigation_grant (rule_id_of d) (scope_of d) sig s) \<and>
          plugins_permit env ''navigate'' url s)) \<and>
    (\<exists>new. se_audit s' = se_audit s @ new \<and> list_all without_reason new)"
proof -
  define d where "d = evaluate (en_policy env) (pg_engine s)
      \<lparr>pc_url = url, pc_action = ''navigate'', pc_target_role = None, pc_target_text = None, pc_surrounding_text = None\<rparr>"
  define s1 where "s1 = log_audit (AePolicyDecision (rule_id_of d) ''navigate'' (decision_text (pd_action d))
      (Some (''sha256:'' @ digest)) ts) s"
  have s1: "se_approvals s1 = se_approvals s" "pg_hooks s1 = pg_hooks s" "\<exists>e. se_audit s1 = se_audit s @ [e] \<and> without_reason e"
    by (simp_all add: s1_def log_audit_def without_reason_def)
  obtain ok s2 where c: "consume_navigation_approval (en_sha env) now ctx_url (rule_id_of d) (scope_of d) sig s1 = (ok, s2)"
    by force
  have hooks: "pg_hooks s2 = pg_hooks s1"
    using c by (auto simp: consume_navigation_approval_def Let_def split: option.splits)
  note c' = consume_navigation_props [OF c]
  have ng: "navigation_grant a b e s1 = navigation_grant a b e s" for a b e by (simp add: navigation_grant_def s1)
  have pp: "plugins_permit env ''navigate'' url s2 = plugins_permit env ''navigate'' url s"
    "plugins_permit env ''navigate'' url s1 = plugins_permit env ''navigate'' url s"
    by (simp_all add: plugins_permit_def hooks s1)
  note eq = assms [unfolded evaluate_navigation_destination_def Let_def, folded d_def, folded s1_def, unfolded c]
  show ?thesis unfolding d_def [symmetric] Let_def
  proof (cases "pd_action d")
    case Allow
    then have "run_navigation_plugins env ts url s1 = (r, s')" using eq by simp
    from run_navigation_plugins_props [OF this] s1(3) Allow show "(r = Inr () \<longrightarrow> pd_action d \<noteq> Block \<and>
        (pd_action d = RequireHumanApproval \<longrightarrow> navigation_grant (rule_id_of d) (scope_of d) sig s) \<and>
        plugins_permit env ''navigate'' url s) \<and> (\<exists>new. se_audit s' = se_audit s @ new \<and> list_all without_reason new)"
      by (auto simp: pp)
  next
    case Block
    then have "r = Inl (NavBlocked (rule_id_of d))" "se_audit s' = se_audit s1" using eq by (auto split: if_splits)
    then show "(r = Inr () \<longrightarrow> pd_action d \<noteq> Block \<and>
        (pd_action d = RequireHumanApproval \<longrightarrow> navigation_grant (rule_id_of d) (scope_of d) sig s) \<and>
        plugins_permit env ''navigate'' url s) \<and> (\<exists>new. se_audit s' = se_audit s @ new \<and> list_all without_reason new)"
      using s1(3) by auto
  next
    case RequireHumanApproval
    show "(r = Inr () \<longrightarrow> pd_action d \<noteq> Block \<and>
        (pd_action d = RequireHumanApproval \<longrightarrow> navigation_grant (rule_id_of d) (scope_of d) sig s) \<and>
        plugins_permit env ''navigate'' url s) \<and> (\<exists>new. se_audit s' = se_audit s @ new \<and> list_all without_reason new)"
    proof (cases ok)
      case True
      then have "run_navigation_plugins env ts url s2 = (r, s')" using eq RequireHumanApproval by simp
      from run_navigation_plugins_props [OF this] s1(3) c' True RequireHumanApproval show ?thesis
        by (auto simp: pp ng)
    next
      case False
      then have "r \<noteq> Inr ()" "\<exists>e. se_audit s' = se_audit s2 @ [e] \<and> without_reason e"
        using eq RequireHumanApproval by (auto simp: log_audit_def without_reason_def)
      then show ?thesis using s1(3) c'(2) by auto
    qed
  qed
qed

theorem navigation_permitted_witness:
  "plugins_permit demo_env ''navigate'' ''https://shop/'' (demo_session [] empty_engine)"
proof -
  let ?run = "evaluate_navigation_destination demo_env 0 0 1 [] ''https://shop/'' ''d'' ''d'' False (demo_session [] empty_engine)"
  have "fst ?run = Inr ()" by code_simp
  then obtain s' where "?run = (Inr (), s')" by (metis prod.collapse)
  from navigation_permitted [OF this] show ?thesis by (simp add: Let_def)
qed

end
