(* ===== verification/Act.thy ===== *)
theory Act
  imports Enforce
begin

text \<open>
  Actions of a page session: \<open>browser/act.rs\<close> (\<open>act\<close> with its fallbacks, \<open>verify_text\<close>, self-healing
  recovery), the action log of \<open>browser/audit.rs\<close> and the visual capture of \<open>browser/visual.rs\<close>.
  The calls that reach the page are recorded in \<open>pg_calls\<close>.
\<close>

section \<open>The action log\<close>

definition ACTION_LOG_BUFFER_LIMIT :: nat where
  "ACTION_LOG_BUFFER_LIMIT = 256"

definition push_action_log :: "ActionLogEntry list \<Rightarrow> ActionLogEntry \<Rightarrow> ActionLogEntry list" where
  "push_action_log logs entry = pop_front_while_over ACTION_LOG_BUFFER_LIMIT (logs @ [entry])"

interpretation action_log: bounded_log push_action_log ACTION_LOG_BUFFER_LIMIT
  by unfold_locales
    (simp_all add: push_action_log_def ACTION_LOG_BUFFER_LIMIT_def push_pop_front_room push_pop_front_full)

definition record_action_log ::
  "'re session_env \<Rightarrow> string \<Rightarrow> string \<Rightarrow> string \<Rightarrow> int option \<Rightarrow> string option \<Rightarrow> string \<Rightarrow> ('re, unit) session_op" where
  "record_action_log env level code action target_id stable_key message =
     st_bind next_tick (\<lambda>n. st_modify (\<lambda>s. s\<lparr>pg_action_logs := push_action_log (pg_action_logs s)
       \<lparr>le_level = level, le_code = code, le_action = action, le_target_id = target_id,
        le_stable_key = stable_key, le_message = message, le_timestamp = now_u64 env n\<rparr>\<rparr>))"

section \<open>Visual capture\<close>

fun collect_som_marks :: "'re session_env \<Rightarrow> SemanticNode \<Rightarrow> SomMark list \<Rightarrow> ('re, SomMark list) session_op"
and collect_som_marks_in :: "'re session_env \<Rightarrow> SemanticNode list \<Rightarrow> SomMark list \<Rightarrow> ('re, SomMark list) session_op" where
  "collect_som_marks env (SemanticNode r l ch a k am al i f) out =
     (if 0 < i \<and> k \<noteq> None then
        st_bind next_tick (\<lambda>n.
          collect_som_marks_in env ch
            (case en_bbox env n i of
               Inr (Some bbox) \<Rightarrow> out @ [\<lparr>sm_id = i, sm_stable_key = k, sm_bbox = bbox\<rparr>]
             | _ \<Rightarrow> out))
      else collect_som_marks_in env ch out)"
| "collect_som_marks_in env [] out = st_return out"
| "collect_som_marks_in env (child # children) out =
     st_bind (collect_som_marks env child out) (collect_som_marks_in env children)"

definition trigger_text :: "SomTrigger \<Rightarrow> string" where
  "trigger_text trigger = (case trigger of GetVisual \<Rightarrow> ''get_visual'' | ActAmbiguous \<Rightarrow> ''act_ambiguous''
     | VerifyFailed \<Rightarrow> ''verify_failed'')"

definition store_som_capture :: "VisualCaptureRecord \<Rightarrow> ('re, unit) session_op" where
  "store_som_capture capture = st_modify (\<lambda>s. s\<lparr>pg_generation_count := pg_generation_count s + 1,
     pg_last_capture := Some capture\<rparr>)"

definition capture_som :: "'re session_env \<Rightarrow> SomTrigger \<Rightarrow> ('re, VisualCaptureRecord) session_op" where
  "capture_som env trigger =
     st_bind next_tick (\<lambda>n.
       case en_dom env n Visual of
         Inl e \<Rightarrow> st_error (BrowserFailure e)
       | Inr semantic_root \<Rightarrow>
           st_bind (collect_som_marks env semantic_root []) (\<lambda>marks.
           st_bind next_tick (\<lambda>m.
             case en_screenshot env m of
               Inl e \<Rightarrow> st_error (BrowserFailure (''Failed to capture SoM screenshot'' # e))
             | Inr image_png \<Rightarrow>
                 (let capture = \<lparr>vc_trigger = trigger, vc_marks = marks, vc_image_png = image_png\<rparr>
                  in st_seq (audit (VisualCapture (trigger_text trigger) (length marks) (now_u64 env m)))
                    (st_seq (store_som_capture capture) (st_return capture))))))"

definition trigger_som_capture_best_effort :: "'re session_env \<Rightarrow> SomTrigger \<Rightarrow> ('re, unit) session_op" where
  "trigger_som_capture_best_effort env trigger s = (Inr (), snd (capture_som env trigger s))"

section \<open>Performing an action\<close>

definition browser_call :: "'re session_env \<Rightarrow> browser_call \<Rightarrow> string list \<Rightarrow> ('re, unit) session_op" where
  "browser_call env call context =
     st_bind next_tick (\<lambda>n.
     st_seq (st_modify (\<lambda>s. s\<lparr>pg_calls := pg_calls s @ [call]\<rparr>))
       (case en_browser env n call of
          Inl e \<Rightarrow> st_error (BrowserFailure (context @ e))
        | Inr _ \<Rightarrow> st_return ()))"

definition resolve_node_object_id :: "'re session_env \<Rightarrow> int \<Rightarrow> ('re, unit) session_op" where
  "resolve_node_object_id env backend_node_id =
     (if backend_node_id < 0 \<or> 2 ^ 32 \<le> backend_node_id
      then st_error (BrowserFailure [''Invalid backend_node_id: must fit in u32''])
      else browser_call env (ResolveNode backend_node_id) [''Failed to resolve node''])"

definition perform_action_by_id ::
  "'re session_env \<Rightarrow> int \<Rightarrow> string \<Rightarrow> string option \<Rightarrow> ('re, unit) session_op" where
  "perform_action_by_id env backend_node_id action value =
     st_seq (resolve_node_object_id env backend_node_id)
       (if action = ''click'' then browser_call env (ClickNode backend_node_id) []
        else if action = ''type'' then
          (case value of
             None \<Rightarrow> st_error (BrowserFailure [''Value is required for type action''])
           | Some txt \<Rightarrow> st_seq (browser_call env (FocusNode backend_node_id) []) (browser_call env (TypeStr txt) []))
        else st_error (BrowserFailure [''Unsupported action: '' @ action]))"

section \<open>Self-healing recovery\<close>

fun collect_live_nodes :: "SemanticNode \<Rightarrow> SemanticNode list \<Rightarrow> SemanticNode list"
and collect_live_nodes_in :: "SemanticNode list \<Rightarrow> SemanticNode list \<Rightarrow> SemanticNode list" where
  "collect_live_nodes (SemanticNode r l ch a k am al i f) out =
     collect_live_nodes_in ch (if i \<noteq> 0 then out @ [SemanticNode r l ch a k am al i f] else out)"
| "collect_live_nodes_in [] out = out"
| "collect_live_nodes_in (child # children) out = collect_live_nodes_in children (collect_live_nodes child out)"

definition collect_interactive_nodes :: "SemanticNode \<Rightarrow> SemanticNode list" where
  "collect_interactive_nodes root = collect_live_nodes root []"

definition last_state :: "'re page_session \<Rightarrow> SemanticState option" where
  "last_state s = map_option snd (pg_cache s)"

definition record_dom_signature_for_node_id :: "string \<Rightarrow> int \<Rightarrow> ('re, unit) session_op" where
  "record_dom_signature_for_node_id stable_key backend_node_id =
     st_modify (\<lambda>s. case last_state s of
       None \<Rightarrow> s
     | Some state \<Rightarrow>
         (case find_node_by_id [] (ss_root state) backend_node_id of
            None \<Rightarrow> s
          | Some node \<Rightarrow> s\<lparr>pg_signatures := record_signature (pg_signatures s) stable_key (snd node)\<rparr>))"

definition best_live_match :: "string \<Rightarrow> 're page_session \<Rightarrow> SemanticNode option" where
  "best_live_match stable_key s = Option.bind (last_state s) (\<lambda>state.
     find_best_match (pg_signatures s) stable_key (collect_interactive_nodes (ss_root state)))"

definition try_self_healing_recovery :: "'re session_env \<Rightarrow> string \<Rightarrow> ('re, int option) session_op" where
  "try_self_healing_recovery env stable_key =
     st_bind (st_get (best_live_match stable_key)) (\<lambda>m.
       case m of
         None \<Rightarrow> st_return None
       | Some matched \<Rightarrow>
           if sn_id matched = 0 then st_return None
           else
             st_seq (st_modify (\<lambda>s. s\<lparr>pg_signatures := record_signature (pg_signatures s) stable_key matched\<rparr>))
             (st_seq (record_action_log env ''warning'' ''self_healing_recovered'' ''self_healing'' None (Some stable_key)
                 (en_recovery_text env stable_key matched))
               (st_return (Some (sn_id matched)))))"

section \<open>The act tool\<close>

definition NODE_ERROR_MARKERS :: "string list" where
  "NODE_ERROR_MARKERS = [''could not find node'', ''no node with given id'', ''could not find object with given id'',
     ''no object with given id'', ''node does not exist'']"

definition is_node_error :: "'re session_env \<Rightarrow> act_error \<Rightarrow> bool" where
  "is_node_error env e = (case e of BrowserFailure chain \<Rightarrow>
     error_chain_contains_any (env_lower (en_policy env)) chain NODE_ERROR_MARKERS | _ \<Rightarrow> False)"

definition fail_unresolved_act ::
  "'re session_env \<Rightarrow> string \<Rightarrow> int option \<Rightarrow> string option \<Rightarrow> string \<Rightarrow> ('re, 'a) session_op" where
  "fail_unresolved_act env action target_id stable_key detail =
     st_seq (record_action_log env ''error'' ''verify_required'' action target_id stable_key detail)
    (st_seq (trigger_som_capture_best_effort env ActAmbiguous)
       (st_error VerifyRequired))"

datatype control_flow = Break | Continue

text \<open>\<open>Break\<close> with an error is the error; \<open>Continue\<close> asks for the fallback by stable key.\<close>

definition act_by_target_id ::
  "'re session_env \<Rightarrow> int \<Rightarrow> string option \<Rightarrow> string \<Rightarrow> string option \<Rightarrow> ('re, control_flow) session_op" where
  "act_by_target_id env bid stable_key action value s =
     (case perform_action_by_id env bid action value s of
        (Inr _, s') \<Rightarrow>
          (case stable_key of
             None \<Rightarrow> (Inr Break, s')
           | Some key \<Rightarrow> st_seq (record_dom_signature_for_node_id key bid) (st_return Break) s')
      | (Inl e, s') \<Rightarrow>
          if \<not> is_node_error env e then (Inl e, s')
          else if stable_key = None then
            fail_unresolved_act env action (Some bid) stable_key
              ''target_id lookup failed and no stable_key was provided'' s'
          else (Inr Continue, s'))"

definition act_by_stable_key ::
  "'re session_env \<Rightarrow> string \<Rightarrow> int option \<Rightarrow> string \<Rightarrow> string option \<Rightarrow> ('re, unit) session_op" where
  "act_by_stable_key env key target_id action value =
     st_bind (capture_state env Interactive) (\<lambda>_.
     st_bind (st_get (\<lambda>s. lookup_backend_node_id_by_stable_key (pg_index s) key)) (\<lambda>found.
       case found of
         Some new_id \<Rightarrow>
           st_seq (record_action_log env ''warning'' ''stable_key_fallback_recovered'' action target_id (Some key)
               (''Action recovered via stable key: '' @ key @ '' -> new_id: '' @ show_int new_id))
          (st_seq (record_dom_signature_for_node_id key new_id)
             (perform_action_by_id env new_id action value))
       | None \<Rightarrow>
           st_bind (try_self_healing_recovery env key) (\<lambda>recovered.
             case recovered of
               Some recovered_id \<Rightarrow>
                 st_seq (enforce_policy env (Some recovered_id) (Some key) action)
                   (perform_action_by_id env recovered_id action value)
             | None \<Rightarrow>
                 st_seq (record_action_log env ''error'' ''ask_human_required'' action target_id (Some key)
                     (''Self-healing recovery failed for stable_key='' @ key @ ''; human intervention required''))
                (st_seq (trigger_som_capture_best_effort env ActAmbiguous)
                   (st_error AskHumanRequired)))))"

definition json_opt :: "('a \<Rightarrow> Json) \<Rightarrow> 'a option \<Rightarrow> Json" where
  "json_opt f v = (case v of None \<Rightarrow> JNull | Some x \<Rightarrow> f x)"

definition act_args :: "int option \<Rightarrow> string option \<Rightarrow> string \<Rightarrow> string option \<Rightarrow> Json" where
  "act_args target_id stable_key action value =
     JObject [(''target_id'', json_opt (JNumber o show_int) target_id), (''stable_key'', json_opt JString stable_key),
       (''action'', JString action), (''value'', json_opt JString value)]"

definition act_inner ::
  "'re session_env \<Rightarrow> int option \<Rightarrow> string option \<Rightarrow> string \<Rightarrow> string option \<Rightarrow> ('re, unit) session_op" where
  "act_inner env target_id stable_key action value =
     st_bind next_tick (\<lambda>n.
     st_seq (audit (ToolCall ''act'' (act_args target_id stable_key action value) (now_u64 env n)))
    (st_seq (enforce_policy env target_id stable_key action)
       (st_bind (case target_id of
                   None \<Rightarrow> st_return Continue
                 | Some bid \<Rightarrow> act_by_target_id env bid stable_key action value) (\<lambda>flow.
          case flow of
            Break \<Rightarrow> st_return ()
          | Continue \<Rightarrow>
              (case stable_key of
                 Some key \<Rightarrow> act_by_stable_key env key target_id action value
               | None \<Rightarrow> fail_unresolved_act env action target_id stable_key
                   ''neither target_id nor stable_key resolved a target'')))))"

section \<open>What reaches the page\<close>

text \<open>The nodes a list of calls acts on.\<close>

definition acted_on :: "browser_call list \<Rightarrow> int set" where
  "acted_on calls = {i. ClickNode i \<in> set calls \<or> FocusNode i \<in> set calls}"

lemma acted_on_simps [simp]:
  "acted_on [] = {}" "acted_on (xs @ ys) = acted_on xs \<union> acted_on ys"
  "acted_on [ResolveNode i] = {}" "acted_on [ClickNode i] = {i}" "acted_on [FocusNode i] = {i}" "acted_on [TypeStr x] = {}"
  by (auto simp: acted_on_def)

text \<open>An operation that only appends calls, and acts on nodes of a set only.\<close>

definition touches :: "int set \<Rightarrow> ('re, 'a) session_op \<Rightarrow> bool" where
  "touches I m \<longleftrightarrow> (\<forall>s. \<exists>new. pg_calls (snd (m s)) = pg_calls s @ new \<and> acted_on new \<subseteq> I)"

lemma touchesD: "touches I m \<Longrightarrow> m s = (r, s') \<Longrightarrow> \<exists>new. pg_calls s' = pg_calls s @ new \<and> acted_on new \<subseteq> I"
  by (metis touches_def snd_conv)

lemma touches_bind: "touches I m \<Longrightarrow> (\<And>a. touches I (f a)) \<Longrightarrow> touches I (st_bind m f)"
proof -
  assume m: "touches I m" and f: "\<And>a. touches I (f a)"
  show "touches I (st_bind m f)" unfolding touches_def
  proof
    fix s
    obtain r s1 where r: "m s = (r, s1)" by force
    from touchesD [OF m r] obtain n1 where n1: "pg_calls s1 = pg_calls s @ n1" "acted_on n1 \<subseteq> I" by blast
    show "\<exists>new. pg_calls (snd (st_bind m f s)) = pg_calls s @ new \<and> acted_on new \<subseteq> I"
    proof (cases r)
      case (Inr a)
      obtain n2 where "pg_calls (snd (f a s1)) = pg_calls s1 @ n2" "acted_on n2 \<subseteq> I"
        using f [of a] unfolding touches_def by blast
      then show ?thesis using n1 r Inr by (intro exI [of _ "n1 @ n2"]) (simp add: st_bind_def)
    qed (use n1 r in \<open>auto simp: st_bind_def\<close>)
  qed
qed

lemma touches_seq: "touches I m \<Longrightarrow> touches I k \<Longrightarrow> touches I (st_seq m k)"
  unfolding st_seq_def by (rule touches_bind)

lemma touches_basic: "touches I (st_return a)" "touches I (st_error e)"
  by (simp_all add: touches_def)

lemma touches_browser_call: "acted_on [call] \<subseteq> I \<Longrightarrow> touches I (browser_call env call ctx)"
  unfolding browser_call_def touches_def st_bind_def st_seq_def next_tick_def
  by (auto split: sum.splits)

lemma touches_perform: "touches {i} (perform_action_by_id env i action value)"
  unfolding perform_action_by_id_def resolve_node_object_id_def
  by (auto intro!: touches_seq touches_basic touches_browser_call split: option.splits)

lemma keeps_calls: "keeps fixed_part m \<Longrightarrow> keeps pg_calls m"
  by (simp add: keeps_def part_defs)

lemma keeps_marks [keeps_intros]:
  "keeps fixed_part (collect_som_marks env n out)"
  "keeps fixed_part (collect_som_marks_in env ns out)"
  by (induction env n out and env ns out rule: collect_som_marks_collect_som_marks_in.induct)
    (auto intro!: keeps_intros)

lemma keeps_calls_ops [keeps_intros]:
  "keeps fixed_part (record_action_log env level code action t k msg)"
  "keeps fixed_part (capture_som env trigger)"
  "keeps fixed_part (trigger_som_capture_best_effort env trigger)"
  "keeps pg_calls (record_dom_signature_for_node_id key i)"
proof -
  show "keeps fixed_part (record_action_log env level code action t k msg)"
    unfolding record_action_log_def by (intro keeps_intros) (simp add: part_defs)
  show c: "keeps fixed_part (capture_som env trigger)"
    unfolding capture_som_def store_som_capture_def Let_def
    by (intro keeps_intros) (auto simp: part_defs split: sum.splits intro!: keeps_intros)
  show "keeps fixed_part (trigger_som_capture_best_effort env trigger)"
    using c by (simp add: keeps_def trigger_som_capture_best_effort_def)
  show "keeps pg_calls (record_dom_signature_for_node_id key i)"
    by (simp add: keeps_def record_dom_signature_for_node_id_def split: option.splits)
qed

lemma keeps_try_recovery [keeps_intros]: "keeps pg_calls (try_self_healing_recovery env key)"
  unfolding try_self_healing_recovery_def
  by (intro keeps_intros)
    (auto split: option.splits intro!: keeps_intros keeps_calls_ops(1) [THEN keeps_calls])

lemma keeps_fail_unresolved [keeps_intros]: "keeps fixed_part (fail_unresolved_act env action t k d)"
  unfolding fail_unresolved_act_def by (intro keeps_intros)

lemma touches_act_by_target_id: "touches {i} (act_by_target_id env i key action value)"
  unfolding touches_def
proof
  fix s
  obtain r s1 where p: "perform_action_by_id env i action value s = (r, s1)" by force
  from touchesD [OF touches_perform p]
  obtain new where new: "pg_calls s1 = pg_calls s @ new" "acted_on new \<subseteq> {i}" by blast
  have "pg_calls (snd (act_by_target_id env i key action value s)) = pg_calls s1"
  proof (cases r)
    case (Inl e)
    then show ?thesis using keeps_fail_unresolved [THEN keeps_calls, of env action "Some i" key]
      by (auto simp: act_by_target_id_def p keeps_def)
  next
    case (Inr u)
    have "keeps pg_calls (st_seq (record_dom_signature_for_node_id x i) (st_return Break))" for x
      by (intro keeps_intros)
    then have "pg_calls (snd (st_seq (record_dom_signature_for_node_id x i) (st_return Break) s1)) = pg_calls s1" for x
      unfolding keeps_def by blast
    then show ?thesis using Inr by (cases key) (auto simp: act_by_target_id_def p)
  qed
  then show "\<exists>new. pg_calls (snd (act_by_target_id env i key action value s)) = pg_calls s @ new \<and> acted_on new \<subseteq> {i}"
    using new by auto
qed

lemma bind_next_tick: "st_bind next_tick f s = f (pg_clock s) (s\<lparr>pg_clock := Suc (pg_clock s)\<rparr>)"
  by (simp add: st_bind_def next_tick_def)

lemma seq_audit: "st_seq (audit ev) m s = m (log_audit ev s)"
  by (simp add: st_seq_def st_bind_def audit_def)

text \<open>Where the fallback may act: the node the refreshed index gives, or a recovered node the policy was enforced on.\<close>

definition fallback_target :: "'re session_env \<Rightarrow> string \<Rightarrow> string \<Rightarrow> int \<Rightarrow> bool" where
  "fallback_target env key action i \<longleftrightarrow>
     (\<exists>s1 captured s2. capture_state env Interactive s1 = (Inr captured, s2) \<and>
        lookup_backend_node_id_by_stable_key (pg_index s2) key = Some i) \<or>
     (\<exists>s1 s2. enforce_policy env (Some i) (Some key) action s1 = (Inr (), s2))"

lemma act_by_stable_key_calls:
  assumes "act_by_stable_key env key t action value s = (r, s')"
  shows "\<exists>new. pg_calls s' = pg_calls s @ new \<and> (\<forall>i\<in>acted_on new. fallback_target env key action i)"
proof -
  have quiet: "\<exists>new. pg_calls s' = pg_calls s @ new \<and> (\<forall>i\<in>acted_on new. fallback_target env key action i)"
    if "pg_calls s' = pg_calls s" using that by (intro exI [of _ "[]"]) simp
  from assms show ?thesis
    unfolding act_by_stable_key_def
  proof (cases rule: st_bind_cases)
    case (err e)
    then show ?thesis using keepsD [OF keeps_capture_state err(1)] by (intro quiet) (auto simp: part_defs)
  next
    case (ok captured s1)
    have c1: "pg_calls s1 = pg_calls s" using keepsD [OF keeps_capture_state ok(1)] by (simp add: part_defs)
    show ?thesis
    proof (cases "lookup_backend_node_id_by_stable_key (pg_index s1) key")
      case (Some i)
      let ?m = "st_seq (record_action_log env ''warning'' ''stable_key_fallback_recovered'' action t (Some key)
               (''Action recovered via stable key: '' @ key @ '' -> new_id: '' @ show_int i))
          (st_seq (record_dom_signature_for_node_id key i) (perform_action_by_id env i action value))"
      have quiet_touch: "touches {i} m" if "keeps pg_calls m" for m :: "('a, 'c) session_op"
        using that unfolding touches_def keeps_def by (intro allI exI [of _ "[]"]) simp
      have "touches {i} ?m"
        by (intro touches_seq touches_perform quiet_touch keeps_calls keeps_calls_ops)
      moreover have "?m s1 = (r, s')" using ok(2) Some by (simp add: st_bind_def)
      ultimately obtain new where "pg_calls s' = pg_calls s1 @ new" "acted_on new \<subseteq> {i}"
        using touchesD by blast
      moreover have "fallback_target env key action i" using ok(1) Some by (auto simp: fallback_target_def)
      ultimately show ?thesis using c1 by auto
    next
      case None
      obtain rec s2 where rec: "try_self_healing_recovery env key s1 = (rec, s2)" by force
      have c2: "pg_calls s2 = pg_calls s" using keepsD [OF keeps_try_recovery rec] c1 by simp
      show ?thesis
      proof (cases "\<exists>i. rec = Inr (Some i)")
        case True
        then obtain i where i: "rec = Inr (Some i)" by blast
        obtain er s3 where enf: "enforce_policy env (Some i) (Some key) action s2 = (er, s3)" by force
        have c3: "pg_calls s3 = pg_calls s" using keepsD [OF keeps_enforce_policy enf] c2 by (simp add: part_defs)
        show ?thesis
        proof (cases er)
          case (Inl e)
          then show ?thesis using ok(2) None rec i enf c3 by (intro quiet) (simp add: st_bind_def st_seq_def)
        next
          case (Inr u)
          then have "perform_action_by_id env i action value s3 = (r, s')"
            using ok(2) None rec i enf by (simp add: st_bind_def st_seq_def)
          from touchesD [OF touches_perform this] obtain new where
            "pg_calls s' = pg_calls s3 @ new" "acted_on new \<subseteq> {i}" by blast
          moreover have "fallback_target env key action i" using enf Inr by (auto simp: fallback_target_def)
          ultimately show ?thesis using c3 by auto
        qed
      next
        case False
        have k: "keeps pg_calls (st_seq (record_action_log env ''error'' ''ask_human_required'' action t (Some key)
              (''Self-healing recovery failed for stable_key='' @ key @ ''; human intervention required''))
            (st_seq (trigger_som_capture_best_effort env ActAmbiguous) (st_error AskHumanRequired)))"
          by (intro keeps_intros keeps_calls)
        have "pg_calls s' = pg_calls s2"
        proof (cases rec)
          case (Inl e)
          then show ?thesis using ok(2) None rec by (simp add: st_bind_def)
        next
          case (Inr o')
          then have "o' = None" using False by (cases o') auto
          with ok(2) None rec Inr keepsD [OF k, of s2 r s'] show ?thesis by (simp add: st_bind_def)
        qed
        then show ?thesis using c2 by (intro quiet) simp
      qed
    qed
  qed
qed



subsection \<open>The stable-key fallback does not enforce the policy again\<close>

definition two_buttons :: SemanticNode where
  "two_buttons = SemanticNode ''div'' None
     [leaf ''button'' ''Continue'' (Some ''kc'') 7, leaf ''button'' ''Delete account'' (Some ''kd'') 5] None None False None 1 []"

text \<open>A page that removes the harmless button once the policy has looked at it.\<close>

definition switching_env :: "string session_env" where
  "switching_env = demo_env\<lparr>en_dom := (\<lambda>n _. if n < 5 then Inr two_buttons else Inr (leaf ''button'' ''Delete account'' (Some ''kd'') 5)),
     en_browser := (\<lambda>n call. if call = ResolveNode 7 then Inl [''No node with given id found''] else Inr ())\<rparr>"


section \<open>Verifying a text\<close>

datatype verify_result = TextMatches | ExpectationMismatch int string string

text \<open>
  The text of the node, or, where the id is stale, of the node the refreshed index gives for the
  stable key. The error \<open>ExpectationMismatch\<close> is a result here.
\<close>

definition get_element_text :: "'re session_env \<Rightarrow> int \<Rightarrow> ('re, string) session_op" where
  "get_element_text env i = st_bind next_tick (\<lambda>n. case en_text env n i of
     Inl e \<Rightarrow> st_error (BrowserFailure e) | Inr txt \<Rightarrow> st_return txt)"

definition resolved_text ::
  "'re session_env \<Rightarrow> int \<Rightarrow> string option \<Rightarrow> ('re, int \<times> string) session_op" where
  "resolved_text env target_id stable_key s =
     (case get_element_text env target_id s of
        (Inr txt, s') \<Rightarrow> (Inr (target_id, txt), s')
      | (Inl e, s') \<Rightarrow>
          if \<not> is_node_error env e then (Inl e, s')
          else (case stable_key of
                  None \<Rightarrow> (Inl e, s')
                | Some key \<Rightarrow>
                    st_bind (capture_state env Interactive) (\<lambda>_.
                    st_bind (st_get (\<lambda>s. lookup_backend_node_id_by_stable_key (pg_index s) key)) (\<lambda>found.
                      case found of
                        None \<Rightarrow> st_error e
                      | Some new_id \<Rightarrow> st_bind (get_element_text env new_id) (\<lambda>txt. st_return (new_id, txt)))) s'))"

definition verify_text ::
  "'re session_env \<Rightarrow> int \<Rightarrow> string option \<Rightarrow> string \<Rightarrow> ('re, verify_result) session_op" where
  "verify_text env target_id stable_key expected_text =
     st_bind next_tick (\<lambda>n.
     st_seq (audit (ToolCall ''verify_text''
         (JObject [(''target_id'', JNumber (show_int target_id)), (''stable_key'', json_opt JString stable_key),
            (''expected_text'', JString expected_text)]) (now_u64 env n)))
     (st_bind (resolved_text env target_id stable_key) (\<lambda>(resolved_id, actual_text).
        if normalize_text (env_lower (en_policy env)) actual_text = normalize_text (env_lower (en_policy env)) expected_text
        then st_return TextMatches
        else st_seq (trigger_som_capture_best_effort env VerifyFailed)
               (st_return (ExpectationMismatch resolved_id expected_text actual_text)))))"

end
