(* ===== verification/Sem_Keys.thy ===== *)
theory Sem_Keys
  imports Sem_State
begin

text \<open>
  The stable keys of \<open>core-runtime/src/sre/stable_key.rs\<close>: a generator counts the base hashes of a
  page and hashes again with the count where one repeats. \<open>sha\<close> is SHA-256 in hexadecimal and
  \<open>lower\<close> the Unicode lower casing of the standard library.
\<close>

section \<open>The generator\<close>

text \<open>The state is the count of each base hash; a \<open>HashMap\<close> that is only looked up and updated.\<close>

type_synonym StableKeyGenerator = "string \<rightharpoonup> int"

definition new_generator :: StableKeyGenerator where
  "new_generator = Map.empty"

definition key_content ::
  "(string \<Rightarrow> string) \<Rightarrow> string \<Rightarrow> string option \<Rightarrow> string \<Rightarrow> string \<Rightarrow> string" where
  "key_content lower role label dom_signature quadrant =
     (let label_part = lower (trim (case label of None \<Rightarrow> [] | Some l \<Rightarrow> l));
          quadrant_part = lower (trim quadrant)
      in role @ ''|'' @ label_part @ ''|'' @ dom_signature @ ''|'' @ quadrant_part)"

definition generate_key ::
  "(string \<Rightarrow> string) \<Rightarrow> (string \<Rightarrow> string) \<Rightarrow> StableKeyGenerator \<Rightarrow>
   string \<Rightarrow> string option \<Rightarrow> string \<Rightarrow> string \<Rightarrow> (string \<times> bool) \<times> StableKeyGenerator" where
  "generate_key sha lower counts role label dom_signature quadrant =
     (let base_hash = sha (key_content lower role label dom_signature quadrant);
          count = (case counts base_hash of None \<Rightarrow> 0 | Some n \<Rightarrow> n) + 1;
          counts' = counts(base_hash \<mapsto> count)
      in if count = 1 then ((base_hash, False), counts')
         else ((sha (base_hash @ ''_'' @ show_int count), True), counts'))"

section \<open>The keys of one page\<close>

record key_request =
  rq_role :: string
  rq_label :: "string option"
  rq_dom_signature :: string
  rq_quadrant :: string

definition rq_content :: "(string \<Rightarrow> string) \<Rightarrow> key_request \<Rightarrow> string" where
  "rq_content lower r = key_content lower (rq_role r) (rq_label r) (rq_dom_signature r) (rq_quadrant r)"

fun page_keys ::
  "(string \<Rightarrow> string) \<Rightarrow> (string \<Rightarrow> string) \<Rightarrow> StableKeyGenerator \<Rightarrow> key_request list \<Rightarrow> (string \<times> bool) list" where
  "page_keys sha lower counts [] = []"
| "page_keys sha lower counts (r # rs) =
     (case generate_key sha lower counts (rq_role r) (rq_label r) (rq_dom_signature r) (rq_quadrant r) of
        (k, counts') \<Rightarrow> k # page_keys sha lower counts' rs)"

text \<open>What the keys are in terms of the base hashes alone: the n-th occurrence of \<open>h\<close> gets \<open>occ_key h n\<close>.\<close>

definition occ_key :: "(string \<Rightarrow> string) \<Rightarrow> string \<Rightarrow> int \<Rightarrow> string" where
  "occ_key sha h n = (if n = 1 then h else sha (h @ ''_'' @ show_int n))"

fun occurrence_keys :: "(string \<Rightarrow> string) \<Rightarrow> string list \<Rightarrow> string list \<Rightarrow> (string \<times> bool) list" where
  "occurrence_keys sha seen [] = []"
| "occurrence_keys sha seen (h # hs) =
     (occ_key sha h (int (count_list seen h) + 1), h \<in> set seen) # occurrence_keys sha (h # seen) hs"

definition counts_of :: "string list \<Rightarrow> StableKeyGenerator" where
  "counts_of seen = (\<lambda>h. if h \<in> set seen then Some (int (count_list seen h)) else None)"

lemma count_list_pos: "h \<in> set xs \<longleftrightarrow> count_list xs h \<noteq> 0"
  by (simp add: count_list_0_iff)

lemma generate_key_step:
  "generate_key sha lower (counts_of seen) role label sig quad =
     (let h = sha (key_content lower role label sig quad)
      in ((occ_key sha h (int (count_list seen h) + 1), h \<in> set seen), counts_of (h # seen)))"
proof -
  let ?h = "sha (key_content lower role label sig quad)"
  have up: "(counts_of seen)(?h \<mapsto> int (count_list seen ?h) + 1) = counts_of (?h # seen)"
    by (auto simp: counts_of_def fun_eq_iff)
  have c: "(case counts_of seen ?h of None \<Rightarrow> 0 | Some n \<Rightarrow> n) = int (count_list seen ?h)"
    by (auto simp: counts_of_def count_list_pos)
  show ?thesis
    unfolding generate_key_def Let_def c up occ_key_def by (simp add: count_list_pos)
qed

lemma page_keys_eq:
  "page_keys sha lower (counts_of seen) rs = occurrence_keys sha seen (map (sha o rq_content lower) rs)"
  by (induction rs arbitrary: seen) (simp_all add: generate_key_step Let_def rq_content_def)

lemma counts_of_Nil: "counts_of [] = new_generator"
  by (simp add: counts_of_def new_generator_def)

lemma length_occurrence_keys [simp]: "length (occurrence_keys sha seen hs) = length hs"
  by (induction hs arbitrary: seen) simp_all

lemma nth_occurrence_keys:
  "i < length hs \<Longrightarrow> occurrence_keys sha seen hs ! i =
     (occ_key sha (hs ! i) (int (count_list (take i hs) (hs ! i) + count_list seen (hs ! i)) + 1),
      hs ! i \<in> set seen \<union> set (take i hs))"
proof (induction hs arbitrary: seen i)
  case (Cons h hs)
  then show ?case by (cases i) (auto simp: add_ac)
qed simp

lemma count_list_take_less:
  assumes "i < j" "j < length hs" "hs ! i = hs ! j"
  shows "count_list (take i hs) (hs ! i) < count_list (take j hs) (hs ! j)"
proof -
  have "take j hs = take i hs @ hs ! i # take (j - Suc i) (drop (Suc i) hs)"
    using assms(1,2) by (metis append_take_drop_id Cons_nth_drop_Suc le_add_diff_inverse less_imp_le_nat
        less_trans take_Suc_Cons take_add Suc_diff_Suc)
  then have "count_list (take j hs) (hs ! i) =
      count_list (take i hs) (hs ! i) + Suc (count_list (take (j - Suc i) (drop (Suc i) hs)) (hs ! i))"
    by (metis count_list.simps(2) count_list_append add_Suc_right Suc_eq_plus1)
  then show ?thesis using assms(3) by simp
qed

subsection \<open>Decimal notation is injective\<close>

lemma digits_val_snoc: "digits_val (s @ [c]) = 10 * digits_val s + (byte c - 48)"
  by (simp add: digits_val_def)

lemma byte_digit: "0 \<le> i \<Longrightarrow> i < 10 \<Longrightarrow> byte (char_of (48 + i)) = 48 + i"
  by (simp add: byte_def of_char_of)

lemma digits_val_show_pos: "0 \<le> i \<Longrightarrow> digits_val (show_pos i) = i"
proof (induction i rule: show_pos.induct)
  case (1 i)
  show ?case
  proof (cases "i < 10")
    case True
    then show ?thesis using 1 by (simp add: show_pos.simps [of i] digits_val_def byte_digit)
  next
    case False
    then have "digits_val (show_pos (i div 10)) = i div 10" using 1 by simp
    then show ?thesis using False
      by (simp add: show_pos.simps [of i] digits_val_snoc byte_digit)
  qed
qed

lemma show_int_inj: "0 \<le> i \<Longrightarrow> 0 \<le> j \<Longrightarrow> show_int i = show_int j \<longleftrightarrow> i = j"
  by (metis digits_val_show_pos show_int_def not_less)

subsection \<open>Distinct keys\<close>

lemma key_content_bar: "CHR ''|'' \<in> set (key_content lower role label sig quad)"
  by (simp add: key_content_def)

lemma show_int_no_bar: "0 \<le> i \<Longrightarrow> CHR ''|'' \<notin> set (show_int i)"
proof -
  have d: "CHR ''|'' \<noteq> char_of (48 + k)" if "0 \<le> k" "k < 10" for k :: int
  proof
    assume "CHR ''|'' = char_of (48 + k)"
    then have "byte (CHR ''|'') = 48 + k" using byte_digit [OF that] by simp
    then show False using that by (simp add: byte_def)
  qed
  have "0 \<le> j \<Longrightarrow> CHR ''|'' \<notin> set (show_pos j)" for j
  proof (induction j rule: show_pos.induct)
    case (1 j)
    then show ?case using d [of j] d [of "j mod 10"]
      by (cases "j < 10") (simp_all add: show_pos.simps [of j])
  qed
  then show "0 \<le> i \<Longrightarrow> CHR ''|'' \<notin> set (show_int i)" by (simp add: show_int_def)
qed

text \<open>
  C38: the stable keys of a page are pairwise distinct, and a key is marked ambiguous exactly when
  an earlier element of the page has the same base hash. This needs that SHA-256 does not collide
  on the strings hashed for the page (the contents of its elements and the base hashes with an
  index); digests have 64 digits, none of them a bar.
\<close>

theorem page_keys_distinct:
  assumes "inj_on sha (rq_content lower ` set rs \<union>
      {sha (rq_content lower r) @ ''_'' @ show_int n | r n. r \<in> set rs \<and> 2 \<le> n \<and> n \<le> int (length rs)})"
    and "\<And>s. length (sha s) = 64 \<and> CHR ''|'' \<notin> set (sha s)"
  shows "distinct (map fst (page_keys sha lower new_generator rs)) \<and>
    (\<forall>i<length rs. snd (page_keys sha lower new_generator rs ! i) \<longleftrightarrow>
       sha (rq_content lower (rs ! i)) \<in> (\<lambda>r. sha (rq_content lower r)) ` set (take i rs))"
proof -
  define hs where "hs = map (sha o rq_content lower) rs"
  let ?D = "rq_content lower ` set rs \<union>
      {sha (rq_content lower r) @ ''_'' @ show_int n | r n. r \<in> set rs \<and> 2 \<le> n \<and> n \<le> int (length rs)}"
  have keys: "page_keys sha lower new_generator rs = occurrence_keys sha [] hs"
    using page_keys_eq [of sha lower "[]"] by (simp add: counts_of_Nil hs_def)
  have occ: "h = h' \<and> m = n" if "occ_key sha h m = occ_key sha h' n" "h \<in> set hs" "h' \<in> set hs" "1 \<le> m" "1 \<le> n"
      "m \<le> int (length rs)" "n \<le> int (length rs)" for h h' m n
  proof -
    note prems = that
    obtain r r' where r: "r \<in> set rs" "h = sha (rq_content lower r)" "r' \<in> set rs" "h' = sha (rq_content lower r')"
      using prems(2,3) by (auto simp: hs_def)
    let ?arg = "\<lambda>r k. if k = 1 then rq_content lower r else sha (rq_content lower r) @ ''_'' @ show_int k"
    have "sha (?arg r m) = sha (?arg r' n)" using prems(1) r by (simp add: occ_key_def split: if_splits)
    moreover have "?arg r m \<in> ?D" using r(1) prems(4,6) by (cases "m = 1") auto
    moreover have "?arg r' n \<in> ?D" using r(3) prems(5,7) by (cases "n = 1") auto
    ultimately have e: "?arg r m = ?arg r' n" using inj_onD [OF assms(1)] by blast
    have "CHR ''|'' \<in> set (?arg q k) \<longleftrightarrow> k = 1" if "1 \<le> k" for q k
      using that assms(2) [of "rq_content lower q"] show_int_no_bar [of k]
      by (simp add: rq_content_def key_content_bar)
    from this [OF prems(4), of r] this [OF prems(5), of r'] have one: "m = 1 \<longleftrightarrow> n = 1" by (simp only: e)
    show ?thesis
    proof (cases "m = 1")
      case False
      then have "sha (rq_content lower r) @ ''_'' @ show_int m = sha (rq_content lower r') @ ''_'' @ show_int n"
        using e one by simp
      then have "h = h' \<and> show_int m = show_int n" using assms(2) r by (auto simp: append_eq_append_conv)
      then show ?thesis using show_int_inj [of m n] prems(4,5) by simp
    qed (use e one r in simp)
  qed
  have count_le: "int (count_list (take i hs) h) + 1 \<le> int (length rs)" if "i < length hs" for i h
    using that count_le_length [of "take i hs" h] by (simp add: hs_def)
  have "distinct (map fst (occurrence_keys sha [] hs))"
    unfolding distinct_conv_nth
  proof (intro allI impI, simp)
    fix i j assume ij: "i < length hs" "j < length hs" "i \<noteq> j"
    show "fst (occurrence_keys sha [] hs ! i) \<noteq> fst (occurrence_keys sha [] hs ! j)"
    proof
      assume "fst (occurrence_keys sha [] hs ! i) = fst (occurrence_keys sha [] hs ! j)"
      from occ [OF this [unfolded nth_occurrence_keys [OF ij(1)] nth_occurrence_keys [OF ij(2)] fst_conv]] ij
        count_le [of i] count_le [of j]
      have "hs ! i = hs ! j" "count_list (take i hs) (hs ! i) = count_list (take j hs) (hs ! j)" by auto
      then show False using count_list_take_less [of i j hs] count_list_take_less [of j i hs] ij
        by (metis less_irrefl linorder_neqE_nat)
    qed
  qed
  moreover have "snd (occurrence_keys sha [] hs ! i) \<longleftrightarrow> hs ! i \<in> set (take i hs)" if "i < length rs" for i
    using that by (simp add: nth_occurrence_keys hs_def)
  ultimately show ?thesis by (simp add: keys hs_def take_map image_comp comp_def)
qed

text \<open>A stand-in for SHA-256 that is injective on the few strings of the example.\<close>

definition pad_digest :: "string \<Rightarrow> string" where
  "pad_digest s = (if length s < 60 then take 64 (filter (\<lambda>c. c \<noteq> CHR ''|'') s @ replicate 64 CHR ''0'')
                   else take 64 (''x'' @ filter (\<lambda>c. c \<noteq> CHR ''|'') (drop 65 s) @ replicate 64 CHR ''0''))"

lemma pad_digest_shape: "length (pad_digest s) = 64 \<and> CHR ''|'' \<notin> set (pad_digest s)"
  by (auto simp: pad_digest_def dest: in_set_takeD)

definition pay_request :: key_request where
  "pay_request = \<lparr>rq_role = ''button'', rq_label = Some ''Pay'', rq_dom_signature = ''div>button'', rq_quadrant = ''tl''\<rparr>"

theorem page_keys_distinct_witness:
  "distinct (map fst (page_keys pad_digest ascii_lower new_generator [pay_request, pay_request]))"
proof -
  let ?c = "rq_content ascii_lower pay_request"
  have n2: "(2 \<le> n \<and> n \<le> int (length [pay_request, pay_request])) = (n = 2)" for n :: int by auto
  have D: "rq_content ascii_lower ` set [pay_request, pay_request] \<union>
      {pad_digest (rq_content ascii_lower r) @ ''_'' @ show_int n | r n.
         r \<in> set [pay_request, pay_request] \<and> 2 \<le> n \<and> n \<le> int (length [pay_request, pay_request])} =
      {?c, pad_digest ?c @ ''_'' @ show_int 2}"
    unfolding n2 by auto
  have "pad_digest ?c \<noteq> pad_digest (pad_digest ?c @ ''_'' @ show_int 2)" by code_simp
  then have "inj_on pad_digest {?c, pad_digest ?c @ ''_'' @ show_int 2}" by (auto simp: inj_on_def)
  from page_keys_distinct [of pad_digest ascii_lower "[pay_request, pay_request]", unfolded D, OF this pad_digest_shape]
  show ?thesis by simp
qed

end
