(* ===== verification/Hitl_Audit.thy ===== *)
theory Hitl_Audit
  imports Policy Bounded_Log
begin

text \<open>
  The audit trail of the HITL bridge, \<open>hitl-bridge/src/audit.rs\<close>: one JSON line per decision,
  appended to a file and synced, with an index of digests beside it and a cache of the recent
  records. Each call to the file system asks the environment whether it succeeds; a failing
  write leaves the bytes the environment says. Serialization and digests are parameters
  (\<open>serde_json\<close>, \<open>sha2\<close>). The file is its bytes.
\<close>

section \<open>Data\<close>

datatype Decision = DecApproved | DecRejected

datatype AuditDecision = AuditApproved | AuditRejected

definition audit_decision :: "Decision \<Rightarrow> AuditDecision" where
  "audit_decision d = (case d of DecApproved \<Rightarrow> AuditApproved | DecRejected \<Rightarrow> AuditRejected)"

type_synonym request_id = nat

record AuditRecord =
  rc_id :: request_id
  rc_decision :: AuditDecision
  rc_decided_by :: string
  rc_decided_at_ms :: u64
  rc_outcome_projection :: "OutcomeProjection option"

definition MAX_RECENT_AUDIT_RECORDS :: nat where
  "MAX_RECENT_AUDIT_RECORDS = 1024"

record BridgeAuditTrail =
  tr_initialized :: bool
  tr_persistent_index :: bool
  tr_recent :: "AuditRecord list"
  tr_file :: "string option"
  tr_index :: "request_id \<rightharpoonup> string"
  tr_calls :: nat

record audit_env =
  au_ser :: "AuditRecord \<Rightarrow> string"
  au_parse :: "string \<Rightarrow> AuditRecord option"
  au_digest :: "AuditRecord \<Rightarrow> string"
  au_parent_missing :: bool
  au_io :: "nat \<Rightarrow> bool" \<comment> \<open>does the n-th call, other than a write or a sync, succeed\<close>
  au_write :: "nat \<Rightarrow> nat option" \<comment> \<open>None: the write succeeds; Some k: it fails after k bytes\<close>
  au_sync :: "nat \<Rightarrow> bool"
  au_torn_index :: "nat \<Rightarrow> string option" \<comment> \<open>what a failing index write leaves\<close>

datatype audit_error = ParentMissing | IoFailure | RecordConflict request_id

type_synonym 'a audit_op = "(BridgeAuditTrail, audit_error, 'a) stateful"

definition new_trail :: "string option \<Rightarrow> (request_id \<rightharpoonup> string) \<Rightarrow> BridgeAuditTrail" where
  "new_trail file index = \<lparr>tr_initialized = False, tr_persistent_index = False, tr_recent = [], tr_file = file,
     tr_index = index, tr_calls = 0\<rparr>"

section \<open>The file system\<close>

definition next_call :: "nat audit_op" where
  "next_call s = (Inr (tr_calls s), s\<lparr>tr_calls := Suc (tr_calls s)\<rparr>)"

definition io_ok :: "(nat \<Rightarrow> bool) \<Rightarrow> bool audit_op" where
  "io_ok ok = st_bind next_call (\<lambda>n. st_return (ok n))"

definition io :: "(nat \<Rightarrow> bool) \<Rightarrow> unit audit_op" where
  "io ok = st_bind (io_ok ok) (\<lambda>b. if b then st_return () else st_error IoFailure)"

definition newline :: char where
  "newline = char_of (10::int)"

text \<open>\<open>BufRead::lines\<close>: the last line may lack its newline; a carriage return before it is dropped.\<close>

definition strip_cr :: "string \<Rightarrow> string" where
  "strip_cr l = (if l \<noteq> [] \<and> last l = char_of (13::int) then butlast l else l)"

function file_lines :: "string \<Rightarrow> string list" where
  "file_lines s = (if s = [] then []
     else strip_cr (takeWhile (\<lambda>c. c \<noteq> newline) s) # file_lines (drop 1 (dropWhile (\<lambda>c. c \<noteq> newline) s)))"
  by pat_completeness auto
termination
proof (relation "measure length")
  fix s :: string
  assume "s \<noteq> []"
  then show "(drop 1 (dropWhile (\<lambda>c. c \<noteq> newline) s), s) \<in> measure length"
    using length_dropWhile_le [of "\<lambda>c. c \<noteq> newline" s] by (cases s) (auto simp: less_Suc_eq_le)
qed simp

declare file_lines.simps [simp del]

text \<open>The derived \<open>PartialEq\<close> of the records compares the projected amount as numbers.\<close>

definition same_outcome :: "OutcomeProjection \<Rightarrow> OutcomeProjection \<Rightarrow> bool" where
  "same_outcome a b \<longleftrightarrow> risk_level a = risk_level b \<and>
     (case (projected_amount a, projected_amount b) of
        (None, None) \<Rightarrow> True | (Some x, Some y) \<Rightarrow> f64_eq x y | _ \<Rightarrow> False)"

definition same_record :: "AuditRecord \<Rightarrow> AuditRecord \<Rightarrow> bool" where
  "same_record a b \<longleftrightarrow> rc_id a = rc_id b \<and> rc_decision a = rc_decision b \<and> rc_decided_by a = rc_decided_by b \<and>
     rc_decided_at_ms a = rc_decided_at_ms b \<and>
     (case (rc_outcome_projection a, rc_outcome_projection b) of
        (None, None) \<Rightarrow> True | (Some x, Some y) \<Rightarrow> same_outcome x y | _ \<Rightarrow> False)"

section \<open>Operations\<close>

definition remember :: "AuditRecord \<Rightarrow> AuditRecord list \<Rightarrow> AuditRecord list" where
  "remember r recent = pop_front_while_over MAX_RECENT_AUDIT_RECORDS (recent @ [r])"

interpretation audit_recent: bounded_log "\<lambda>recent r. remember r recent" MAX_RECENT_AUDIT_RECORDS
  by unfold_locales
    (simp_all add: remember_def MAX_RECENT_AUDIT_RECORDS_def push_pop_front_room push_pop_front_full)

definition write_index :: "audit_env \<Rightarrow> AuditRecord \<Rightarrow> unit audit_op" where
  "write_index env r = st_bind next_call (\<lambda>n.
     if au_io env n then st_modify (\<lambda>s. s\<lparr>tr_index := (tr_index s)(rc_id r \<mapsto> au_digest env r)\<rparr>)
     else st_modify (\<lambda>s. s\<lparr>tr_index := (tr_index s)(rc_id r := au_torn_index env n), tr_persistent_index := False\<rparr>))"

definition write_index_if_persistent :: "audit_env \<Rightarrow> AuditRecord \<Rightarrow> unit audit_op" where
  "write_index_if_persistent env r =
     st_bind (st_get tr_persistent_index) (\<lambda>p. if p then write_index env r else st_return ())"

fun index_lines :: "audit_env \<Rightarrow> string list \<Rightarrow> unit audit_op" where
  "index_lines env [] = st_return ()"
| "index_lines env (existing_line # rest) =
     st_seq (io (au_io env))
       (st_seq
         (if trim existing_line = [] then st_return ()
          else case au_parse env existing_line of
            None \<Rightarrow> st_return ()
          | Some existing \<Rightarrow>
              st_seq (write_index_if_persistent env existing)
                (st_modify (\<lambda>s. s\<lparr>tr_recent := remember existing (tr_recent s)\<rparr>)))
         (index_lines env rest))"

definition set_initialized :: "unit audit_op" where
  "set_initialized = st_modify (\<lambda>s. s\<lparr>tr_initialized := True\<rparr>)"

definition prepare_locked :: "audit_env \<Rightarrow> unit audit_op" where
  "prepare_locked env =
     st_bind (st_get tr_initialized) (\<lambda>initialized.
       if initialized then st_return ()
       else if au_parent_missing env then st_error ParentMissing
       else
         st_bind (io_ok (au_io env)) (\<lambda>created.
         st_seq (st_modify (\<lambda>s. s\<lparr>tr_persistent_index := created\<rparr>))
        (st_bind (st_get tr_file) (\<lambda>file.
           case file of
             None \<Rightarrow> set_initialized
           | Some content \<Rightarrow>
               st_seq (io (au_io env))
                 (st_seq (index_lines env (file_lines content)) set_initialized)))))"

text \<open>The first record with the id; a line that cannot be read ends the search with an error.\<close>

fun find_in_lines :: "audit_env \<Rightarrow> request_id \<Rightarrow> string list \<Rightarrow> AuditRecord option audit_op" where
  "find_in_lines env rid [] = st_return None"
| "find_in_lines env rid (line # rest) =
     st_seq (io (au_io env))
       (case au_parse env line of
          None \<Rightarrow> find_in_lines env rid rest
        | Some rec \<Rightarrow> if rc_id rec = rid then st_return (Some rec) else find_in_lines env rid rest)"

definition find_record_in_history :: "audit_env \<Rightarrow> request_id \<Rightarrow> AuditRecord option audit_op" where
  "find_record_in_history env rid =
     st_bind (st_get tr_file) (\<lambda>file. case file of
         None \<Rightarrow> st_return None
       | Some content \<Rightarrow> st_seq (io (au_io env)) (find_in_lines env rid (file_lines content)))"

definition read_index :: "audit_env \<Rightarrow> request_id \<Rightarrow> string option audit_op" where
  "read_index env rid = st_seq (io (au_io env)) (st_get (\<lambda>s. tr_index s rid))"

definition sync_all :: "audit_env \<Rightarrow> unit audit_op" where
  "sync_all env = io (au_sync env)"

definition append_line :: "audit_env \<Rightarrow> AuditRecord \<Rightarrow> unit audit_op" where
  "append_line env r = st_bind next_call (\<lambda>n.
     let line = au_ser env r @ [newline];
         add = (\<lambda>bytes s. s\<lparr>tr_file := Some ((case tr_file s of None \<Rightarrow> [] | Some content \<Rightarrow> content) @ bytes)\<rparr>)
     in case au_write env n of
          None \<Rightarrow> st_modify (add line)
        | Some k \<Rightarrow> st_seq (st_modify (add (take k line))) (st_error IoFailure))"

definition create_file :: "unit audit_op" where
  "create_file = st_modify (\<lambda>s. s\<lparr>tr_file := Some ((case tr_file s of None \<Rightarrow> [] | Some content \<Rightarrow> content))\<rparr>)"

definition append_record :: "audit_env \<Rightarrow> AuditRecord \<Rightarrow> unit audit_op" where
  "append_record env r =
     st_seq (append_line env r)
    (st_seq (st_modify (\<lambda>s. s\<lparr>tr_recent := remember r (tr_recent s)\<rparr>))
    (st_seq (sync_all env)
       (write_index_if_persistent env r)))"

text \<open>The record with the id in the cache or the file, or the digest the index has for it.\<close>

definition lookup_record :: "audit_env \<Rightarrow> request_id \<Rightarrow> (AuditRecord option \<times> string option) audit_op" where
  "lookup_record env rid =
     st_bind (st_get (\<lambda>s. (List.find (\<lambda>existing. rc_id existing = rid) (tr_recent s), tr_persistent_index s))) (\<lambda>(cached, persistent).
     st_bind (if cached = None \<and> persistent then read_index env rid else st_return None) (\<lambda>indexed_digest.
     st_bind (if cached = None \<and> indexed_digest = None \<and> \<not> persistent
              then find_record_in_history env rid else st_return None) (\<lambda>scanned.
       st_return (case cached of Some e \<Rightarrow> Some e | None \<Rightarrow> scanned, indexed_digest))))"

definition record_decision :: "audit_env \<Rightarrow> AuditRecord \<Rightarrow> unit audit_op" where
  "record_decision env r =
     st_seq (prepare_locked env)
    (st_seq (io (au_io env))
    (st_seq create_file
    (st_bind (lookup_record env (rc_id r)) (\<lambda>(known, indexed_digest).
       case known of
         Some existing \<Rightarrow>
           if \<not> same_record existing r then st_error (RecordConflict (rc_id r)) else sync_all env
       | None \<Rightarrow>
           (case indexed_digest of
              Some existing_digest \<Rightarrow>
                if existing_digest \<noteq> au_digest env r then st_error (RecordConflict (rc_id r)) else sync_all env
            | None \<Rightarrow> append_record env r)))))"

definition prepare :: "audit_env \<Rightarrow> unit audit_op" where
  "prepare env = prepare_locked env"

definition verify_writable :: "audit_env \<Rightarrow> unit audit_op" where
  "verify_writable env = st_seq (prepare env) (st_seq (io (au_io env)) create_file)"

text \<open>\<open>read_all\<close>: every line that is not blank must parse.\<close>

definition read_all :: "audit_env \<Rightarrow> BridgeAuditTrail \<Rightarrow> AuditRecord list option" where
  "read_all env s = (case tr_file s of
     None \<Rightarrow> Some []
   | Some content \<Rightarrow> those (map (au_parse env) (filter (\<lambda>l. trim l \<noteq> []) (file_lines content))))"

section \<open>What the file holds\<close>

definition lines_of :: "audit_env \<Rightarrow> AuditRecord list \<Rightarrow> string" where
  "lines_of env rs = concat (map (\<lambda>r. au_ser env r @ [newline]) rs)"

text \<open>
  What is used of JSON: the text of a record is one line that is not blank and parses to the record.
\<close>

definition json_ok :: "audit_env \<Rightarrow> AuditRecord \<Rightarrow> bool" where
  "json_ok env r \<longleftrightarrow> au_parse env (au_ser env r) = Some r \<and> newline \<notin> set (au_ser env r) \<and>
     trim (au_ser env r) \<noteq> [] \<and> strip_cr (au_ser env r) = au_ser env r"

lemma file_lines_lines_of: "\<forall>r\<in>set rs. json_ok env r \<Longrightarrow> file_lines (lines_of env rs) = map (au_ser env) rs"
proof (induction rs)
  case Nil
  then show ?case by (simp add: lines_of_def file_lines.simps)
next
  case (Cons r rs)
  have no: "\<forall>c\<in>set (au_ser env r). c \<noteq> newline" and cr: "strip_cr (au_ser env r) = au_ser env r"
    using Cons.prems by (auto simp: json_ok_def)
  have split: "lines_of env (r # rs) = au_ser env r @ newline # lines_of env rs" by (simp add: lines_of_def)
  have "takeWhile (\<lambda>c. c \<noteq> newline) (lines_of env (r # rs)) = au_ser env r"
    "dropWhile (\<lambda>c. c \<noteq> newline) (lines_of env (r # rs)) = newline # lines_of env rs"
    using no unfolding split by (simp_all add: takeWhile_tail dropWhile_append3)
  with Cons cr show ?case by (subst file_lines.simps) (simp add: split)
qed

definition file_content :: "BridgeAuditTrail \<Rightarrow> string" where
  "file_content s = (case tr_file s of None \<Rightarrow> [] | Some content \<Rightarrow> content)"

lemma read_all_lines_of:
  "file_content s = lines_of env rs \<Longrightarrow> \<forall>r\<in>set rs. json_ok env r \<Longrightarrow> read_all env s = Some rs"
proof -
  assume c: "file_content s = lines_of env rs" and ok: "\<forall>r\<in>set rs. json_ok env r"
  have p: "those (map (au_parse env) (map (au_ser env) rs)) = Some rs"
    using ok by (induction rs) (auto simp: json_ok_def)
  have f: "filter (\<lambda>l. trim l \<noteq> []) (map (au_ser env) rs) = map (au_ser env) rs"
    using ok by (auto simp: json_ok_def filter_id_conv)
  show ?thesis
  proof (cases "tr_file s")
    case None
    then have "rs = []" using c by (cases rs) (auto simp: file_content_def lines_of_def)
    then show ?thesis using None by (simp add: read_all_def)
  next
    case (Some content)
    then show ?thesis using c p f file_lines_lines_of [OF ok] by (simp add: read_all_def file_content_def)
  qed
qed

text \<open>The trail holds the records \<open>rs\<close>.\<close>

definition indexed :: "audit_env \<Rightarrow> BridgeAuditTrail \<Rightarrow> AuditRecord list \<Rightarrow> bool" where
  "indexed env s rs \<longleftrightarrow> (\<forall>r\<in>set rs. tr_index s (rc_id r) = Some (au_digest env r))"

definition holds_records :: "audit_env \<Rightarrow> AuditRecord list \<Rightarrow> BridgeAuditTrail \<Rightarrow> bool" where
  "holds_records env rs s \<longleftrightarrow> file_content s = lines_of env rs \<and> distinct (map rc_id rs) \<and>
     set (tr_recent s) \<subseteq> set rs \<and> (tr_initialized s \<longrightarrow> tr_persistent_index s \<longrightarrow> indexed env s rs) \<and>
     (\<forall>i. i \<notin> rc_id ` set rs \<longrightarrow> tr_index s i = None)"

definition stored_part where
  "stored_part s = (tr_file s, tr_recent s, tr_initialized s, tr_persistent_index s, tr_index s)"

lemma keeps_io [keeps_intros]:
  "keeps stored_part next_call" "keeps stored_part (io_ok ok)" "keeps stored_part (io ok)" "keeps stored_part (sync_all env)"
proof -
  show n: "keeps stored_part next_call" by (simp add: keeps_def next_call_def stored_part_def)
  show i: "keeps stored_part (io_ok ok)" for ok unfolding io_ok_def by (intro keeps_intros n)
  show o: "keeps stored_part (io ok)" for ok unfolding io_def by (intro keeps_intros i)
  show "keeps stored_part (sync_all env)" unfolding sync_all_def by (rule o)
qed

lemma keeps_find_in_lines [keeps_intros]: "keeps stored_part (find_in_lines env rid ls)"
  by (induction ls) (auto intro!: keeps_intros split: option.split)

lemma keeps_lookups [keeps_intros]:
  "keeps stored_part (find_record_in_history env rid)" "keeps stored_part (read_index env rid)"
  unfolding find_record_in_history_def read_index_def
  by (auto intro!: keeps_intros split: option.split)

lemma holds_records_stored: "stored_part s' = stored_part s \<Longrightarrow> holds_records env rs s' = holds_records env rs s"
  by (auto simp: holds_records_def stored_part_def file_content_def indexed_def)

lemma preserves_of_keeps: "keeps stored_part m \<Longrightarrow> preserves (holds_records env rs) m"
  unfolding keeps_def preserves_def using holds_records_stored by blast

section \<open>Preparing\<close>

lemma set_remember: "set (remember r recent) \<subseteq> insert r (set recent)"
  by (auto simp: remember_def pop_front_while_over_drop dest: in_set_dropD)

lemma write_index_holds:
  assumes "write_index_if_persistent env r s = (res, s')"
    and "holds_records env rs s" "r \<in> set rs" "\<not> tr_initialized s" "tr_persistent_index s \<longrightarrow> indexed env s done" "set done \<subseteq> set rs"
  shows "res = Inr () \<and> holds_records env rs s' \<and> \<not> tr_initialized s' \<and>
    (tr_persistent_index s' \<longrightarrow> indexed env s' (done @ [r]))"
proof -
  have same: "r' = r" if "r' \<in> set rs" "rc_id r' = rc_id r" for r'
    using that assms(2,3) by (auto simp: holds_records_def distinct_map dest: inj_onD)
  have same': "r' = r" if "r' \<in> set done" "rc_id r' = rc_id r" for r'
    using same that assms(6) by blast
  show ?thesis using assms same same'
    by (auto simp: write_index_if_persistent_def write_index_def st_bind_def next_call_def holds_records_def
        file_content_def indexed_def split: if_splits prod.splits) (metis same')
qed

lemma index_lines_holds:
  assumes "index_lines env (map (au_ser env) todo) s = (res, s')"
    and "holds_records env (done @ todo) s" "\<forall>r\<in>set todo. json_ok env r" "\<not> tr_initialized s"
    and "tr_persistent_index s \<longrightarrow> indexed env s done"
  shows "holds_records env (done @ todo) s' \<and> \<not> tr_initialized s' \<and>
    (res = Inr () \<longrightarrow> tr_persistent_index s' \<longrightarrow> indexed env s' (done @ todo))"
  using assms
proof (induction todo arbitrary: s "done")
  case Nil
  then show ?case by simp
next
  case (Cons r todo)
  let ?rs = "done @ r # todo"
  obtain r1 s1 where io: "io (au_io env) s = (r1, s1)" by force
  have st1: "stored_part s1 = stored_part s" using keepsD [OF keeps_io(3) io] .
  then have h1: "holds_records env ?rs s1" "\<not> tr_initialized s1" "tr_persistent_index s1 \<longrightarrow> indexed env s1 done"
    using Cons.prems(2,4,5) holds_records_stored [OF st1] by (auto simp: stored_part_def indexed_def)
  have parse: "trim (au_ser env r) \<noteq> []" "au_parse env (au_ser env r) = Some r"
    using Cons.prems(3) by (auto simp: json_ok_def)
  show ?case
  proof (cases r1)
    case (Inl e)
    then show ?thesis using Cons.prems(1) io h1 by (auto simp: st_seq_def st_bind_def)
  next
    case (Inr u)
    obtain r2 s2 where wi: "write_index_if_persistent env r s1 = (r2, s2)" by force
    from write_index_holds [OF wi h1(1) _ h1(2,3)]
    have w: "r2 = Inr ()" "holds_records env ?rs s2" "\<not> tr_initialized s2" "tr_persistent_index s2 \<longrightarrow> indexed env s2 (done @ [r])"
      by auto
    let ?s3 = "s2\<lparr>tr_recent := remember r (tr_recent s2)\<rparr>"
    have h3: "holds_records env ((done @ [r]) @ todo) ?s3"
      using w(2) set_remember [of r "tr_recent s2"] by (auto simp: holds_records_def file_content_def indexed_def)
    have "index_lines env (map (au_ser env) todo) ?s3 = (res, s')"
      using Cons.prems(1) io Inr wi w(1) parse by (simp add: st_seq_def st_bind_def)
    from Cons.IH [OF this h3] show ?thesis using Cons.prems(3) w(3,4) by (auto simp: indexed_def)
  qed
qed

lemma prepare_locked_holds:
  assumes "prepare_locked env s = (res, s')" "holds_records env rs s" "\<forall>r\<in>set rs. json_ok env r"
  shows "holds_records env rs s' \<and> (res = Inr () \<longrightarrow> tr_initialized s')"
proof (cases "tr_initialized s \<or> au_parent_missing env")
  case True
  then show ?thesis using assms by (auto simp: prepare_locked_def st_bind_def split: if_splits)
next
  case False
  obtain b s1 where cr: "io_ok (au_io env) s = (Inr b, s1)" by (simp add: io_ok_def st_bind_def next_call_def)
  have st1: "stored_part s1 = stored_part s" using keepsD [OF keeps_io(2) cr] .
  let ?s2 = "s1\<lparr>tr_persistent_index := b\<rparr>"
  have f2: "file_content ?s2 = lines_of env rs" "\<not> tr_initialized ?s2" "tr_file ?s2 = tr_file s"
    and h2: "holds_records env rs ?s2"
    using assms(2) False st1 by (auto simp: holds_records_def stored_part_def file_content_def indexed_def)
  show ?thesis
  proof (cases "tr_file s")
    case None
    then have "rs = []" using f2(1,3) by (cases rs) (auto simp: file_content_def lines_of_def)
    moreover have "s' = ?s2\<lparr>tr_initialized := True\<rparr>" "res = Inr ()"
      using assms(1) False cr f2(3) None by (auto simp: prepare_locked_def st_bind_def st_seq_def set_initialized_def)
    ultimately show ?thesis using h2 by (auto simp: holds_records_def file_content_def indexed_def)
  next
    case (Some content)
    have ls: "file_lines content = map (au_ser env) rs"
      using file_lines_lines_of [OF assms(3)] f2(1,3) Some by (simp add: file_content_def)
    obtain r3 s3 where io: "io (au_io env) ?s2 = (r3, s3)" by force
    have st3: "stored_part s3 = stored_part ?s2" using keepsD [OF keeps_io(3) io] .
    have h3: "holds_records env rs s3" "\<not> tr_initialized s3"
      using h2 f2(2) holds_records_stored [OF st3] st3 by (auto simp: stored_part_def)
    show ?thesis
    proof (cases r3)
      case (Inl e)
      then show ?thesis using assms(1) False cr f2(3) Some io h3 by (auto simp: prepare_locked_def st_seq_def st_bind_def)
    next
      case (Inr u)
      obtain r4 s4 where il: "index_lines env (map (au_ser env) rs) s3 = (r4, s4)" by force
      from index_lines_holds [of env rs s3 r4 s4 "[]"] il h3 assms(3)
      have h4: "holds_records env rs s4" "r4 = Inr () \<longrightarrow> tr_persistent_index s4 \<longrightarrow> indexed env s4 rs"
        by (auto simp: indexed_def)
      show ?thesis using assms(1) False cr f2(3) Some io Inr il ls h4
        by (cases r4) (auto simp: prepare_locked_def st_seq_def st_bind_def set_initialized_def holds_records_def file_content_def indexed_def)
    qed
  qed
qed

section \<open>Recording\<close>

lemma find_in_lines_some:
  "find_in_lines env rid (map (au_ser env) rs) s = (Inr r, s') \<Longrightarrow> \<forall>r\<in>set rs. json_ok env r \<Longrightarrow>
     (case r of Some x \<Rightarrow> x \<in> set rs \<and> rc_id x = rid | None \<Rightarrow> rid \<notin> rc_id ` set rs)"
proof (induction rs arbitrary: s)
  case (Cons x rs)
  from Cons.prems(1) obtain s1 where "io (au_io env) s = (Inr (), s1)"
    by (auto simp: st_seq_def elim: st_bind_cases)
  moreover have "au_parse env (au_ser env x) = Some x" using Cons.prems(2) by (simp add: json_ok_def)
  ultimately have "if rc_id x = rid then r = Some x else find_in_lines env rid (map (au_ser env) rs) s1 = (Inr r, s')"
    using Cons.prems(1) by (auto simp: st_run split: if_splits)
  then show ?case using Cons.IH [of s1] Cons.prems(2) by (cases "rc_id x = rid") (auto split: option.splits)
qed simp

lemma find_record_in_history_some:
  assumes "find_record_in_history env rid s = (Inr r, s')" "holds_records env rs s" "\<forall>r\<in>set rs. json_ok env r"
  shows "case r of Some x \<Rightarrow> x \<in> set rs \<and> rc_id x = rid | None \<Rightarrow> rid \<notin> rc_id ` set rs"
proof (cases "tr_file s")
  case None
  then have "rs = []" using assms(2) by (cases rs) (auto simp: holds_records_def file_content_def lines_of_def)
  then show ?thesis using assms(1) None by (auto simp: find_record_in_history_def st_bind_def)
next
  case (Some content)
  then have "file_lines content = map (au_ser env) rs"
    using file_lines_lines_of [OF assms(3)] assms(2) by (simp add: holds_records_def file_content_def)
  with assms(1) Some obtain s1 where "find_in_lines env rid (map (au_ser env) rs) s1 = (Inr r, s')"
    by (auto simp: find_record_in_history_def st_seq_def st_bind_def split: prod.splits sum.splits)
  from find_in_lines_some [OF this assms(3)] show ?thesis .
qed

lemma find_id: "List.find (\<lambda>e. rc_id e = i) xs = Some x \<Longrightarrow> x \<in> set xs \<and> rc_id x = i"
  by (induction xs) (auto split: if_splits)

definition whole_writes :: "audit_env \<Rightarrow> bool" where
  "whole_writes env \<longleftrightarrow> (\<forall>n. au_write env n = None \<or> au_write env n = Some 0) \<and> (\<forall>n. au_sync env n)"

lemma append_record_holds:
  assumes "append_record env r s = (res, s')" "holds_records env rs s" "whole_writes env"
    and "rc_id r \<notin> rc_id ` set rs" "tr_initialized s" "tr_file s \<noteq> None"
  shows "(holds_records env (rs @ [r]) s' \<and> res = Inr ()) \<or> (holds_records env rs s' \<and> res \<noteq> Inr ())"
proof (cases "au_write env (tr_calls s)")
  case None
  obtain content where f: "tr_file s = Some content" using assms(6) by auto
  let ?s1 = "s\<lparr>tr_file := Some (content @ au_ser env r @ [newline]), tr_recent := remember r (tr_recent s),
      tr_calls := Suc (Suc (tr_calls s))\<rparr>"
  have run: "write_index_if_persistent env r ?s1 = (res, s')"
    using assms(1,3) None f
    by (simp add: append_record_def append_line_def sync_all_def io_def io_ok_def next_call_def st_seq_def st_bind_def
        whole_writes_def Let_def)
  have c: "content = lines_of env rs" using assms(2) f by (simp add: holds_records_def file_content_def)
  have new: "x \<noteq> r \<and> rc_id x \<noteq> rc_id r" if "x \<in> set rs" for x using assms(4) that by (metis imageI)
  show ?thesis using run assms(2,4,5) c set_remember [of r "tr_recent s"] new
    by (auto simp: write_index_if_persistent_def write_index_def st_bind_def next_call_def holds_records_def
        file_content_def indexed_def lines_of_def split: if_splits)
next
  case (Some k)
  then have "k = 0" using assms(3) by (metis option.distinct(1) option.inject whole_writes_def)
  then show ?thesis using assms(1,2,6) Some
    by (auto simp: append_record_def append_line_def next_call_def st_seq_def st_bind_def Let_def holds_records_def
        file_content_def indexed_def)
qed

lemma create_file_holds: "create_file s = (res, s') \<Longrightarrow> holds_records env rs s \<Longrightarrow>
    res = Inr () \<and> holds_records env rs s' \<and> tr_file s' \<noteq> None \<and> tr_initialized s' = tr_initialized s"
  by (auto simp: create_file_def holds_records_def file_content_def indexed_def split: option.splits)

lemma lookup_record_exact:
  assumes "lookup_record env rid s = (res, s')" "holds_records env rs s" "tr_initialized s" "\<forall>r\<in>set rs. json_ok env r"
  shows "stored_part s' = stored_part s \<and> (case res of Inl e \<Rightarrow> True
    | Inr (Some e, d) \<Rightarrow> e \<in> set rs \<and> rc_id e = rid
    | Inr (None, Some d) \<Rightarrow> (\<exists>e\<in>set rs. rc_id e = rid \<and> au_digest env e = d)
    | Inr (None, None) \<Rightarrow> rid \<notin> rc_id ` set rs)"
proof
  have "keeps stored_part (lookup_record env rid)"
    unfolding lookup_record_def by (auto intro!: keeps_intros split: prod.splits)
  then show "stored_part s' = stored_part s" using assms(1) by (rule keepsD)
  show "case res of Inl e \<Rightarrow> True
    | Inr (Some e, d) \<Rightarrow> e \<in> set rs \<and> rc_id e = rid
    | Inr (None, Some d) \<Rightarrow> (\<exists>e\<in>set rs. rc_id e = rid \<and> au_digest env e = d)
    | Inr (None, None) \<Rightarrow> rid \<notin> rc_id ` set rs"
  proof (cases "List.find (\<lambda>existing. rc_id existing = rid) (tr_recent s)")
    case (Some e)
    then have "e \<in> set rs \<and> rc_id e = rid" using find_id [OF Some] assms(2) by (auto simp: holds_records_def)
    then show ?thesis using assms(1) Some by (auto simp: lookup_record_def st_bind_def)
  next
    case None
    show ?thesis
    proof (cases "tr_persistent_index s")
      case True
      then have ix: "\<forall>r\<in>set rs. tr_index s (rc_id r) = Some (au_digest env r)" "\<forall>i. i \<notin> rc_id ` set rs \<longrightarrow> tr_index s i = None"
        using assms(2,3) by (auto simp: holds_records_def indexed_def)
      obtain r1 s1 where io: "io (au_io env) s = (r1, s1)" by force
      have "tr_index s1 = tr_index s" using keepsD [OF keeps_io(3) io] by (simp add: stored_part_def)
      then show ?thesis using assms(1) None True io ix
        by (cases r1; cases "rid \<in> rc_id ` set rs") (auto simp: lookup_record_def read_index_def st_bind_def st_seq_def)
    next
      case False
      obtain r1 s1 where f: "find_record_in_history env rid s = (r1, s1)" by force
      show ?thesis
      proof (cases r1)
        case (Inr r)
        from find_record_in_history_some [OF f [unfolded Inr] assms(2,4)] show ?thesis
          using assms(1) None False f Inr by (auto simp: lookup_record_def st_bind_def split: option.splits)
      qed (use assms(1) None False f in \<open>auto simp: lookup_record_def st_bind_def\<close>)
    qed
  qed
qed

lemma record_decision_holds:
  assumes run: "record_decision env r s = (res, s')" and h: "holds_records env rs s"
    and ok: "\<forall>x\<in>set rs. json_ok env x" and env: "whole_writes env" and inj: "inj_on (au_digest env) (insert r (set rs))"
  shows "(holds_records env rs s' \<and> (res = Inr () \<longrightarrow> (\<exists>e\<in>set rs. e = r \<or> same_record e r))) \<or>
    (holds_records env (rs @ [r]) s' \<and> rc_id r \<notin> rc_id ` set rs \<and> res = Inr ())"
proof -
  have kept: "holds_records env rs t'" if "stored_part t' = stored_part t" "holds_records env rs t" for t t'
    using holds_records_stored [OF that(1)] that(2) by simp
  obtain r1 s1 where p: "prepare_locked env s = (r1, s1)" by force
  from prepare_locked_holds [OF p h ok] have h1: "holds_records env rs s1" "r1 = Inr () \<longrightarrow> tr_initialized s1" by auto
  show ?thesis
  proof (cases r1)
    case (Inl e)
    then show ?thesis using run p h1 by (auto simp: record_decision_def st_run)
  next
    case (Inr u)
    obtain r2 s2 where i: "io (au_io env) s1 = (r2, s2)" by force
    have st2: "stored_part s2 = stored_part s1" using keepsD [OF keeps_io(3) i] .
    show ?thesis
    proof (cases r2)
      case (Inl e)
      then show ?thesis using run p i Inr kept [OF st2 h1(1)] by (auto simp: record_decision_def st_run)
    next
      case r2: (Inr u2)
      obtain s3 where c: "create_file s2 = (Inr (), s3)" by (simp add: create_file_def)
      from create_file_holds [OF c kept [OF st2 h1(1)]] Inr h1(2) st2
      have h3: "holds_records env rs s3" "tr_file s3 \<noteq> None" "tr_initialized s3" by (auto simp: stored_part_def)
      obtain r4 s4 where l: "lookup_record env (rc_id r) s3 = (r4, s4)" by force
      note lk = lookup_record_exact [OF l h3(1,3) ok]
      have h4: "holds_records env rs s4" "tr_file s4 \<noteq> None" "tr_initialized s4"
        using lk kept [OF _ h3(1)] h3(2,3) by (auto simp: stored_part_def)
      have sync: "sync_all env s4 = (Inr (), s4\<lparr>tr_calls := Suc (tr_calls s4)\<rparr>)"
        using env by (simp add: sync_all_def io_def io_ok_def next_call_def st_bind_def whole_writes_def)
      have synced: "holds_records env rs (s4\<lparr>tr_calls := Suc (tr_calls s4)\<rparr>)"
        using kept [OF _ h4(1)] by (simp add: stored_part_def)
      have rest: "st_bind (lookup_record env (rc_id r)) (\<lambda>(known, indexed_digest).
          case known of
            Some existing \<Rightarrow> if \<not> same_record existing r then st_error (RecordConflict (rc_id r)) else sync_all env
          | None \<Rightarrow> (case indexed_digest of
                Some existing_digest \<Rightarrow>
                  if existing_digest \<noteq> au_digest env r then st_error (RecordConflict (rc_id r)) else sync_all env
              | None \<Rightarrow> append_record env r)) s3 = (res, s')"
        using run p i c Inr r2 by (simp add: record_decision_def st_run)
      consider (err) e where "r4 = Inl e" | (known) e d where "r4 = Inr (Some e, d)" | (digest) d where "r4 = Inr (None, Some d)"
        | (fresh) "r4 = Inr (None, None)" by (cases r4) (auto, metis not_None_eq)
      then show ?thesis
      proof cases
        case err
        then show ?thesis using rest l h4 by (auto simp: st_run)
      next
        case known
        then show ?thesis using rest l h4 lk sync synced by (auto simp: st_run split: if_splits)
      next
        case digest
        then obtain e where e: "e \<in> set rs" "rc_id e = rc_id r" "au_digest env e = d" using lk by auto
        then have "au_digest env r = d \<Longrightarrow> e = r" using inj_onD [OF inj, of e r] by auto
        then show ?thesis using rest l h4 sync synced digest e by (auto simp: st_run split: if_splits)
      next
        case fresh
        then have "append_record env r s4 = (res, s')" "rc_id r \<notin> rc_id ` set rs" using rest l lk by (auto simp: st_run)
        from append_record_holds [OF this(1) h4(1) env this(2) h4(3,2)] this(2) show ?thesis by auto
      qed
    qed
  qed
qed

section \<open>Every decision is recorded once\<close>

text \<open>
  What a trail goes through: decisions are recorded, with whatever result, it is prepared, and the
  bridge is restarted on the files it left.
\<close>

definition restart :: "BridgeAuditTrail \<Rightarrow> BridgeAuditTrail" where
  "restart s = (new_trail (tr_file s) (tr_index s))\<lparr>tr_calls := tr_calls s\<rparr>"

inductive trail_history :: "audit_env \<Rightarrow> AuditRecord set \<Rightarrow> BridgeAuditTrail \<Rightarrow> bool" for env R where
  fresh: "trail_history env R (new_trail None Map.empty)"
| recorded: "trail_history env R s \<Longrightarrow> r \<in> R \<Longrightarrow> record_decision env r s = (res, s') \<Longrightarrow> trail_history env R s'"
| prepared: "trail_history env R s \<Longrightarrow> prepare env s = (res, s') \<Longrightarrow> trail_history env R s'"
| restarted: "trail_history env R s \<Longrightarrow> trail_history env R (restart s)"

lemma trail_history_holds:
  assumes "trail_history env R s" "\<forall>r\<in>R. json_ok env r" "inj_on (au_digest env) R" "whole_writes env"
  shows "\<exists>rs. holds_records env rs s \<and> set rs \<subseteq> R"
  using assms(1)
proof (induction rule: trail_history.induct)
  case fresh
  show ?case by (intro exI [of _ "[]"]) (simp add: holds_records_def new_trail_def file_content_def lines_of_def indexed_def)
next
  case (recorded s r res s')
  then obtain rs where rs: "holds_records env rs s" "set rs \<subseteq> R" by blast
  then have "insert r (set rs) \<subseteq> R" "\<forall>x\<in>set rs. json_ok env x" using assms(2) recorded.hyps(2) by auto
  then have "inj_on (au_digest env) (insert r (set rs))" "\<forall>x\<in>set rs. json_ok env x"
    using inj_on_subset [OF assms(3)] by blast+
  from record_decision_holds [OF recorded.hyps(3) rs(1) this(2) assms(4) this(1)]
  show ?case
  proof
    assume "holds_records env rs s' \<and> (res = Inr () \<longrightarrow> (\<exists>e\<in>set rs. e = r \<or> same_record e r))"
    with rs(2) show ?case by blast
  next
    assume "holds_records env (rs @ [r]) s' \<and> rc_id r \<notin> rc_id ` set rs \<and> res = Inr ()"
    with rs(2) recorded.hyps(2) show ?case by (intro exI [of _ "rs @ [r]"]) simp
  qed
next
  case (prepared s res s')
  then obtain rs where "holds_records env rs s" "set rs \<subseteq> R" by blast
  with prepare_locked_holds [of env s res s' rs] prepared.hyps(2) assms(2) show ?case
    unfolding prepare_def by (intro exI [of _ rs]) blast
next
  case (restarted s)
  then show ?case
    by (auto simp: holds_records_def restart_def new_trail_def file_content_def)
qed

text \<open>
  C19: the audit trail records every decision once. Whatever happened before (restarts, failing
  calls, a missing or broken index), recording either leaves the trail as it was or appends exactly
  this record, and only where its id was new; the trail never holds two records of one request; and
  when recording succeeds, the trail read back holds the decision, so a conflicting second
  decision cannot succeed. This needs writes that leave nothing when they fail, and syncs that do not fail.
\<close>

theorem decisions_recorded_once:
  assumes "trail_history env R s" "\<forall>r\<in>R. json_ok env r" "inj_on (au_digest env) R" "whole_writes env"
    and "r \<in> R" "record_decision env r s = (res, s')"
  shows "\<exists>rs rs'. read_all env s = Some rs \<and> read_all env s' = Some rs' \<and> distinct (map rc_id rs') \<and>
    (rs' = rs \<or> (rs' = rs @ [r] \<and> rc_id r \<notin> rc_id ` set rs)) \<and>
    (res = Inr () \<longrightarrow> (\<exists>e\<in>set rs'. e = r \<or> same_record e r))"
proof -
  obtain rs where rs: "holds_records env rs s" "set rs \<subseteq> R" using trail_history_holds [OF assms(1-4)] by blast
  then have ok: "\<forall>x\<in>set rs. json_ok env x" and "insert r (set rs) \<subseteq> R" using assms(2,5) by auto
  then have inj: "inj_on (au_digest env) (insert r (set rs))" using inj_on_subset [OF assms(3)] by blast
  have read: "read_all env t = Some ts" if "holds_records env ts t" "set ts \<subseteq> R" for t ts
    using that assms(2) read_all_lines_of [of t env ts] by (auto simp: holds_records_def)
  from record_decision_holds [OF assms(6) rs(1) ok assms(4) inj] show ?thesis
  proof (elim disjE conjE)
    assume "holds_records env rs s'" "res = Inr () \<longrightarrow> (\<exists>e\<in>set rs. e = r \<or> same_record e r)"
    with read [OF this(1) rs(2)] read [OF rs] show ?thesis by (auto simp: holds_records_def)
  next
    assume "holds_records env (rs @ [r]) s'" "rc_id r \<notin> rc_id ` set rs" "res = Inr ()"
    with read [OF this(1)] read [OF rs] rs(2) assms(5) show ?thesis by (auto simp: holds_records_def)
  qed
qed

text \<open>Two reviewers decide the same request: the second record is refused.\<close>

definition sample_record :: "request_id \<Rightarrow> AuditDecision \<Rightarrow> string \<Rightarrow> AuditRecord" where
  "sample_record i d by = \<lparr>rc_id = i, rc_decision = d, rc_decided_by = by, rc_decided_at_ms = 7, rc_outcome_projection = None\<rparr>"

definition sample_ser :: "AuditRecord \<Rightarrow> string" where
  "sample_ser r = show_int (int (rc_id r)) @ (case rc_decision r of AuditApproved \<Rightarrow> ''a'' | AuditRejected \<Rightarrow> ''r'') @ rc_decided_by r"

definition sample_env :: "AuditRecord list \<Rightarrow> audit_env" where
  "sample_env rs = \<lparr>au_ser = sample_ser, au_parse = (\<lambda>l. List.find (\<lambda>r. sample_ser r = l) rs), au_digest = sample_ser,
     au_parent_missing = False, au_io = (\<lambda>_. True), au_write = (\<lambda>_. None), au_sync = (\<lambda>_. True), au_torn_index = (\<lambda>_. None)\<rparr>"

abbreviation alice :: AuditRecord where "alice \<equiv> sample_record 5 AuditApproved ''alice''"
abbreviation bob :: AuditRecord where "bob \<equiv> sample_record 5 AuditRejected ''bob''"

theorem decisions_recorded_once_witness:
  "fst (record_decision (sample_env [alice, bob]) bob
     (snd (record_decision (sample_env [alice, bob]) alice (new_trail None Map.empty)))) = Inl (RecordConflict 5) \<and>
   (\<exists>rs'. read_all (sample_env [alice, bob])
       (snd (record_decision (sample_env [alice, bob]) alice (new_trail None Map.empty))) = Some rs' \<and> alice \<in> set rs')"
proof
  let ?env = "sample_env [alice, bob]"
  show "fst (record_decision ?env bob (snd (record_decision ?env alice (new_trail None Map.empty)))) = Inl (RecordConflict 5)"
    by code_simp
  have ok: "json_ok ?env alice" "json_ok ?env bob" "same_record alice alice" by code_simp+
  have inj: "inj_on (au_digest ?env) {alice, bob}" by code_simp
  have w: "whole_writes ?env" by (simp add: whole_writes_def sample_env_def)
  obtain s' where run: "record_decision ?env alice (new_trail None Map.empty) = (Inr (), s')"
  proof -
    have "fst (record_decision ?env alice (new_trail None Map.empty)) = Inr ()" by code_simp
    then show ?thesis by (intro that [of "snd (record_decision ?env alice (new_trail None Map.empty))"]) (metis prod.collapse)
  qed
  from decisions_recorded_once [OF trail_history.fresh _ inj w _ run] ok
  obtain rs rs' where "read_all ?env (new_trail None Map.empty) = Some rs" "read_all ?env s' = Some rs'"
    "rs' = rs \<or> rs' = rs @ [alice]" "\<exists>e\<in>set rs'. e = alice \<or> same_record e alice" by auto
  moreover have "read_all ?env (new_trail None Map.empty) = Some []" by (simp add: read_all_def new_trail_def)
  ultimately show "\<exists>rs'. read_all ?env (snd (record_decision ?env alice (new_trail None Map.empty))) = Some rs' \<and> alice \<in> set rs'"
    using run by auto
qed

section \<open>Torn writes and failed syncs\<close>

text \<open>
  A torn write loses the decision. The first attempt to record leaves four bytes of the line and
  fails; the next attempt, the retry the bridge allows, succeeds but its line continues the torn
  one, so reading the trail back fails and the search of the history does not find the record.
\<close>

theorem torn_write_loses_the_record:
  "let env = (sample_env [alice])\<lparr>au_write := (\<lambda>n. if n = 3 then Some 4 else None)\<rparr>;
       (first, s1) = record_decision env alice (new_trail None Map.empty);
       (second, s2) = record_decision env alice s1
   in first = Inl IoFailure \<and> second = Inr () \<and> read_all env s2 = None \<and>
      fst (find_record_in_history env (rc_id alice) s2) = Inr None"
  by code_simp

lemma record_new_persistent:
  assumes "tr_initialized s" "tr_persistent_index s" "tr_file s = Some content"
    and "rc_id r \<notin> rc_id ` set (tr_recent s)" "tr_index s (rc_id r) = None"
    and "\<forall>n. au_io env n" "\<forall>n. au_write env n = None" "\<forall>n\<ge>tr_calls s. au_sync env n"
  shows "\<exists>s'. record_decision env r s = (Inr (), s') \<and> tr_initialized s' \<and> tr_persistent_index s' \<and>
    tr_file s' = Some (content @ lines_of env [r]) \<and> tr_recent s' = remember r (tr_recent s) \<and>
    tr_index s' = (tr_index s)(rc_id r \<mapsto> au_digest env r) \<and> tr_calls s \<le> tr_calls s'"
proof -
  have none: "List.find (\<lambda>e. rc_id e = rc_id r) (tr_recent s) = None"
    using assms(4) by (auto simp: find_None_iff) (metis imageI)
  show ?thesis using assms none
    by (simp add: record_decision_def prepare_locked_def lookup_record_def read_index_def append_record_def append_line_def
        write_index_if_persistent_def write_index_def sync_all_def io_def io_ok_def next_call_def create_file_def
        st_seq_def st_bind_def lines_of_def Let_def)
qed

lemma record_all_persistent:
  assumes "tr_initialized s" "tr_persistent_index s" "tr_file s = Some content"
    and "distinct (map rc_id rs)" "\<forall>r\<in>set rs. rc_id r \<notin> rc_id ` set (tr_recent s) \<and> tr_index s (rc_id r) = None"
    and env: "\<forall>n. au_io env n" "\<forall>n. au_write env n = None" "\<forall>n\<ge>tr_calls s. au_sync env n"
  shows "\<exists>s'. foldl (\<lambda>(ok, s) r. case record_decision env r s of (res, s') \<Rightarrow> (ok \<and> res = Inr (), s')) (True, s) rs = (True, s') \<and>
    tr_initialized s' \<and> tr_persistent_index s' \<and> tr_file s' = Some (content @ lines_of env rs) \<and>
    tr_recent s' = foldl (\<lambda>recent r. remember r recent) (tr_recent s) rs \<and>
    (\<forall>i. i \<notin> rc_id ` set rs \<longrightarrow> tr_index s' i = tr_index s i) \<and> tr_calls s \<le> tr_calls s'"
  using assms
proof (induction rs arbitrary: s content)
  case (Cons r rs)
  obtain s1 where s1: "record_decision env r s = (Inr (), s1)" "tr_initialized s1" "tr_persistent_index s1"
    "tr_file s1 = Some (content @ lines_of env [r])" "tr_recent s1 = remember r (tr_recent s)"
    "tr_index s1 = (tr_index s)(rc_id r \<mapsto> au_digest env r)" "tr_calls s \<le> tr_calls s1"
    using record_new_persistent [OF Cons.prems(1-3) _ _ Cons.prems(6-8), of r] Cons.prems(5) by auto
  have new: "\<forall>x\<in>set rs. rc_id x \<notin> rc_id ` set (tr_recent s1) \<and> tr_index s1 (rc_id x) = None"
  proof
    fix x assume x: "x \<in> set rs"
    then have ne: "rc_id x \<noteq> rc_id r" using Cons.prems(4) by (auto simp: image_iff)
    have "rc_id ` set (tr_recent s1) \<subseteq> insert (rc_id r) (rc_id ` set (tr_recent s))"
      using set_remember [of r "tr_recent s"] s1(5) by auto
    moreover have "rc_id x \<notin> rc_id ` set (tr_recent s)" "tr_index s (rc_id x) = None" using Cons.prems(5) x by auto
    ultimately show "rc_id x \<notin> rc_id ` set (tr_recent s1) \<and> tr_index s1 (rc_id x) = None" using ne s1(6) by auto
  qed
  have sync: "\<forall>n\<ge>tr_calls s1. au_sync env n" using Cons.prems(8) s1(7) by auto
  have dist: "distinct (map rc_id rs)" using Cons.prems(4) by simp
  obtain s' where "foldl (\<lambda>(ok, s) r. case record_decision env r s of (res, s') \<Rightarrow> (ok \<and> res = Inr (), s')) (True, s1) rs = (True, s')"
    "tr_initialized s'" "tr_persistent_index s'" "tr_file s' = Some ((content @ lines_of env [r]) @ lines_of env rs)"
    "tr_recent s' = foldl (\<lambda>recent r. remember r recent) (tr_recent s1) rs"
    "\<forall>i. i \<notin> rc_id ` set rs \<longrightarrow> tr_index s' i = tr_index s1 i" "tr_calls s1 \<le> tr_calls s'"
    using Cons.IH [OF s1(2,3,4) dist new Cons.prems(6,7) sync] by blast
  note s' = this
  have "\<forall>i. i \<notin> rc_id ` set (r # rs) \<longrightarrow> tr_index s' i = tr_index s i" using s'(6) s1(6) by simp
  moreover have "tr_file s' = Some (content @ lines_of env (r # rs))" using s'(4) by (simp add: lines_of_def)
  moreover have "foldl (\<lambda>(ok, s) r. case record_decision env r s of (res, s') \<Rightarrow> (ok \<and> res = Inr (), s')) (True, s) (r # rs) = (True, s')"
    using s'(1) s1(1) by simp
  moreover have "tr_recent s' = foldl (\<lambda>recent r. remember r recent) (tr_recent s) (r # rs)" using s'(5) s1(5) by simp
  moreover have "tr_calls s \<le> tr_calls s'" using s'(7) s1(7) by simp
  ultimately show ?case using s'(2,3) by blast
qed (auto simp: lines_of_def)

text \<open>
  After a failed sync a request can be decided twice. The line of a decision is written but the
  sync of its first attempt fails; the retry finds the record in the cache and succeeds, without
  writing the index. Once 1024 later decisions have pushed it out of the cache, a conflicting
  decision on the same request is recorded as well: the trail then holds both.
\<close>

theorem failed_sync_forgets_the_decision:
  assumes "\<forall>n. au_io env n" "\<forall>n. au_write env n = None" "\<forall>n. au_sync env n \<longleftrightarrow> n \<noteq> 4" "\<not> au_parent_missing env"
    and "same_record r r" "rc_id r' = rc_id r" "length others = 1024" "distinct (rc_id r # map rc_id others)"
    and "record_decision env r (new_trail None Map.empty) = (first, s1)" "record_decision env r s1 = (second, s2)"
    and "foldl (\<lambda>(ok, s) x. case record_decision env x s of (res, s') \<Rightarrow> (ok \<and> res = Inr (), s')) (True, s2) others = (all_ok, s3)"
    and "record_decision env r' s3 = (last_result, s4)"
  shows "first = Inl IoFailure \<and> second = Inr () \<and> all_ok \<and> last_result = Inr () \<and>
    tr_file s4 = Some (lines_of env (r # others @ [r']))"
proof -
  have s1: "first = Inl IoFailure" "s1 = \<lparr>tr_initialized = True, tr_persistent_index = True, tr_recent = [r],
      tr_file = Some (lines_of env [r]), tr_index = Map.empty, tr_calls = 5\<rparr>"
    using assms(1-4,9)
    by (auto simp: record_decision_def prepare_locked_def lookup_record_def read_index_def append_record_def append_line_def
        sync_all_def io_def io_ok_def next_call_def create_file_def set_initialized_def new_trail_def remember_def
        MAX_RECENT_AUDIT_RECORDS_def st_seq_def st_bind_def lines_of_def Let_def)
  have s2: "second = Inr ()" "tr_initialized s2" "tr_persistent_index s2" "tr_recent s2 = [r]"
      "tr_file s2 = Some (lines_of env [r])" "tr_index s2 = Map.empty" "tr_calls s2 \<ge> 5"
    using assms(1-5,10) s1(2)
    by (auto simp: record_decision_def prepare_locked_def lookup_record_def
        sync_all_def io_def io_ok_def next_call_def create_file_def st_seq_def st_bind_def)
  have sync: "\<forall>n\<ge>tr_calls s2. au_sync env n" using assms(3) s2(7) by auto
  have new: "\<forall>x\<in>set others. rc_id x \<notin> rc_id ` set (tr_recent s2) \<and> tr_index s2 (rc_id x) = None"
    using assms(8) s2(4,6) by (auto simp: image_iff)
  from record_all_persistent [OF s2(2,3,5) _ new assms(1,2) sync] assms(8,11)
  have s3: "all_ok" "tr_initialized s3" "tr_persistent_index s3" "tr_file s3 = Some (lines_of env [r] @ lines_of env others)"
    "tr_recent s3 = foldl (\<lambda>recent r. remember r recent) [r] others"
    "\<forall>i. i \<notin> rc_id ` set others \<longrightarrow> tr_index s3 i = None" "tr_calls s2 \<le> tr_calls s3"
    using s2(4,6) by auto
  have recent: "tr_recent s3 = others"
    using s3(5) audit_recent.pushes_recent [of "[r]" others] assms(7) by (simp add: MAX_RECENT_AUDIT_RECORDS_def)
  have "rc_id r' \<notin> rc_id ` set (tr_recent s3)" "tr_index s3 (rc_id r') = None" "\<forall>n\<ge>tr_calls s3. au_sync env n"
    using assms(6,8) s3(6,7) recent sync by auto
  from record_new_persistent [OF s3(2,3,4) this(1,2) assms(1,2) this(3)] assms(12)
  show ?thesis using s1(1) s2(1) s3(1) by (auto simp: lines_of_def)
qed

definition other_records :: "AuditRecord list" where
  "other_records = map (\<lambda>i. sample_record i AuditApproved ''carol'') [6..<1030]"

lemma other_records_ids: "length other_records = 1024" "map rc_id other_records = [6..<1030]"
  by (simp_all only: other_records_def length_map length_upt map_map) (simp_all add: sample_record_def comp_def del: upt_Suc)

theorem failed_sync_forgets_the_decision_witness:
  "\<exists>s4 :: BridgeAuditTrail. tr_file s4 = Some (lines_of ((sample_env [])\<lparr>au_sync := (\<lambda>n. n \<noteq> 4)\<rparr>) (alice # other_records @ [bob]))"
proof -
  let ?env = "(sample_env [])\<lparr>au_sync := (\<lambda>n. n \<noteq> 4)\<rparr>"
  obtain first s1 where r1: "record_decision ?env alice (new_trail None Map.empty) = (first, s1)" by force
  obtain second s2 where r2: "record_decision ?env alice s1 = (second, s2)" by force
  obtain all_ok s3 where r3: "foldl (\<lambda>(ok, s) x. case record_decision ?env x s of (res, s') \<Rightarrow> (ok \<and> res = Inr (), s')) (True, s2) other_records = (all_ok, s3)"
    by force
  obtain last_result s4 where r4: "record_decision ?env bob s3 = (last_result, s4)" by force
  have env: "\<forall>n. au_io ?env n" "\<forall>n. au_write ?env n = None" "\<forall>n. au_sync ?env n \<longleftrightarrow> n \<noteq> 4" "\<not> au_parent_missing ?env"
    by (simp_all add: sample_env_def)
  have same: "same_record alice alice" "rc_id bob = rc_id alice" by code_simp+
  have "distinct (rc_id alice # map rc_id other_records)" unfolding other_records_ids by (simp only: distinct.simps distinct_upt set_upt) (simp add: sample_record_def)
  from failed_sync_forgets_the_decision [OF env same other_records_ids(1) this r1 r2 r3 r4] show ?thesis by blast
qed

end
