(* ===== verification/Hitl_Gateway.thy ===== *)
theory Hitl_Gateway
  imports Approvals Hitl_Audit
begin

text \<open>
  The approval gateway of the HITL bridge, \<open>hitl-bridge/src/gateway.rs\<close>: the contract the bridge
  relies on (a locale for the trait \<open>ApprovalGateway\<close>), the gateway over page sessions and the
  in-memory gateway, both interpreted in the contract. Sessions are numbered by allocation, so a
  token of a session is its number; \<open>Uuid::new_v4\<close> takes the next number of a counter, as it never
  returns an id twice.
\<close>

record PendingApproval =
  pa_id :: uuid
  pa_rule_id :: string
  pa_action :: string
  pa_target_signature :: string
  pa_scope :: ApprovalScope
  pa_outcome :: "OutcomeProjection option"

section \<open>The contract\<close>

text \<open>
  A request id is decidable while the request it was minted for is still pending. A decision succeeds
  only on a decidable id and ends that; no step makes an id decidable again.
\<close>

locale approval_gateway =
  fixes decide :: "'v \<Rightarrow> Decision \<Rightarrow> uuid \<Rightarrow> 'g \<Rightarrow> ('e + unit) \<times> 'g"
    and pending :: "'g \<Rightarrow> PendingApproval option \<times> 'g"
    and outside :: "'g \<Rightarrow> 'g \<Rightarrow> bool"
    and env_ok :: "'v \<Rightarrow> bool"
    and good :: "'g \<Rightarrow> bool"
    and decidable :: "'g \<Rightarrow> uuid \<Rightarrow> bool"
    and minted :: "'g \<Rightarrow> uuid \<Rightarrow> bool"
  assumes decide_live: "good g \<Longrightarrow> env_ok v \<Longrightarrow> decide v d i g = (Inr u, g') \<Longrightarrow> decidable g i \<and> \<not> decidable g' i"
    and decidable_minted: "good g \<Longrightarrow> decidable g i \<Longrightarrow> minted g i"
    and decide_step: "good g \<Longrightarrow> env_ok v \<Longrightarrow> decide v d i g = (r, g') \<Longrightarrow>
      good g' \<and> (minted g j \<longrightarrow> minted g' j) \<and> (minted g j \<longrightarrow> decidable g' j \<longrightarrow> decidable g j)"
    and pending_step: "good g \<Longrightarrow> pending g = (p, g') \<Longrightarrow>
      good g' \<and> (minted g j \<longrightarrow> minted g' j) \<and> (minted g j \<longrightarrow> decidable g' j \<longrightarrow> decidable g j)"
    and outside_step: "good g \<Longrightarrow> outside g g' \<Longrightarrow>
      good g' \<and> (minted g j \<longrightarrow> minted g' j) \<and> (minted g j \<longrightarrow> decidable g' j \<longrightarrow> decidable g j)"
begin

definition step :: "'g \<Rightarrow> 'g \<Rightarrow> bool" where
  "step g g' \<longleftrightarrow> (\<exists>v d i r. env_ok v \<and> decide v d i g = (r, g')) \<or> (\<exists>p. pending g = (p, g')) \<or> outside g g'"

lemma step_keeps: "good g \<Longrightarrow> step g g' \<Longrightarrow>
    good g' \<and> (minted g j \<longrightarrow> minted g' j) \<and> (minted g j \<longrightarrow> decidable g' j \<longrightarrow> decidable g j)"
  unfolding step_def using decide_step pending_step outside_step by blast

definition spent :: "'g \<Rightarrow> uuid \<Rightarrow> bool" where
  "spent g i \<longleftrightarrow> good g \<and> minted g i \<and> \<not> decidable g i"

lemma spent_step: "spent g i \<Longrightarrow> step g g' \<Longrightarrow> spent g' i"
  unfolding spent_def using step_keeps by blast

lemma spent_steps: "step\<^sup>*\<^sup>* g g' \<Longrightarrow> spent g i \<Longrightarrow> spent g' i"
  by (induction rule: rtranclp_induct) (auto intro: spent_step)

lemma decide_spends: "good g \<Longrightarrow> env_ok v \<Longrightarrow> decide v d i g = (Inr u, g') \<Longrightarrow> spent g' i"
  unfolding spent_def using decide_live decidable_minted decide_step by blast

lemma spent_refused: "spent g i \<Longrightarrow> env_ok v \<Longrightarrow> fst (decide v d i g) \<noteq> Inr u"
  unfolding spent_def using decide_live by (metis prod.collapse)

lemma decided_once:
  assumes "good g" "env_ok v" "decide v d i g = (Inr u, g1)" "step\<^sup>*\<^sup>* g1 g2" "env_ok v'"
  shows "fst (decide v' d' i g2) \<noteq> Inr u"
  using spent_refused [OF spent_steps [OF assms(4) decide_spends [OF assms(1-3)]] assms(5)] .

end

section \<open>The gateway over page sessions\<close>

record PageSessionGateway =
  gw_sessions :: "nat \<Rightarrow> approval_session"
  gw_current :: nat
  gw_slot :: "((nat \<times> uuid) \<times> uuid) option"
  gw_next_uuid :: uuid

record gateway_env =
  ge_urls :: url_env
  ge_sha :: "string \<Rightarrow> string"
  ge_now_ms :: int
  ge_timestamp :: u64
  ge_reason :: "PolicyApprovalRequest \<Rightarrow> string"
  ge_document :: "ApprovalError + DocumentSnapshot"
  ge_meanwhile :: "approval_session \<Rightarrow> approval_session"

datatype gateway_error = RequestNoLongerPending uuid | SessionRefused ApprovalError

definition pending_policy_approval_snapshot :: "approval_session \<Rightarrow> (uuid \<times> PolicyApprovalRequest) option" where
  "pending_policy_approval_snapshot s = map_option (\<lambda>p. (pend_id p, pend_request p)) (pas_pending (se_approvals s))"

definition minted_id_for :: "nat \<times> uuid \<Rightarrow> PageSessionGateway \<Rightarrow> uuid \<times> PageSessionGateway" where
  "minted_id_for key g =
     (let mint = (gw_next_uuid g, g\<lparr>gw_slot := Some (key, gw_next_uuid g), gw_next_uuid := Suc (gw_next_uuid g)\<rparr>)
      in case gw_slot g of
           Some (existing_key, i) \<Rightarrow> if existing_key = key then (i, g) else mint
         | None \<Rightarrow> mint)"

definition minted_peek :: "nat \<times> uuid \<Rightarrow> PageSessionGateway \<Rightarrow> uuid option" where
  "minted_peek key g = (case gw_slot g of
     Some (existing_key, i) \<Rightarrow> if existing_key = key then Some i else None
   | None \<Rightarrow> None)"

definition expected_request_id :: "nat \<Rightarrow> uuid \<Rightarrow> PageSessionGateway \<Rightarrow> uuid option" where
  "expected_request_id k i g =
     (case pending_policy_approval_snapshot (gw_sessions g k) of
        None \<Rightarrow> None
      | Some (request_id, _) \<Rightarrow> if minted_peek (k, request_id) g = Some i then Some request_id else None)"

definition pending_request :: "PageSessionGateway \<Rightarrow> PendingApproval option \<times> PageSessionGateway" where
  "pending_request g =
     (let k = gw_current g
      in case pending_policy_approval_snapshot (gw_sessions g k) of
           None \<Rightarrow> (None, g\<lparr>gw_slot := None\<rparr>)
         | Some (request_id, pending) \<Rightarrow>
             (case minted_id_for (k, request_id) g of
                (i, g') \<Rightarrow> (Some \<lparr>pa_id = i, pa_rule_id = ar_rule_id pending, pa_action = ar_action pending,
                   pa_target_signature = ar_target_signature pending, pa_scope = ar_scope pending,
                   pa_outcome = ar_outcome pending\<rparr>, g')))"

definition gateway_approve :: "gateway_env \<Rightarrow> uuid \<Rightarrow> PageSessionGateway \<Rightarrow> (gateway_error + unit) \<times> PageSessionGateway" where
  "gateway_approve v i g =
     (let k = gw_current g
      in case expected_request_id k i g of
           None \<Rightarrow> (Inl (RequestNoLongerPending i), g)
         | Some expected_id \<Rightarrow>
             (case approve_pending_policy_request_with_expected (ge_urls v) (ge_sha v) (ge_now_ms v) (ge_timestamp v)
                     (ge_reason v) (ge_document v) (ge_meanwhile v) (Some expected_id) (gw_sessions g k) of
                (r, s') \<Rightarrow> (case r of Inl e \<Rightarrow> Inl (SessionRefused e) | Inr _ \<Rightarrow> Inr (),
                   g\<lparr>gw_sessions := (gw_sessions g)(k := s')\<rparr>)))"

definition gateway_reject :: "gateway_env \<Rightarrow> uuid \<Rightarrow> PageSessionGateway \<Rightarrow> (gateway_error + unit) \<times> PageSessionGateway" where
  "gateway_reject v i g =
     (let k = gw_current g
      in case expected_request_id k i g of
           None \<Rightarrow> (Inl (RequestNoLongerPending i), g)
         | Some expected_id \<Rightarrow>
             (case reject_pending_policy_request_with_expected (ge_timestamp v) (Some expected_id) (gw_sessions g k) of
                (r, s') \<Rightarrow> (case r of Inl e \<Rightarrow> Inl (SessionRefused e) | Inr _ \<Rightarrow> Inr (),
                   g\<lparr>gw_sessions := (gw_sessions g)(k := s')\<rparr>)))"

definition gateway_decide :: "gateway_env \<Rightarrow> Decision \<Rightarrow> uuid \<Rightarrow> PageSessionGateway \<Rightarrow> (gateway_error + unit) \<times> PageSessionGateway" where
  "gateway_decide v d = (case d of DecApproved \<Rightarrow> gateway_approve v | DecRejected \<Rightarrow> gateway_reject v)"

text \<open>
  What happens outside the bridge: a session keeps its pending request, loses it, or publishes a new
  one under a new id; the host swaps its session; other ids are drawn.
\<close>

inductive session_outside :: "PageSessionGateway \<Rightarrow> PageSessionGateway \<Rightarrow> bool" where
  kept: "pas_pending (se_approvals s') = pas_pending (se_approvals (gw_sessions g k)) \<or> pas_pending (se_approvals s') = None \<Longrightarrow>
    session_outside g (g\<lparr>gw_sessions := (gw_sessions g)(k := s')\<rparr>)"
| published: "pending_id (se_approvals s') = Some (gw_next_uuid g) \<Longrightarrow>
    session_outside g (g\<lparr>gw_sessions := (gw_sessions g)(k := s'), gw_next_uuid := Suc (gw_next_uuid g)\<rparr>)"
| swapped: "session_outside g (g\<lparr>gw_current := k\<rparr>)"
| drawn: "session_outside g (g\<lparr>gw_next_uuid := Suc (gw_next_uuid g)\<rparr>)"

text \<open>While a session reads its document, its pending request may be withdrawn, not replaced by an old one.\<close>

definition gateway_env_ok :: "gateway_env \<Rightarrow> bool" where
  "gateway_env_ok v \<longleftrightarrow> (\<forall>s. pas_pending (se_approvals (ge_meanwhile v s)) = pas_pending (se_approvals s) \<or>
     pas_pending (se_approvals (ge_meanwhile v s)) = None)"

definition gateway_wf :: "PageSessionGateway \<Rightarrow> bool" where
  "gateway_wf g \<longleftrightarrow> (\<forall>k r. pending_id (se_approvals (gw_sessions g k)) = Some r \<longrightarrow> r < gw_next_uuid g) \<and>
     (\<forall>k r i. gw_slot g = Some ((k, r), i) \<longrightarrow> r < gw_next_uuid g \<and> i < gw_next_uuid g)"

definition gateway_decidable :: "PageSessionGateway \<Rightarrow> uuid \<Rightarrow> bool" where
  "gateway_decidable g i \<longleftrightarrow> (case gw_slot g of
     None \<Rightarrow> False
   | Some ((k, r), j) \<Rightarrow> j = i \<and> pending_id (se_approvals (gw_sessions g k)) = Some r)"

definition gateway_minted :: "PageSessionGateway \<Rightarrow> uuid \<Rightarrow> bool" where
  "gateway_minted g i \<longleftrightarrow> i < gw_next_uuid g"

lemmas gateway_defs = gateway_wf_def gateway_decidable_def gateway_minted_def

lemma pending_id_kept:
  "pas_pending (se_approvals s') = pas_pending (se_approvals s) \<or> pas_pending (se_approvals s') = None \<Longrightarrow>
     pending_id (se_approvals s') = pending_id (se_approvals s) \<or> pending_id (se_approvals s') = None"
  by (auto simp: pending_id_def)

lemma expected_request_id_Some:
  "expected_request_id k i g = Some r \<longleftrightarrow>
     gw_slot g = Some ((k, r), i) \<and> pending_id (se_approvals (gw_sessions g k)) = Some r"
  by (auto simp: expected_request_id_def pending_policy_approval_snapshot_def minted_peek_def pending_id_def
      split: option.splits prod.splits if_splits)

lemma commit_pending:
  assumes "commit_pending_policy_approval env sha now ts reason p doc s = (r, s')"
  shows "pas_pending (se_approvals s') = pas_pending (se_approvals s) \<or> pas_pending (se_approvals s') = None"
    and "\<forall>x. r = Inr x \<longrightarrow> pas_pending (se_approvals s') = None"
  using assms by (auto simp: commit_pending_policy_approval_def log_audit_def Let_def split: sum.splits if_splits)

lemma gateway_decide_session:
  assumes "gateway_decide v d i g = (r, g')" "gateway_env_ok v"
  shows "\<exists>s'. g' = g\<lparr>gw_sessions := (gw_sessions g)(gw_current g := s')\<rparr> \<and>
    (pas_pending (se_approvals s') = pas_pending (se_approvals (gw_sessions g (gw_current g))) \<or> pas_pending (se_approvals s') = None) \<and>
    (r = Inr () \<longrightarrow> (\<exists>req. gw_slot g = Some ((gw_current g, req), i) \<and>
        pending_id (se_approvals (gw_sessions g (gw_current g))) = Some req) \<and> pas_pending (se_approvals s') = None)"
proof (cases "expected_request_id (gw_current g) i g")
  case None
  then have "r = Inl (RequestNoLongerPending i)" "g' = g"
    using assms(1) by (cases d; simp add: gateway_decide_def gateway_approve_def gateway_reject_def)+
  then show ?thesis by (intro exI [of _ "gw_sessions g (gw_current g)"]) simp
next
  case (Some req)
  let ?s = "gw_sessions g (gw_current g)"
  note slot = Some [unfolded expected_request_id_Some]
  have mw: "pas_pending (se_approvals (ge_meanwhile v ?s)) = pas_pending (se_approvals ?s) \<or>
      pas_pending (se_approvals (ge_meanwhile v ?s)) = None" using assms(2) by (simp add: gateway_env_ok_def)
  show ?thesis
  proof (cases d)
    case DecApproved
    obtain r1 s' where ap: "approve_pending_policy_request_with_expected (ge_urls v) (ge_sha v) (ge_now_ms v) (ge_timestamp v)
       (ge_reason v) (ge_document v) (ge_meanwhile v) (Some req) ?s = (r1, s')" by force
    then have g': "r = (case r1 of Inl e \<Rightarrow> Inl (SessionRefused e) | Inr _ \<Rightarrow> Inr ())"
        "g' = g\<lparr>gw_sessions := (gw_sessions g)(gw_current g := s')\<rparr>"
      using assms(1) DecApproved Some by (simp_all add: gateway_decide_def gateway_approve_def Let_def)
    obtain snap where begun: "approve_begin (Some req) ?s = Inr (Some snap)"
      using slot by (auto simp: approve_begin_def pending_id_def)
    have "(pas_pending (se_approvals s') = pas_pending (se_approvals ?s) \<or> pas_pending (se_approvals s') = None) \<and>
        (\<forall>x. r1 = Inr x \<longrightarrow> pas_pending (se_approvals s') = None)"
    proof (cases "ge_document v")
      case (Inl e)
      then show ?thesis using ap begun mw by (auto simp: approve_pending_policy_request_with_expected_def)
    next
      case (Inr doc)
      obtain rc sc where "commit_pending_policy_approval (ge_urls v) (ge_sha v) (ge_now_ms v) (ge_timestamp v) (ge_reason v)
          snap doc (ge_meanwhile v ?s) = (rc, sc)" by force
      note c = this commit_pending [OF this]
      have "s' = sc" "\<forall>x. r1 = Inr x \<longrightarrow> (\<exists>y. rc = Inr y)" using ap begun Inr c(1)
        by (auto simp: approve_pending_policy_request_with_expected_def split: sum.splits)
      with c(2,3) mw show ?thesis by auto
    qed
    with g' slot show ?thesis by (intro exI [of _ s']) (auto split: sum.splits)
  next
    case DecRejected
    obtain r1 s' where rj: "reject_pending_policy_request_with_expected (ge_timestamp v) (Some req) ?s = (r1, s')" by force
    then have g': "r = (case r1 of Inl e \<Rightarrow> Inl (SessionRefused e) | Inr _ \<Rightarrow> Inr ())"
        "g' = g\<lparr>gw_sessions := (gw_sessions g)(gw_current g := s')\<rparr>"
      using assms(1) DecRejected Some by (simp_all add: gateway_decide_def gateway_reject_def Let_def)
    have "pas_pending (se_approvals s') = None" using rj slot
      by (auto simp: reject_pending_policy_request_with_expected_def log_audit_def pending_id_def)
    with g' slot show ?thesis by (intro exI [of _ s']) auto
  qed
qed

lemma gateway_session_step:
  assumes "gateway_wf g" "g' = g\<lparr>gw_sessions := (gw_sessions g)(k := s')\<rparr>"
    and "pas_pending (se_approvals s') = pas_pending (se_approvals (gw_sessions g k)) \<or> pas_pending (se_approvals s') = None"
  shows "gateway_wf g' \<and> (gateway_minted g j \<longrightarrow> gateway_minted g' j) \<and>
    (gateway_minted g j \<longrightarrow> gateway_decidable g' j \<longrightarrow> gateway_decidable g j)"
  using assms(1,2) pending_id_kept [OF assms(3)] by (auto simp: gateway_defs split: option.splits if_splits)

lemma session_outside_step:
  assumes "session_outside g g'" "gateway_wf g"
  shows "gateway_wf g' \<and> (gateway_minted g j \<longrightarrow> gateway_minted g' j) \<and>
    (gateway_minted g j \<longrightarrow> gateway_decidable g' j \<longrightarrow> gateway_decidable g j)"
  using assms
proof (induction rule: session_outside.induct)
  case (kept s' g k)
  then show ?case by (intro gateway_session_step) auto
next
  case (published s' g k)
  have "i < Suc (gw_next_uuid g)" if "pending_id (se_approvals (gw_sessions g k)) = Some i" for i k
    using that published(2) by (auto simp: gateway_wf_def intro: less_SucI)
  moreover have "r < gw_next_uuid g" if "gw_slot g = Some ((k, r), i)" for k r i
    using that published(2) by (auto simp: gateway_wf_def)
  ultimately show ?case using published by (auto simp: gateway_defs less_SucI split: option.splits if_splits)
next
  case (swapped g k)
  then show ?case by (auto simp: gateway_defs split: option.splits)
next
  case (drawn g)
  then show ?case by (auto simp: gateway_defs less_SucI split: option.splits)
qed

lemma pending_request_step:
  assumes "pending_request g = (p, g')" "gateway_wf g"
  shows "gateway_wf g' \<and> (gateway_minted g j \<longrightarrow> gateway_minted g' j) \<and>
    (gateway_minted g j \<longrightarrow> gateway_decidable g' j \<longrightarrow> gateway_decidable g j)"
proof (cases "pending_id (se_approvals (gw_sessions g (gw_current g)))")
  case None
  then have "g' = g\<lparr>gw_slot := None\<rparr>"
    using assms(1) by (simp add: pending_request_def pending_policy_approval_snapshot_def pending_id_def)
  then show ?thesis using assms(2) by (auto simp: gateway_defs)
next
  case (Some r)
  then have "g' = snd (minted_id_for (gw_current g, r) g)" and r: "r < gw_next_uuid g"
    using assms by (auto simp: pending_request_def pending_policy_approval_snapshot_def pending_id_def gateway_wf_def
        split: prod.splits)
  then show ?thesis using assms(2) r
    by (auto simp: minted_id_for_def gateway_defs less_SucI Let_def split: option.splits if_splits)
qed

interpretation page_gateway: approval_gateway gateway_decide pending_request session_outside gateway_env_ok gateway_wf
  gateway_decidable gateway_minted
proof (unfold_locales, goal_cases)
  case (1 g v d i u g')
  from gateway_decide_session [OF 1(3,2)] show ?case
    by (auto simp: gateway_defs pending_id_def split: option.splits)
next
  case (2 g i)
  then show ?case by (auto simp: gateway_defs split: option.splits)
next
  case (3 g v d i r g' j)
  from gateway_decide_session [OF 3(3,2)] 3(1) show ?case using gateway_session_step by blast
next
  case (4 g p g' j)
  then show ?case using pending_request_step by blast
next
  case (5 g g' j)
  then show ?case using session_outside_step by blast
qed

section \<open>A decision is on the request shown\<close>

definition gateway_step :: "PageSessionGateway \<Rightarrow> PageSessionGateway \<Rightarrow> bool" where
  "gateway_step g g' \<longleftrightarrow> (\<exists>v d i r. gateway_env_ok v \<and> gateway_decide v d i g = (r, g')) \<or>
     (\<exists>p. pending_request g = (p, g')) \<or> session_outside g g'"

definition shows_request :: "PendingApproval \<Rightarrow> PolicyApprovalRequest \<Rightarrow> bool" where
  "shows_request p req \<longleftrightarrow> pa_rule_id p = ar_rule_id req \<and> pa_action p = ar_action req \<and>
     pa_target_signature p = ar_target_signature req \<and> pa_scope p = ar_scope req \<and> pa_outcome p = ar_outcome req"

definition stands_for :: "uuid \<Rightarrow> PolicyApprovalRequest \<Rightarrow> PageSessionGateway \<Rightarrow> bool" where
  "stands_for i req g \<longleftrightarrow> gateway_wf g \<and> gateway_minted g i \<and>
     (\<forall>k r pend. gw_slot g = Some ((k, r), i) \<longrightarrow> pas_pending (se_approvals (gw_sessions g k)) = Some pend \<longrightarrow>
        pend_id pend = r \<longrightarrow> pend_request pend = req)"

lemma gateway_step_wf: "gateway_step g g' \<Longrightarrow> gateway_wf g \<Longrightarrow> gateway_wf g' \<and> (gateway_minted g j \<longrightarrow> gateway_minted g' j)"
  unfolding gateway_step_def
  using page_gateway.decide_step page_gateway.pending_step page_gateway.outside_step by blast

lemma stands_for_session:
  "stands_for i req g \<Longrightarrow> pas_pending (se_approvals s') = pas_pending (se_approvals (gw_sessions g k)) \<or> pas_pending (se_approvals s') = None \<Longrightarrow>
     stands_for i req (g\<lparr>gw_sessions := (gw_sessions g)(k := s')\<rparr>)"
  unfolding stands_for_def using gateway_session_step [of g _ k s' i] by (auto split: if_splits)

lemma stands_for_step:
  assumes "gateway_step g g'" "stands_for i req g"
  shows "stands_for i req g'"
proof -
  have wf: "gateway_wf g'" "gateway_minted g' i"
    using gateway_step_wf [OF assms(1)] assms(2) by (auto simp: stands_for_def)
  from assms(1) consider (decide) v d j r where "gateway_env_ok v" "gateway_decide v d j g = (r, g')"
    | (pending) p where "pending_request g = (p, g')" | (outside) "session_outside g g'" by (auto simp: gateway_step_def)
  then show ?thesis
  proof cases
    case decide
    from gateway_decide_session [OF decide(2,1)] assms(2) show ?thesis using stands_for_session by blast
  next
    case pending
    have "gw_sessions g' = gw_sessions g \<and> (gw_slot g' = gw_slot g \<or> gw_slot g' = None \<or> (\<exists>key. gw_slot g' = Some (key, gw_next_uuid g)))"
      using pending by (auto simp: pending_request_def minted_id_for_def Let_def split: option.splits prod.splits if_splits)
    then show ?thesis using assms(2) wf by (auto simp: stands_for_def gateway_minted_def)
  next
    case outside
    then show ?thesis
    proof cases
      case (kept s' k)
      then show ?thesis using stands_for_session [OF assms(2)] by blast
    next
      case (published s' k)
      have "pend_id p = gw_next_uuid g" if "pas_pending (se_approvals s') = Some p" for p
        using published(2) that by (simp add: pending_id_def)
      moreover have "r < gw_next_uuid g" if "gw_slot g = Some ((k', r), i)" for k' r
        using assms(2) that by (auto simp: stands_for_def gateway_wf_def)
      ultimately show ?thesis using assms(2) wf published(1) by (fastforce simp: stands_for_def)
    qed (use assms(2) wf in \<open>auto simp: stands_for_def\<close>)
  qed
qed

lemma stands_for_steps: "gateway_step\<^sup>*\<^sup>* g g' \<Longrightarrow> stands_for i req g \<Longrightarrow> stands_for i req g'"
  by (induction rule: rtranclp_induct) (auto intro: stands_for_step)

lemma pending_request_stands_for:
  assumes "pending_request g = (Some p, g1)" "gateway_wf g"
  shows "\<exists>req. stands_for (pa_id p) req g1 \<and> shows_request p req"
proof -
  obtain pend where pend: "pas_pending (se_approvals (gw_sessions g (gw_current g))) = Some pend"
    using assms(1) by (auto simp: pending_request_def pending_policy_approval_snapshot_def Let_def split: option.splits)
  then have g1: "minted_id_for (gw_current g, pend_id pend) g = (pa_id p, g1)" and sh: "shows_request p (pend_request pend)"
    using assms(1) by (auto simp: pending_request_def pending_policy_approval_snapshot_def shows_request_def Let_def split: prod.splits)
  have "gw_slot g1 = Some ((gw_current g, pend_id pend), pa_id p)" "gw_sessions g1 = gw_sessions g" "gateway_minted g1 (pa_id p)"
    using g1 assms(2) by (auto simp: minted_id_for_def gateway_minted_def gateway_wf_def Let_def split: option.splits if_splits)
  then show ?thesis using pend sh pending_request_step [OF assms] by (auto simp: stands_for_def)
qed


definition shop_gateway :: PageSessionGateway where
  "shop_gateway = \<lparr>gw_sessions = (\<lambda>_. shop_requested), gw_current = 0, gw_slot = None, gw_next_uuid = 8\<rparr>"

definition shop_gateway_env :: gateway_env where
  "shop_gateway_env = \<lparr>ge_urls = plain_urls, ge_sha = (\<lambda>s. s), ge_now_ms = 0, ge_timestamp = 5, ge_reason = (\<lambda>_. ''ok''),
     ge_document = Inr shop_page, ge_meanwhile = (\<lambda>s. s)\<rparr>"

lemma shop_gateway_shows: "pending_request shop_gateway =
    (Some \<lparr>pa_id = 8, pa_rule_id = ''pay'', pa_action = ''click'', pa_target_signature = ''key'', pa_scope = ActionOnly, pa_outcome = None\<rparr>,
     shop_gateway\<lparr>gw_slot := Some ((0, 7), 8), gw_next_uuid := 9\<rparr>)"
  by (simp add: pending_request_def shop_gateway_def pending_policy_approval_snapshot_def shop_requested_def shop_pending_def
      shop_request_def minted_id_for_def)


section \<open>The in-memory gateway\<close>

record MockGateway =
  mk_pending :: "PendingApproval option"
  mk_resolutions :: "(uuid \<times> Decision) list"

definition mock_resolve :: "unit \<Rightarrow> Decision \<Rightarrow> uuid \<Rightarrow> MockGateway \<Rightarrow> (gateway_error + unit) \<times> MockGateway" where
  "mock_resolve v d i g = (case mk_pending g of
     Some p \<Rightarrow> if pa_id p = i then (Inr (), g\<lparr>mk_pending := None, mk_resolutions := mk_resolutions g @ [(i, d)]\<rparr>)
               else (Inl (RequestNoLongerPending i), g)
   | None \<Rightarrow> (Inl (RequestNoLongerPending i), g))"

definition mock_pending_request :: "MockGateway \<Rightarrow> PendingApproval option \<times> MockGateway" where
  "mock_pending_request g = (mk_pending g, g)"

interpretation mock_gateway: approval_gateway mock_resolve mock_pending_request "\<lambda>g g'. g' = g" "\<lambda>_. True" "\<lambda>_. True"
  "\<lambda>g i. map_option pa_id (mk_pending g) = Some i"
  "\<lambda>g i. map_option pa_id (mk_pending g) = Some i \<or> i \<in> fst ` set (mk_resolutions g)"
  by unfold_locales (auto simp: mock_resolve_def mock_pending_request_def split: option.splits if_splits)

section \<open>The session lock\<close>

text \<open>\<open>hitl-bridge/src/lock.rs\<close>\<close>

datatype ClaimOutcome = Won | LostTo string Decision

type_synonym SessionLockRegistry = "uuid \<rightharpoonup> string \<times> Decision"

definition try_claim :: "uuid \<Rightarrow> string \<Rightarrow> Decision \<Rightarrow> SessionLockRegistry \<Rightarrow> ClaimOutcome \<times> SessionLockRegistry" where
  "try_claim i decided_by decision claims = (case claims i of
     Some (by, d) \<Rightarrow> (LostTo by d, claims)
   | None \<Rightarrow> (Won, claims(i \<mapsto> (decided_by, decision))))"

end
