(* ===== verification/Hitl_Bridge.thy ===== *)
theory Hitl_Bridge
  imports Hitl_Gateway
begin

text \<open>
  The HITL bridge, \<open>hitl-bridge/src/bridge.rs\<close>: polling for requests and resolving them through
  the phases claim, gateway, audit, notifier. A bridge is modelled over any gateway (its
  operations are arguments); its properties are proved in the contract \<open>approval_gateway\<close> and stated
  for the gateway over page sessions. The mutex of a request's progress makes each call of
  \<open>resolve\<close> on it atomic; polling is three steps that other steps may separate. The bridge also
  keeps, for the statements, the calls that succeeded.
\<close>

section \<open>State\<close>

definition MAX_RESOLUTION_ENTRIES :: nat where
  "MAX_RESOLUTION_ENTRIES = 1024"

datatype NotificationState = Notifying | Notified string

record ResolutionProgress =
  rp_decision :: Decision
  rp_record :: AuditRecord
  rp_gateway_applied :: bool
  rp_audited :: bool
  rp_chat_updated :: bool

record ResolutionRegistry =
  rr_entries :: "(uuid \<times> ResolutionProgress) list"
  rr_terminal_order :: "uuid list"

datatype bridge_event =
    GatewayApplied uuid Decision string
  | DecisionAudited AuditRecord
  | ChatUpdated uuid Decision string

record 'g bridge =
  br_gateway :: 'g
  br_audit :: BridgeAuditTrail
  br_resolutions :: ResolutionRegistry
  br_tokens :: "uuid \<rightharpoonup> NotificationState"
  br_calls :: nat
  br_events :: "bridge_event list"

record 'v bridge_env =
  be_gateway :: "nat \<Rightarrow> 'v"
  be_audit :: audit_env
  be_epoch_millis :: "nat \<Rightarrow> u64"
  be_notify :: "nat \<Rightarrow> string option" \<comment> \<open>the token of the posted prompt\<close>
  be_respond :: "nat \<Rightarrow> bool"

datatype 'e bridge_error =
    CapacityReached
  | AlreadyResolved string Decision
  | GatewayFailed 'e
  | AuditFailed audit_error
  | StillPosting
  | NotifierFailed

type_synonym ('g, 'e, 'a) bridge_op = "('g bridge, 'e bridge_error, 'a) stateful"

section \<open>The registry\<close>

definition new_progress :: "uuid \<Rightarrow> Decision \<Rightarrow> string \<Rightarrow> u64 \<Rightarrow> OutcomeProjection option \<Rightarrow> ResolutionProgress" where
  "new_progress i decision decided_by now outcome =
     \<lparr>rp_decision = decision,
      rp_record = \<lparr>rc_id = i, rc_decision = audit_decision decision, rc_decided_by = decided_by, rc_decided_at_ms = now,
        rc_outcome_projection = outcome\<rparr>,
      rp_gateway_applied = False, rp_audited = False, rp_chat_updated = False\<rparr>"

definition is_same_decision :: "ResolutionProgress \<Rightarrow> Decision \<Rightarrow> string \<Rightarrow> bool" where
  "is_same_decision p decision decided_by \<longleftrightarrow> rp_decision p = decision \<and> rc_decided_by (rp_record p) = decided_by"

text \<open>\<open>make_room_for_claim\<close>: terminal entries go, oldest first; False where only unfinished ones are left.\<close>

fun make_room :: "uuid list \<Rightarrow> (uuid \<times> ResolutionProgress) list \<Rightarrow> bool \<times> ResolutionRegistry" where
  "make_room [] entries =
     (length entries < MAX_RESOLUTION_ENTRIES, \<lparr>rr_entries = entries, rr_terminal_order = []\<rparr>)"
| "make_room (expired # order) entries =
     (if length entries \<ge> MAX_RESOLUTION_ENTRIES then make_room order (AList.delete expired entries)
      else (True, \<lparr>rr_entries = entries, rr_terminal_order = expired # order\<rparr>))"

definition make_room_for_claim :: "ResolutionRegistry \<Rightarrow> bool \<times> ResolutionRegistry" where
  "make_room_for_claim r = make_room (rr_terminal_order r) (rr_entries r)"

fun drop_expired :: "uuid list \<Rightarrow> (uuid \<times> ResolutionProgress) list \<Rightarrow> ResolutionRegistry" where
  "drop_expired [] entries = \<lparr>rr_entries = entries, rr_terminal_order = []\<rparr>"
| "drop_expired (expired # order) entries =
     (if length (expired # order) > MAX_RESOLUTION_ENTRIES then drop_expired order (AList.delete expired entries)
      else \<lparr>rr_entries = entries, rr_terminal_order = expired # order\<rparr>)"

definition mark_terminal :: "uuid \<Rightarrow> ResolutionRegistry \<Rightarrow> ResolutionRegistry" where
  "mark_terminal i r = drop_expired (rr_terminal_order r @ [i]) (rr_entries r)"

section \<open>Operations\<close>

definition bridge_call :: "('g, 'e, nat) bridge_op" where
  "bridge_call s = (Inr (br_calls s), s\<lparr>br_calls := Suc (br_calls s)\<rparr>)"

definition log_call :: "bridge_event \<Rightarrow> ('g, 'e, unit) bridge_op" where
  "log_call ev = st_modify (\<lambda>s. s\<lparr>br_events := br_events s @ [ev]\<rparr>)"

definition on_gateway :: "('g \<Rightarrow> 'a \<times> 'g) \<Rightarrow> ('g, 'e, 'a) bridge_op" where
  "on_gateway f s = (case f (br_gateway s) of (a, g) \<Rightarrow> (Inr a, s\<lparr>br_gateway := g\<rparr>))"

definition on_audit :: "unit audit_op \<Rightarrow> ('g, 'e, unit) bridge_op" where
  "on_audit f s = (case f (br_audit s) of
     (Inl e, a) \<Rightarrow> (Inl (AuditFailed e), s\<lparr>br_audit := a\<rparr>)
   | (Inr _, a) \<Rightarrow> (Inr (), s\<lparr>br_audit := a\<rparr>))"

definition get_progress :: "uuid \<Rightarrow> 'g bridge \<Rightarrow> ResolutionProgress option" where
  "get_progress i s = map_of (rr_entries (br_resolutions s)) i"

definition put_progress :: "uuid \<Rightarrow> ResolutionProgress \<Rightarrow> 'g bridge \<Rightarrow> 'g bridge" where
  "put_progress i p s = s\<lparr>br_resolutions := (br_resolutions s)
     \<lparr>rr_entries := AList.update i p (rr_entries (br_resolutions s))\<rparr>\<rparr>"

definition set_progress :: "uuid \<Rightarrow> ResolutionProgress \<Rightarrow> ('g, 'e, unit) bridge_op" where
  "set_progress i p = st_modify (put_progress i p)"

definition set_token :: "uuid \<Rightarrow> NotificationState option \<Rightarrow> ('g, 'e, unit) bridge_op" where
  "set_token i t = st_modify (\<lambda>s. s\<lparr>br_tokens := (br_tokens s)(i := t)\<rparr>)"

text \<open>The first phase: the progress of the request, claimed for this decision where there is none.\<close>

definition claim ::
  "'v bridge_env \<Rightarrow> ('g \<Rightarrow> PendingApproval option \<times> 'g) \<Rightarrow> uuid \<Rightarrow> Decision \<Rightarrow> string \<Rightarrow> ('g, 'e, ResolutionProgress) bridge_op" where
  "claim env pending i decision decided_by =
     st_bind (st_get (get_progress i)) (\<lambda>known. case known of
       Some p \<Rightarrow> st_return p
     | None \<Rightarrow>
         st_bind (st_get (\<lambda>s. make_room_for_claim (br_resolutions s))) (\<lambda>(room, registry).
         st_seq (st_modify (\<lambda>s. s\<lparr>br_resolutions := registry\<rparr>))
          (if \<not> room then st_error CapacityReached
           else st_bind (on_gateway pending) (\<lambda>shown.
                st_bind bridge_call (\<lambda>n.
                let p = new_progress i decision decided_by (be_epoch_millis env n)
                          (case shown of None \<Rightarrow> None | Some x \<Rightarrow> if pa_id x = i then pa_outcome x else None)
                in st_seq (set_progress i p) (st_return p))))))"

definition apply_to_gateway ::
  "'v bridge_env \<Rightarrow> ('v \<Rightarrow> Decision \<Rightarrow> uuid \<Rightarrow> 'g \<Rightarrow> ('e + unit) \<times> 'g) \<Rightarrow> uuid \<Rightarrow> Decision \<Rightarrow> ResolutionProgress \<Rightarrow>
     ('g, 'e, ResolutionProgress) bridge_op" where
  "apply_to_gateway env decide i decision p =
     (if rp_gateway_applied p then st_return p
      else st_seq (on_audit (prepare (be_audit env)))
          (st_bind bridge_call (\<lambda>n.
           st_bind (on_gateway (decide (be_gateway env n) decision i)) (\<lambda>r. case r of
             Inl e \<Rightarrow> st_error (GatewayFailed e)
           | Inr _ \<Rightarrow>
               let p' = p\<lparr>rp_gateway_applied := True\<rparr>
               in st_seq (log_call (GatewayApplied i decision (rc_decided_by (rp_record p))))
                    (st_seq (set_progress i p') (st_return p'))))))"

definition audit_progress ::
  "'v bridge_env \<Rightarrow> uuid \<Rightarrow> ResolutionProgress \<Rightarrow> ('g, 'e, ResolutionProgress) bridge_op" where
  "audit_progress env i p =
     (if rp_audited p then st_return p
      else st_seq (on_audit (record_decision (be_audit env) (rp_record p)))
          (let p' = p\<lparr>rp_audited := True\<rparr>
           in st_seq (log_call (DecisionAudited (rp_record p))) (st_seq (set_progress i p') (st_return p'))))"

definition respond_in_chat :: "'v bridge_env \<Rightarrow> uuid \<Rightarrow> Decision \<Rightarrow> string \<Rightarrow> ('g, 'e, unit) bridge_op" where
  "respond_in_chat env i decision decided_by =
     st_bind (st_get (\<lambda>s. br_tokens s i)) (\<lambda>t. case t of
       Some Notifying \<Rightarrow> st_error StillPosting
     | None \<Rightarrow> st_return ()
     | Some (Notified token) \<Rightarrow>
         st_bind bridge_call (\<lambda>n.
           if be_respond env n
           then st_seq (log_call (ChatUpdated i decision decided_by)) (set_token i None)
           else st_error NotifierFailed))"

definition finish_progress :: "uuid \<Rightarrow> ResolutionProgress \<Rightarrow> ('g, 'e, unit) bridge_op" where
  "finish_progress i p =
     st_seq (set_progress i (p\<lparr>rp_chat_updated := True\<rparr>))
       (st_modify (\<lambda>s. s\<lparr>br_resolutions := mark_terminal i (br_resolutions s)\<rparr>))"

definition resolve ::
  "'v bridge_env \<Rightarrow> ('v \<Rightarrow> Decision \<Rightarrow> uuid \<Rightarrow> 'g \<Rightarrow> ('e + unit) \<times> 'g) \<Rightarrow> ('g \<Rightarrow> PendingApproval option \<times> 'g) \<Rightarrow>
     uuid \<Rightarrow> Decision \<Rightarrow> string \<Rightarrow> ('g, 'e, unit) bridge_op" where
  "resolve env decide pending i decision decided_by =
     st_bind (claim env pending i decision decided_by) (\<lambda>p.
       if \<not> is_same_decision p decision decided_by \<or> rp_chat_updated p
       then st_error (AlreadyResolved (rc_decided_by (rp_record p)) (rp_decision p))
       else st_bind (apply_to_gateway env decide i decision p) (\<lambda>p1.
            st_bind (audit_progress env i p1) (\<lambda>p2.
            st_seq (respond_in_chat env i decision decided_by)
              (finish_progress i p2))))"

text \<open>\<open>poll_once\<close>: read the pending request; reserve its prompt; post it and keep the token.\<close>

definition poll_reserve :: "PendingApproval \<Rightarrow> ('g, 'e, bool) bridge_op" where
  "poll_reserve p =
     st_bind (st_get (\<lambda>s. br_tokens s (pa_id p))) (\<lambda>t.
       if t \<noteq> None then st_return False else st_seq (set_token (pa_id p) (Some Notifying)) (st_return True))"

definition poll_post :: "'v bridge_env \<Rightarrow> PendingApproval \<Rightarrow> ('g, 'e, uuid option) bridge_op" where
  "poll_post env p =
     st_bind bridge_call (\<lambda>n. case be_notify env n of
         None \<Rightarrow> st_seq (set_token (pa_id p) None) (st_error NotifierFailed)
       | Some token \<Rightarrow> st_seq (set_token (pa_id p) (Some (Notified token))) (st_return (Some (pa_id p))))"

definition poll_once :: "'v bridge_env \<Rightarrow> ('g \<Rightarrow> PendingApproval option \<times> 'g) \<Rightarrow> ('g, 'e, uuid option) bridge_op" where
  "poll_once env pending =
     st_bind (on_gateway pending) (\<lambda>shown. case shown of
       None \<Rightarrow> st_return None
     | Some p \<Rightarrow> st_bind (poll_reserve p) (\<lambda>fresh. if fresh then poll_post env p else st_return None))"

definition new_bridge :: "'g \<Rightarrow> BridgeAuditTrail \<Rightarrow> 'g bridge" where
  "new_bridge g a = \<lparr>br_gateway = g, br_audit = a, br_resolutions = \<lparr>rr_entries = [], rr_terminal_order = []\<rparr>,
     br_tokens = Map.empty, br_calls = 0, br_events = []\<rparr>"

section \<open>What a bridge goes through\<close>

inductive bridge_history ::
  "'v bridge_env \<Rightarrow> ('v \<Rightarrow> Decision \<Rightarrow> uuid \<Rightarrow> 'g \<Rightarrow> ('e + unit) \<times> 'g) \<Rightarrow> ('g \<Rightarrow> PendingApproval option \<times> 'g) \<Rightarrow>
     ('g \<Rightarrow> 'g \<Rightarrow> bool) \<Rightarrow> 'g \<Rightarrow> 'g bridge \<Rightarrow> bool"
  for env decide pending outside g0 where
  started: "bridge_history env decide pending outside g0 (new_bridge g0 a)"
| resolved: "bridge_history env decide pending outside g0 s \<Longrightarrow> resolve env decide pending i d by s = (r, s') \<Longrightarrow>
    bridge_history env decide pending outside g0 s'"
| polled: "bridge_history env decide pending outside g0 s \<Longrightarrow> pending (br_gateway s) = (p, g') \<Longrightarrow>
    bridge_history env decide pending outside g0 (s\<lparr>br_gateway := g'\<rparr>)"
| reserved: "bridge_history env decide pending outside g0 s \<Longrightarrow> (poll_reserve p :: ('g, 'e, bool) bridge_op) s = (r'', s') \<Longrightarrow>
    bridge_history env decide pending outside g0 s'"
| posted: "bridge_history env decide pending outside g0 s \<Longrightarrow> (poll_post env p :: ('g, 'e, uuid option) bridge_op) s = (r', s') \<Longrightarrow>
    bridge_history env decide pending outside g0 s'"
| elsewhere: "bridge_history env decide pending outside g0 s \<Longrightarrow> outside (br_gateway s) g' \<Longrightarrow>
    bridge_history env decide pending outside g0 (s\<lparr>br_gateway := g'\<rparr>)"

section \<open>Orderly events\<close>

fun justified :: "bridge_event list \<Rightarrow> bridge_event \<Rightarrow> bool" where
  "justified pre (GatewayApplied i d by) \<longleftrightarrow> (\<forall>d' by'. GatewayApplied i d' by' \<notin> set pre)"
| "justified pre (DecisionAudited r) \<longleftrightarrow>
     (\<exists>d. GatewayApplied (rc_id r) d (rc_decided_by r) \<in> set pre \<and> rc_decision r = audit_decision d)"
| "justified pre (ChatUpdated i d by) \<longleftrightarrow>
     (\<exists>r. DecisionAudited r \<in> set pre \<and> rc_id r = i \<and> rc_decided_by r = by \<and> rc_decision r = audit_decision d)"

definition orderly :: "bridge_event list \<Rightarrow> bool" where
  "orderly evs \<longleftrightarrow> (\<forall>k<length evs. justified (take k evs) (evs ! k))"

lemma orderly_simps [simp]: "orderly []" "orderly (evs @ [ev]) \<longleftrightarrow> orderly evs \<and> justified evs ev"
  by (auto simp: orderly_def nth_append less_Suc_eq)

definition progress_ok :: "bridge_event list \<Rightarrow> uuid \<Rightarrow> ResolutionProgress \<Rightarrow> bool" where
  "progress_ok evs i p \<longleftrightarrow> rc_id (rp_record p) = i \<and> rc_decision (rp_record p) = audit_decision (rp_decision p) \<and>
     (rp_gateway_applied p \<longrightarrow> GatewayApplied i (rp_decision p) (rc_decided_by (rp_record p)) \<in> set evs) \<and>
     (rp_audited p \<longrightarrow> rp_gateway_applied p \<and> DecisionAudited (rp_record p) \<in> set evs)"

definition bridge_ok :: "('g \<Rightarrow> bool) \<Rightarrow> ('g \<Rightarrow> uuid \<Rightarrow> bool) \<Rightarrow> 'g bridge \<Rightarrow> bool" where
  "bridge_ok good spent s \<longleftrightarrow> good (br_gateway s) \<and> orderly (br_events s) \<and>
     (\<forall>i p. get_progress i s = Some p \<longrightarrow> progress_ok (br_events s) i p) \<and>
     (\<forall>i d by. GatewayApplied i d by \<in> set (br_events s) \<longrightarrow> spent (br_gateway s) i)"

lemma progress_ok_mono: "progress_ok evs i p \<Longrightarrow> set evs \<subseteq> set evs' \<Longrightarrow> progress_ok evs' i p"
  by (auto simp: progress_ok_def)

lemma make_room_sub: "make_room order entries = (b, r) \<Longrightarrow> map_of (rr_entries r) i = Some p \<Longrightarrow> map_of entries i = Some p"
  by (induction order entries rule: make_room.induct) (auto simp: delete_conv' split: if_splits)

lemma drop_expired_sub: "map_of (rr_entries (drop_expired order entries)) i = Some p \<Longrightarrow> map_of entries i = Some p"
  by (induction order entries rule: drop_expired.induct) (auto simp: delete_conv' split: if_splits)

lemma get_progress_simps [simp]:
  "get_progress i (s\<lparr>br_gateway := g\<rparr>) = get_progress i s"
  "get_progress i (s\<lparr>br_audit := a\<rparr>) = get_progress i s"
  "get_progress i (s\<lparr>br_calls := n\<rparr>) = get_progress i s"
  "get_progress i (s\<lparr>br_tokens := t\<rparr>) = get_progress i s"
  "get_progress i (s\<lparr>br_events := evs\<rparr>) = get_progress i s"
  by (simp_all add: get_progress_def)

lemma put_progress_simps:
  "get_progress j (put_progress i p s) = (if j = i then Some p else get_progress j s)"
  "br_events (put_progress i p s) = br_events s" "br_gateway (put_progress i p s) = br_gateway s"
  "br_tokens (put_progress i p s) = br_tokens s"
  by (simp_all add: put_progress_def get_progress_def update_conv')

lemma bridge_ok_unchanged:
  "bridge_ok good spent s \<Longrightarrow> br_gateway s' = br_gateway s \<Longrightarrow> br_events s' = br_events s \<Longrightarrow>
     (\<And>i p. get_progress i s' = Some p \<Longrightarrow> get_progress i s = Some p) \<Longrightarrow> bridge_ok good spent s'"
  by (auto simp: bridge_ok_def)

lemma bridge_ok_set_progress:
  "bridge_ok good spent s \<Longrightarrow> progress_ok (br_events s) i p \<Longrightarrow> bridge_ok good spent (put_progress i p s)"
  by (auto simp: bridge_ok_def put_progress_simps)

lemma bridge_ok_event:
  "bridge_ok good spent s \<Longrightarrow> justified (br_events s) ev \<Longrightarrow> (\<And>i d by. ev = GatewayApplied i d by \<Longrightarrow> spent (br_gateway s) i) \<Longrightarrow>
     bridge_ok good spent (s\<lparr>br_events := br_events s @ [ev]\<rparr>)"
proof -
  assume ok: "bridge_ok good spent s" and just: "justified (br_events s) ev"
    and sp: "\<And>i d by. ev = GatewayApplied i d by \<Longrightarrow> spent (br_gateway s) i"
  have mono: "progress_ok (br_events s @ [ev]) i p" if "progress_ok (br_events s) i p" for i p
    using progress_ok_mono [OF that, of "br_events s @ [ev]"] by auto
  have spent: "spent (br_gateway s) i" if "GatewayApplied i d by \<in> set (br_events s)" for i d "by"
    using ok that unfolding bridge_ok_def by blast
  show ?thesis using ok just sp mono spent unfolding bridge_ok_def by auto
qed

lemma get_progress_terminal:
  "get_progress j (s\<lparr>br_resolutions := mark_terminal i (br_resolutions s)\<rparr>) = Some p \<Longrightarrow> get_progress j s = Some p"
  by (auto simp: get_progress_def mark_terminal_def dest: drop_expired_sub)

context approval_gateway
begin

lemma bridge_ok_gateway:
  assumes "bridge_ok good spent s" "step (br_gateway s) g'"
  shows "bridge_ok good spent (s\<lparr>br_gateway := g'\<rparr>)"
  using assms step_keeps [of "br_gateway s" g'] spent_step [of "br_gateway s" _ g'] by (auto simp: bridge_ok_def)

lemma claim_ok:
  assumes "bridge_ok good spent s" "claim env pending i decision decided_by s = (r, s')"
  shows "bridge_ok good spent s' \<and> (\<forall>p. r = Inr p \<longrightarrow> get_progress i s' = Some p) \<and> br_events s' = br_events s"
proof (cases "get_progress i s")
  case (Some p)
  then show ?thesis using assms by (auto simp: claim_def st_bind_def)
next
  case None
  obtain room reg where mr: "make_room_for_claim (br_resolutions s) = (room, reg)" by force
  let ?s1 = "s\<lparr>br_resolutions := reg\<rparr>"
  have sub: "get_progress j ?s1 = Some p \<Longrightarrow> get_progress j s = Some p" for j p
    using mr make_room_sub by (auto simp: get_progress_def make_room_for_claim_def)
  have ok1: "bridge_ok good spent ?s1" by (rule bridge_ok_unchanged [OF assms(1)]) (use sub in auto)
  show ?thesis
  proof (cases room)
    case False
    then have "r = Inl CapacityReached" "s' = ?s1" using assms(2) None mr by (auto simp: claim_def st_bind_def st_seq_def)
    then show ?thesis using ok1 by simp
  next
    case True
    obtain shown g' where pd: "pending (br_gateway s) = (shown, g')" by force
    let ?s2 = "?s1\<lparr>br_gateway := g'\<rparr>" and ?p = "new_progress i decision decided_by (be_epoch_millis env (br_calls s))
        (case shown of None \<Rightarrow> None | Some x \<Rightarrow> if pa_id x = i then pa_outcome x else None)"
    have ok2: "bridge_ok good spent ?s2" using bridge_ok_gateway [OF ok1, of g'] pd by (auto simp: step_def)
    let ?s3 = "?s2\<lparr>br_calls := Suc (br_calls s)\<rparr>"
    have ok3: "bridge_ok good spent ?s3" by (rule bridge_ok_unchanged [OF ok2]) (auto simp: get_progress_def)
    have "r = Inr ?p" "s' = put_progress i ?p ?s3"
      using assms(2) None mr True pd
      by (auto simp: claim_def st_bind_def st_seq_def on_gateway_def bridge_call_def Let_def set_progress_def)
    moreover have "progress_ok (br_events ?s3) i ?p" by (simp add: progress_ok_def new_progress_def)
    ultimately show ?thesis using bridge_ok_set_progress [OF ok3] by (simp add: put_progress_simps)
  qed
qed

lemma apply_to_gateway_ok:
  assumes ok: "bridge_ok good spent s" and p: "get_progress i s = Some p" and env: "\<forall>n. env_ok (be_gateway env n)"
    and run: "apply_to_gateway env decide i decision p s = (r, s')" and same: "rp_decision p = decision"
  shows "bridge_ok good spent s' \<and> (\<forall>p1. r = Inr p1 \<longrightarrow> get_progress i s' = Some p1 \<and> rp_gateway_applied p1 \<and>
    rp_decision p1 = rp_decision p \<and> rp_record p1 = rp_record p)"
proof (cases "rp_gateway_applied p")
  case True
  then show ?thesis using run ok p by (auto simp: apply_to_gateway_def)
next
  case False
  obtain ra a where pr: "prepare (be_audit env) (br_audit s) = (ra, a)" by force
  let ?s1 = "s\<lparr>br_audit := a\<rparr>"
  have ok1: "bridge_ok good spent ?s1" by (rule bridge_ok_unchanged [OF ok]) auto
  show ?thesis
  proof (cases ra)
    case (Inl e)
    then have "r = Inl (AuditFailed e)" "s' = ?s1" using run False pr by (auto simp: apply_to_gateway_def on_audit_def st_seq_def st_bind_def)
    then show ?thesis using ok1 by simp
  next
    case (Inr u)
    obtain rg g' where dc: "decide (be_gateway env (br_calls s)) decision i (br_gateway s) = (rg, g')" by force
    let ?s2 = "?s1\<lparr>br_calls := Suc (br_calls s)\<rparr>\<lparr>br_gateway := g'\<rparr>"
    have "bridge_ok good spent (?s1\<lparr>br_calls := Suc (br_calls s)\<rparr>)" by (rule bridge_ok_unchanged [OF ok1]) auto
    moreover have "step (br_gateway s) g'" unfolding step_def using dc env by blast
    ultimately have ok2: "bridge_ok good spent ?s2"
      using bridge_ok_gateway [of "?s1\<lparr>br_calls := Suc (br_calls s)\<rparr>" g'] by simp
    show ?thesis
    proof (cases rg)
      case (Inl e)
      then have "r = Inl (GatewayFailed e)" "s' = ?s2" using run False pr Inr dc
        by (auto simp: apply_to_gateway_def on_audit_def on_gateway_def bridge_call_def st_seq_def st_bind_def)
      then show ?thesis using ok2 by simp
    next
      case rg: (Inr u')
      have w: "good (br_gateway s)" using ok by (simp add: bridge_ok_def)
      have sp: "spent g' i" using decide_spends [OF w _ dc [unfolded rg]] env by blast
      have "\<not> spent (br_gateway s) i"
        using spent_refused [of "br_gateway s" i "be_gateway env (br_calls s)" decision u'] env dc rg by auto
      then have new: "GatewayApplied i d' by' \<notin> set (br_events s)" for d' by'
        using ok unfolding bridge_ok_def by blast
      let ?ev = "GatewayApplied i decision (rc_decided_by (rp_record p))" and ?p = "p\<lparr>rp_gateway_applied := True\<rparr>"
      let ?s3 = "?s2\<lparr>br_events := br_events ?s2 @ [?ev]\<rparr>"
      have ok3: "bridge_ok good spent ?s3" by (rule bridge_ok_event [OF ok2]) (use new sp in auto)
      have "r = Inr ?p" "s' = put_progress i ?p ?s3" using run False pr Inr dc rg
        by (auto simp: apply_to_gateway_def on_audit_def on_gateway_def bridge_call_def log_call_def st_seq_def st_bind_def
            set_progress_def Let_def)
      moreover have "progress_ok (br_events ?s3) i ?p" using ok p same by (auto simp: bridge_ok_def progress_ok_def)
      ultimately show ?thesis using bridge_ok_set_progress [OF ok3] by (simp add: put_progress_simps)
    qed
  qed
qed

lemma audit_progress_ok:
  assumes ok: "bridge_ok good spent s" and p: "get_progress i s = Some p" "rp_gateway_applied p"
    and run: "audit_progress env i p s = (r, s')"
  shows "bridge_ok good spent s' \<and> (\<forall>p1. r = Inr p1 \<longrightarrow> get_progress i s' = Some p1 \<and> rp_audited p1 \<and> rp_gateway_applied p1 \<and>
    rp_decision p1 = rp_decision p \<and> rp_record p1 = rp_record p)"
proof (cases "rp_audited p")
  case True
  then show ?thesis using run ok p by (auto simp: audit_progress_def)
next
  case False
  have pok: "progress_ok (br_events s) i p" using ok p(1) by (simp add: bridge_ok_def)
  obtain ra a where rc: "record_decision (be_audit env) (rp_record p) (br_audit s) = (ra, a)" by force
  let ?s1 = "s\<lparr>br_audit := a\<rparr>"
  have ok1: "bridge_ok good spent ?s1" by (rule bridge_ok_unchanged [OF ok]) auto
  show ?thesis
  proof (cases ra)
    case (Inl e)
    then have "r = Inl (AuditFailed e)" "s' = ?s1" using run False rc by (auto simp: audit_progress_def on_audit_def st_seq_def st_bind_def)
    then show ?thesis using ok1 by simp
  next
    case (Inr u)
    let ?s2 = "?s1\<lparr>br_events := br_events ?s1 @ [DecisionAudited (rp_record p)]\<rparr>" and ?p = "p\<lparr>rp_audited := True\<rparr>"
    have "justified (br_events ?s1) (DecisionAudited (rp_record p))" using pok p(2) by (auto simp: progress_ok_def)
    then have ok2: "bridge_ok good spent ?s2" by (rule bridge_ok_event [OF ok1]) simp
    have "r = Inr ?p" "s' = put_progress i ?p ?s2" using run False rc Inr
      by (auto simp: audit_progress_def on_audit_def log_call_def st_seq_def st_bind_def set_progress_def Let_def)
    moreover have "progress_ok (br_events ?s2) i ?p" using pok p(2) by (auto simp: progress_ok_def)
    ultimately show ?thesis using bridge_ok_set_progress [OF ok2] p(2) by (simp add: put_progress_simps)
  qed
qed

lemma respond_in_chat_ok:
  assumes ok: "bridge_ok good spent s" and p: "get_progress i s = Some p" "rp_audited p" "is_same_decision p decision by"
    and run: "respond_in_chat env i decision by s = (r, s')"
  shows "bridge_ok good spent s' \<and> get_progress i s' = Some p"
proof -
  have pok: "progress_ok (br_events s) i p" using ok p(1) by (simp add: bridge_ok_def)
  have calls: "bridge_ok good spent (s\<lparr>br_calls := n\<rparr>)" for n by (rule bridge_ok_unchanged [OF ok]) auto
  have "justified (br_events s) (ChatUpdated i decision by)"
    using pok p(2,3) by (auto simp: progress_ok_def is_same_decision_def intro!: exI [of _ "rp_record p"])
  then have ev: "bridge_ok good spent (s\<lparr>br_calls := n, br_events := br_events s @ [ChatUpdated i decision by]\<rparr>)" for n
    using bridge_ok_event [OF calls, of n "ChatUpdated i decision by"] by simp
  have tok: "bridge_ok good spent (s\<lparr>br_calls := n, br_events := br_events s @ [ChatUpdated i decision by], br_tokens := t\<rparr>)" for n t
    by (rule bridge_ok_unchanged [OF ev]) auto
  show ?thesis using run ok p(1) calls tok
    by (auto simp: respond_in_chat_def st_bind_def st_seq_def bridge_call_def log_call_def set_token_def
        split: option.splits NotificationState.splits if_splits)
qed

lemma finish_progress_ok:
  assumes ok: "bridge_ok good spent s" and p: "get_progress i s = Some p" and run: "finish_progress i p s = (r, s')"
  shows "bridge_ok good spent s' \<and> r = Inr ()"
proof -
  let ?p = "p\<lparr>rp_chat_updated := True\<rparr>"
  have "progress_ok (br_events s) i ?p" using ok p by (auto simp: bridge_ok_def progress_ok_def)
  then have ok1: "bridge_ok good spent (put_progress i ?p s)" by (rule bridge_ok_set_progress [OF ok])
  have s': "r = Inr ()" "s' = (put_progress i ?p s)\<lparr>br_resolutions := mark_terminal i (br_resolutions (put_progress i ?p s))\<rparr>"
    using run by (auto simp: finish_progress_def st_seq_def st_bind_def set_progress_def)
  have "bridge_ok good spent s'" unfolding s'(2)
    by (rule bridge_ok_unchanged [OF ok1]) (auto dest!: get_progress_terminal)
  with s'(1) show ?thesis by simp
qed

lemma resolve_ok:
  assumes ok: "bridge_ok good spent s" and env: "\<forall>n. env_ok (be_gateway env n)"
    and run: "resolve env decide pending i decision by s = (r, s')"
  shows "bridge_ok good spent s'"
proof -
  obtain r1 s1 where c: "claim env pending i decision by s = (r1 :: 'e bridge_error + ResolutionProgress, s1)" by force
  note c' = claim_ok [OF ok c]
  show ?thesis
  proof (cases r1)
    case (Inl e)
    then show ?thesis using run c c' by (simp add: resolve_def st_run)
  next
    case (Inr p)
    show ?thesis
    proof (cases "\<not> is_same_decision p decision by \<or> rp_chat_updated p")
      case True
      then show ?thesis using run c c' Inr by (simp add: resolve_def st_run)
    next
      case False
      obtain r2 s2 where g: "apply_to_gateway env decide i decision p s1 = (r2, s2)" by force
      have same: "rp_decision p = decision" using False by (simp add: is_same_decision_def)
      have c1: "bridge_ok good spent s1" "get_progress i s1 = Some p" using c' Inr by auto
      have g': "bridge_ok good spent s2" "\<forall>p1. r2 = Inr p1 \<longrightarrow> get_progress i s2 = Some p1 \<and> rp_gateway_applied p1 \<and>
          rp_decision p1 = rp_decision p \<and> rp_record p1 = rp_record p"
        using apply_to_gateway_ok [OF c1 env g same] by blast+
      show ?thesis
      proof (cases r2)
        case (Inl e)
        then show ?thesis using run c g g' False Inr \<open>r1 = Inr p\<close> by (simp add: resolve_def st_run)
      next
        case r2: (Inr p1)
        obtain r3 s3 where a: "audit_progress env i p1 s2 = (r3 :: 'e bridge_error + ResolutionProgress, s3)" by force
        have p1: "get_progress i s2 = Some p1" "rp_gateway_applied p1" using g'(2) r2 by blast+
        have a': "bridge_ok good spent s3" "\<forall>p2. r3 = Inr p2 \<longrightarrow> get_progress i s3 = Some p2 \<and> rp_audited p2 \<and>
            rp_gateway_applied p2 \<and> rp_decision p2 = rp_decision p1 \<and> rp_record p2 = rp_record p1"
          using audit_progress_ok [OF g'(1) p1 a] by blast+
        show ?thesis
        proof (cases r3)
          case (Inl e)
          then show ?thesis using run c g a a' False Inr r2 \<open>r1 = Inr p\<close> by (simp add: resolve_def st_run)
        next
          case r3: (Inr p2)
          have "rp_decision p2 = rp_decision p1 \<and> rp_record p2 = rp_record p1" using a'(2) r3 by blast
          moreover have "rp_decision p1 = rp_decision p \<and> rp_record p1 = rp_record p" using g'(2) r2 by blast
          ultimately have same2: "is_same_decision p2 decision by" using False by (simp add: is_same_decision_def)
          obtain r4 s4 where n: "respond_in_chat env i decision by s3 = (r4 :: 'e bridge_error + unit, s4)" by force
          have p2: "get_progress i s3 = Some p2" "rp_audited p2" using a'(2) r3 by blast+
          have n': "bridge_ok good spent s4" "get_progress i s4 = Some p2"
            using respond_in_chat_ok [OF a'(1) p2 same2 n] by blast+
          show ?thesis
          proof (cases r4)
            case (Inl e)
            then show ?thesis using run c g a n n' False Inr r2 r3 \<open>r1 = Inr p\<close> by (simp add: resolve_def st_run)
          next
            case r4: (Inr u)
            then have "finish_progress i p2 s4 = (r, s')" using run c g a n False Inr r2 r3 \<open>r1 = Inr p\<close> by (simp add: resolve_def st_run)
            from finish_progress_ok [OF n' this] show ?thesis by simp
          qed
        qed
      qed
    qed
  qed
qed

lemma bridge_history_ok:
  assumes "bridge_history env decide pending outside g0 s" "\<forall>n. env_ok (be_gateway env n)" "good g0"
  shows "bridge_ok good spent s"
  using assms(1)
proof (induction rule: bridge_history.induct)
  case (started a)
  then show ?case using assms(3) by (simp add: bridge_ok_def new_bridge_def get_progress_def)
next
  case (resolved s i d reviewer r s')
  then show ?case using resolve_ok assms(2) by blast
next
  case (polled s p g')
  then show ?case using bridge_ok_gateway by (auto simp: step_def)
next
  case (reserved s p r s')
  have "br_gateway s' = br_gateway s" "br_events s' = br_events s" "\<And>i. get_progress i s' = get_progress i s"
    using reserved.hyps(2) by (auto simp: poll_reserve_def st_bind_def st_seq_def set_token_def split: if_splits)
  then show ?case by (intro bridge_ok_unchanged [OF reserved.IH]) auto
next
  case (posted s p r' s')
  have "br_gateway s' = br_gateway s" "br_events s' = br_events s" "\<And>i. get_progress i s' = get_progress i s"
    using posted.hyps(2) by (auto simp: poll_post_def st_bind_def st_seq_def set_token_def bridge_call_def split: option.splits)
  then show ?case by (intro bridge_ok_unchanged [OF posted.IH]) auto
next
  case (elsewhere s g')
  then show ?case using bridge_ok_gateway by (auto simp: step_def)
qed

end

section \<open>Properties of the bridge over page sessions\<close>


definition shop_bridge_env :: "gateway_env bridge_env" where
  "shop_bridge_env = \<lparr>be_gateway = (\<lambda>_. shop_gateway_env), be_audit = sample_env [], be_epoch_millis = (\<lambda>_. 7),
     be_notify = (\<lambda>_. Some ''token''), be_respond = (\<lambda>_. True)\<rparr>"

abbreviation shop_resolve :: "uuid \<Rightarrow> Decision \<Rightarrow> string \<Rightarrow> (PageSessionGateway, gateway_error, unit) bridge_op" where
  "shop_resolve \<equiv> resolve shop_bridge_env gateway_decide pending_request"


text \<open>
  A decision that competes with the claim of a request, and the retry of a finished one, are
  refused with the name of the first reviewer and change nothing.
\<close>

lemma competing_decision_refused:
  assumes "get_progress i s = Some p" "\<not> is_same_decision p decision by \<or> rp_chat_updated p"
  shows "resolve env decide pending i decision by s = (Inl (AlreadyResolved (rc_decided_by (rp_record p)) (rp_decision p)), s)"
  using assms by (auto simp: resolve_def claim_def st_bind_def)

lemma drop_expired_keeps_last:
  "i \<notin> set order \<Longrightarrow> map_of (rr_entries (drop_expired (order @ [i]) entries)) i = map_of entries i"
  by (induction order arbitrary: entries) (auto simp: delete_conv' MAX_RESOLUTION_ENTRIES_def)

text \<open>
  C18: a decision that reached the session is completed by the reviewer's retry. Once the gateway has
  applied the decision, whichever later phase failed, the same reviewer repeating the decision
  finishes it as soon as the audit trail takes the record and the chat answers: the call succeeds,
  the gateway is not called again, and every further decision on the request is refused.
\<close>

theorem retry_completes:
  fixes decide :: "'v \<Rightarrow> Decision \<Rightarrow> uuid \<Rightarrow> 'g \<Rightarrow> ('e + unit) \<times> 'g"
  assumes "get_progress i s = Some p" "is_same_decision p decision by" "rp_gateway_applied p" "\<not> rp_chat_updated p"
    and "i \<notin> set (rr_terminal_order (br_resolutions s))" "br_tokens s i \<noteq> Some Notifying"
    and "fst (record_decision (be_audit env) (rp_record p) (br_audit s)) = Inr ()" "\<forall>n. be_respond env n"
  shows "\<exists>s'. resolve env decide pending i decision by s = (Inr (), s') \<and> br_gateway s' = br_gateway s \<and>
    (\<forall>d' by'. fst (resolve env decide pending i d' by' s') = Inl (AlreadyResolved by decision))"
proof -
  obtain a where rc: "record_decision (be_audit env) (rp_record p) (br_audit s) = (Inr (), a)"
    using assms(7) by (metis prod.collapse)
  have c: "claim env pending i decision by s = (Inr p :: 'e bridge_error + ResolutionProgress, s)" using assms(1) by (simp add: claim_def st_bind_def)
  have g: "apply_to_gateway env decide i decision p s = (Inr p, s)" using assms(3) by (simp add: apply_to_gateway_def)
  let ?p2 = "p\<lparr>rp_audited := True\<rparr>"
  obtain s2 p2 where a: "audit_progress env i p s = (Inr p2 :: 'e bridge_error + ResolutionProgress, s2)" and p2: "rp_decision p2 = rp_decision p" "rp_record p2 = rp_record p"
    and s2: "br_gateway s2 = br_gateway s" "br_tokens s2 = br_tokens s"
      "rr_terminal_order (br_resolutions s2) = rr_terminal_order (br_resolutions s)"
  proof (cases "rp_audited p")
    case True
    then show ?thesis by (intro that [of p s]) (simp_all add: audit_progress_def)
  next
    case False
    show ?thesis
      by (rule that [of ?p2 "put_progress i ?p2 (s\<lparr>br_audit := a, br_events := br_events s @ [DecisionAudited (rp_record p)]\<rparr>)"])
        (use False rc in \<open>simp_all add: audit_progress_def on_audit_def log_call_def st_seq_def st_bind_def set_progress_def put_progress_def Let_def\<close>)
  qed
  obtain s3 where r: "respond_in_chat env i decision by s2 = (Inr () :: 'e bridge_error + unit, s3)" and s3: "br_gateway s3 = br_gateway s2"
    "br_resolutions s3 = br_resolutions s2"
  proof (cases "br_tokens s2 i")
    case None
    then show ?thesis by (intro that [of s2]) (simp_all add: respond_in_chat_def st_bind_def)
  next
    case (Some t)
    then obtain token where "t = Notified token" using assms(6) s2(2) by (cases t) auto
    with Some assms(8) show ?thesis
      by (intro that [of "s2\<lparr>br_calls := Suc (br_calls s2), br_events := br_events s2 @ [ChatUpdated i decision by],
            br_tokens := (br_tokens s2)(i := None)\<rparr>"])
        (simp_all add: respond_in_chat_def st_bind_def st_seq_def bridge_call_def log_call_def set_token_def)
  qed
  let ?p3 = "p2\<lparr>rp_chat_updated := True\<rparr>"
  let ?s4 = "(put_progress i ?p3 s3)\<lparr>br_resolutions := mark_terminal i (br_resolutions (put_progress i ?p3 s3))\<rparr>"
  have f: "finish_progress i p2 s3 = (Inr () :: 'e bridge_error + unit, ?s4)" by (simp add: finish_progress_def st_seq_def st_bind_def set_progress_def)
  have run: "resolve env decide pending i decision by s = (Inr (), ?s4)"
    using assms(2,4) c g a r f by (simp add: resolve_def st_run)
  have "get_progress i ?s4 = Some ?p3"
    using drop_expired_keeps_last [of i "rr_terminal_order (br_resolutions s)"] assms(5) s2(3) s3(2)
    by (simp add: get_progress_def mark_terminal_def put_progress_def update_conv')
  note refused = competing_decision_refused [OF this]
  have "fst (resolve env decide pending i d' by' ?s4) = Inl (AlreadyResolved by decision)" for d' by'
    by (subst refused) (use assms(2) p2 in \<open>simp_all add: is_same_decision_def\<close>)
  moreover have "br_gateway ?s4 = br_gateway s" using s2(1) s3(1) by (simp add: put_progress_def)
  ultimately show ?thesis using run by blast
qed

text \<open>The prompt is still being posted when Alice decides; her retry finishes.\<close>

definition half_resolved :: "PageSessionGateway bridge" where
  "half_resolved = (new_bridge shop_gateway (new_trail None Map.empty))\<lparr>br_resolutions :=
     \<lparr>rr_entries = [(8, (new_progress 8 DecApproved ''alice'' 7 None)\<lparr>rp_gateway_applied := True\<rparr>)], rr_terminal_order = []\<rparr>\<rparr>"

theorem retry_completes_witness:
  "fst (shop_resolve 8 DecApproved ''alice'' half_resolved) = Inr () \<and>
   fst (shop_resolve 8 DecRejected ''bob'' half_resolved) = Inl (AlreadyResolved ''alice'' DecApproved)"
proof
  let ?p = "(new_progress 8 DecApproved ''alice'' 7 None)\<lparr>rp_gateway_applied := True\<rparr>"
  have p: "get_progress 8 half_resolved = Some ?p" by (simp add: get_progress_def half_resolved_def)
  have rc: "fst (record_decision (be_audit shop_bridge_env) (rp_record ?p) (br_audit half_resolved)) = Inr ()"
    by (simp add: half_resolved_def new_bridge_def shop_bridge_env_def) code_simp
  have "is_same_decision ?p DecApproved ''alice''" "rp_gateway_applied ?p" "\<not> rp_chat_updated ?p"
    "8 \<notin> set (rr_terminal_order (br_resolutions half_resolved))" "br_tokens half_resolved 8 \<noteq> Some Notifying"
    "\<forall>n. be_respond shop_bridge_env n"
    by (simp_all add: is_same_decision_def new_progress_def half_resolved_def new_bridge_def shop_bridge_env_def)
  from retry_completes [OF p this(1-5) rc this(6), of gateway_decide pending_request]
  show "fst (shop_resolve 8 DecApproved ''alice'' half_resolved) = Inr ()" by auto
  show "fst (shop_resolve 8 DecRejected ''bob'' half_resolved) = Inl (AlreadyResolved ''alice'' DecApproved)"
    by (subst competing_decision_refused [OF p]) (simp_all add: is_same_decision_def new_progress_def)
qed

section \<open>Claims that never finish\<close>

definition nothing_pending :: "PageSessionGateway \<Rightarrow> bool" where
  "nothing_pending g \<longleftrightarrow> (\<forall>k. pas_pending (se_approvals (gw_sessions g k)) = None)"

lemma stale_resolve:
  assumes "nothing_pending (br_gateway s)" "rr_terminal_order (br_resolutions s) = []"
    and "length (rr_entries (br_resolutions s)) < MAX_RESOLUTION_ENTRIES" "get_progress i s = None"
  shows "\<exists>s' p. snd (resolve env gateway_decide pending_request i d by s) = s' \<and> nothing_pending (br_gateway s') \<and>
    fst (resolve env gateway_decide pending_request i d by s) \<noteq> Inr () \<and>
    br_resolutions s' = \<lparr>rr_entries = AList.update i p (rr_entries (br_resolutions s)), rr_terminal_order = []\<rparr>"
proof -
  have room: "make_room_for_claim (br_resolutions s) = (True, br_resolutions s)"
    using assms(2,3) by (cases "br_resolutions s") (simp add: make_room_for_claim_def)
  have pd: "pending_request (br_gateway s) = (None, br_gateway s\<lparr>gw_slot := None\<rparr>)"
    using assms(1) by (simp add: pending_request_def pending_policy_approval_snapshot_def nothing_pending_def Let_def)
  let ?p = "new_progress i d by (be_epoch_millis env (br_calls s)) None"
  let ?s1 = "put_progress i ?p (s\<lparr>br_gateway := br_gateway s\<lparr>gw_slot := None\<rparr>, br_calls := Suc (br_calls s)\<rparr>)"
  have c: "claim env pending_request i d by s = (Inr ?p :: gateway_error bridge_error + ResolutionProgress, ?s1)"
    using assms(4) room pd by (simp add: claim_def st_bind_def st_seq_def on_gateway_def bridge_call_def set_progress_def Let_def)
  have np: "nothing_pending (br_gateway ?s1)" using assms(1) by (simp add: put_progress_def nothing_pending_def)
  have refuse: "\<exists>e. gateway_decide v d i g = (Inl e, g)" if "nothing_pending g" for v g
    using that by (cases d) (auto simp: gateway_decide_def gateway_approve_def gateway_reject_def expected_request_id_def
        pending_policy_approval_snapshot_def nothing_pending_def Let_def)
  obtain r2 s2 where g: "apply_to_gateway env gateway_decide i d ?p ?s1 = (r2, s2)" by force
  have "(\<exists>e. r2 = Inl e) \<and> br_gateway s2 = br_gateway ?s1 \<and> br_resolutions s2 = br_resolutions ?s1"
    using g refuse [OF np] by (auto simp: apply_to_gateway_def new_progress_def on_audit_def on_gateway_def bridge_call_def
        st_seq_def st_bind_def split: prod.splits sum.splits) (metis Inl_Inr_False prod.inject)+
  then obtain e where g': "r2 = Inl e" "br_gateway s2 = br_gateway ?s1" "br_resolutions s2 = br_resolutions ?s1" by blast
  have "resolve env gateway_decide pending_request i d by s = (Inl e, s2)"
    using c g g'(1) by (simp add: resolve_def st_run) (simp add: is_same_decision_def new_progress_def st_run)
  moreover have "br_resolutions s2 = \<lparr>rr_entries = AList.update i ?p (rr_entries (br_resolutions s)), rr_terminal_order = []\<rparr>"
    using g'(3) assms(2) by (cases "br_resolutions s") (simp add: put_progress_def)
  ultimately show ?thesis using g' np by auto
qed

fun decide_all ::
  "gateway_env bridge_env \<Rightarrow> (uuid \<times> Decision \<times> string) list \<Rightarrow> PageSessionGateway bridge \<Rightarrow> PageSessionGateway bridge" where
  "decide_all env [] s = s"
| "decide_all env ((i, d, by) # rest) s = decide_all env rest (snd (resolve env gateway_decide pending_request i d by s))"

lemma length_update_new: "i \<notin> fst ` set xs \<Longrightarrow> length (AList.update i p xs) = Suc (length xs)"
  by (induction xs) auto

lemma stale_decisions_pile_up:
  assumes "nothing_pending (br_gateway s)" "rr_terminal_order (br_resolutions s) = []"
    and "length (rr_entries (br_resolutions s)) + length clicks \<le> MAX_RESOLUTION_ENTRIES"
    and "distinct (map fst clicks)" "\<forall>c\<in>set clicks. get_progress (fst c) s = None"
  shows "nothing_pending (br_gateway (decide_all env clicks s)) \<and> rr_terminal_order (br_resolutions (decide_all env clicks s)) = [] \<and>
    length (rr_entries (br_resolutions (decide_all env clicks s))) = length (rr_entries (br_resolutions s)) + length clicks \<and>
    (\<forall>j. j \<notin> fst ` set clicks \<longrightarrow> get_progress j s = None \<longrightarrow> get_progress j (decide_all env clicks s) = None)"
  using assms
proof (induction clicks arbitrary: s)
  case (Cons c clicks)
  obtain i d reviewer where c: "c = (i, d, reviewer)" by (cases c)
  have pre: "length (rr_entries (br_resolutions s)) < MAX_RESOLUTION_ENTRIES" "get_progress i s = None"
    using Cons.prems(3,5) c by auto
  obtain s' p where s': "snd (resolve env gateway_decide pending_request i d reviewer s) = s'" "nothing_pending (br_gateway s')"
    "br_resolutions s' = \<lparr>rr_entries = AList.update i p (rr_entries (br_resolutions s)), rr_terminal_order = []\<rparr>"
    using stale_resolve [OF Cons.prems(1,2) pre, of env d reviewer] by blast
  have fresh: "i \<notin> fst ` set (rr_entries (br_resolutions s))" using pre(2) by (simp add: get_progress_def map_of_eq_None_iff)
  have len: "length (AList.update i p (rr_entries (br_resolutions s))) = Suc (length (rr_entries (br_resolutions s)))"
    using length_update_new [OF fresh] .
  have other: "get_progress j s' = get_progress j s" if "j \<noteq> i" for j
    using that s'(3) by (simp add: get_progress_def update_conv')
  have "\<forall>c\<in>set clicks. get_progress (fst c) s' = None"
  proof
    fix c' assume c': "c' \<in> set clicks"
    then have "fst c' \<noteq> i" using Cons.prems(4) c by (auto simp: image_iff)
    then show "get_progress (fst c') s' = None" using other Cons.prems(5) c' by simp
  qed
  from Cons.IH [OF s'(2) _ _ _ this, of] Cons.prems(3,4) s' len c other show ?case by auto
qed simp

text \<open>
  C20: claims whose decision the session refuses are never released, so decisions on stale prompts
  can stop the bridge. After 1024 decisions on ids that are no longer pending (each fails), every
  decision on any other id is refused for lack of room, whatever is pending by then.
\<close>

theorem stale_decisions_block_the_bridge:
  assumes "nothing_pending g" "length clicks = 1024" "distinct (map fst clicks)" "i \<notin> fst ` set clicks"
    and "s = (decide_all env clicks (new_bridge g a))\<lparr>br_gateway := g'\<rparr>"
  shows "resolve env' decide pending i d by s = (Inl CapacityReached, s)"
proof -
  let ?s0 = "new_bridge g a"
  have "nothing_pending (br_gateway ?s0)" "rr_terminal_order (br_resolutions ?s0) = []"
    "length (rr_entries (br_resolutions ?s0)) + length clicks \<le> MAX_RESOLUTION_ENTRIES" "\<And>j. get_progress j ?s0 = None"
    using assms(1,2) by (simp_all add: new_bridge_def MAX_RESOLUTION_ENTRIES_def get_progress_def)
  from stale_decisions_pile_up [OF this(1-3) assms(3), of env] this(4)
  have full: "rr_terminal_order (br_resolutions s) = []" "length (rr_entries (br_resolutions s)) = 1024" "get_progress i s = None"
    using assms(2,4,5) by (auto simp: new_bridge_def)
  have "make_room_for_claim (br_resolutions s) = (False, br_resolutions s)"
    using full(1,2) by (cases "br_resolutions s") (simp add: make_room_for_claim_def MAX_RESOLUTION_ENTRIES_def)
  then show ?thesis using full(3) by (simp add: resolve_def claim_def st_bind_def st_seq_def)
qed

theorem stale_decisions_block_the_bridge_witness:
  "fst (shop_resolve 8 DecApproved ''alice''
     ((decide_all shop_bridge_env (map (\<lambda>i. (i, DecRejected, ''bob'')) [100..<1124])
        (new_bridge (shop_gateway\<lparr>gw_sessions := (\<lambda>_. shop_session)\<rparr>) (new_trail None Map.empty)))\<lparr>br_gateway := shop_gateway\<rparr>)) =
     Inl CapacityReached"
proof -
  let ?clicks = "map (\<lambda>i. (i, DecRejected, ''bob'')) [100..<1124]"
  have idle: "nothing_pending (shop_gateway\<lparr>gw_sessions := (\<lambda>_. shop_session)\<rparr>)"
    by (simp add: nothing_pending_def shop_session_def default_approvals_def)
  have len: "length ?clicks = 1024" by simp
  have ids: "map fst ?clicks = [100..<1124]" by (simp only: map_map comp_def fst_conv map_ident)
  have dist: "distinct (map fst ?clicks)" unfolding ids by (rule distinct_upt)
  have "8 \<notin> set (map fst ?clicks)" unfolding ids by (simp only: set_upt atLeastLessThan_iff) simp
  then have new: "8 \<notin> fst ` set ?clicks" by (simp only: set_map not_False_eq_True)
  show ?thesis by (subst stale_decisions_block_the_bridge [OF idle len dist new refl]) (rule fst_conv)
qed

end
