(* ===== verification/Mcp_Convert.thy ===== *)
theory Mcp_Convert
  imports Act Sem_Keys
begin

text \<open>
  The conversions of the MCP server between the protocol and the runtime
  (\<open>mcp-server/src/convert.rs\<close>, \<open>dto.rs\<close>): the targets and wait conditions a skill names as
  strings, the values and flags of the elements that are sent out, the Markdown form of a state.
  \<open>str::to_lowercase\<close> and the text \<open>serde_json\<close> gives a float are parameters.
\<close>

section \<open>Targets\<close>

text \<open>\<open>str::parse::<i64>\<close>\<close>

definition parse_i64 :: "string \<Rightarrow> int option" where
  "parse_i64 s =
     (let (neg, ds) = split_sign s;
          v = (if neg then - digits_val ds else digits_val ds)
      in if ds \<noteq> [] \<and> list_all is_digit ds \<and> - (2 ^ 63) \<le> v \<and> v < 2 ^ 63 then Some v else None)"

definition parse_target_id :: "string \<Rightarrow> int option" where
  "parse_target_id target =
     Option.bind (strip_prefix (trim target) ''id:'') (\<lambda>raw. parse_i64 (trim raw))"

definition parse_target_stable_key :: "string \<Rightarrow> string option" where
  "parse_target_stable_key target =
     Option.bind (map_option trim (strip_prefix (trim target) ''stable_key:''))
       (\<lambda>v. if v \<noteq> [] then Some v else None)"

text \<open>\<open>str::splitn(n, c)\<close>\<close>

fun splitn :: "nat \<Rightarrow> char \<Rightarrow> string \<Rightarrow> string list" where
  "splitn 0 c s = []"
| "splitn (Suc 0) c s = [s]"
| "splitn (Suc (Suc n)) c s =
     (case dropWhile (\<lambda>x. x \<noteq> c) s of
        [] \<Rightarrow> [s]
      | _ # rest \<Rightarrow> takeWhile (\<lambda>x. x \<noteq> c) s # splitn (Suc n) c rest)"

definition parse_semantic_wait_condition :: "string \<Rightarrow> (SemanticTarget \<times> SemanticWaitState) option" where
  "parse_semantic_wait_condition condition =
     (case splitn 3 CHR '':'' condition of
        prefix # raw_id # raw_state # _ \<Rightarrow>
          if prefix \<noteq> ''id'' then None
          else (case parse_i64 (trim raw_id) of
                  None \<Rightarrow> None
                | Some i \<Rightarrow> if trim raw_state = ''enabled'' then Some (TargetId i, Enabled) else None)
      | _ \<Rightarrow> None)"

fun node_exists_by_id :: "SemanticNode \<Rightarrow> int \<Rightarrow> bool" where
  "node_exists_by_id (SemanticNode r l children a k am al i f) target_id =
     (i = target_id \<or> list_ex (\<lambda>child. node_exists_by_id child target_id) children)"

section \<open>The elements sent out\<close>

record convert_env =
  cv_sha :: "string \<Rightarrow> string"
  cv_lower :: "string \<Rightarrow> string"
  cv_show_f64 :: "f64 \<Rightarrow> string"

record ExternalInteractiveElement =
  ei_id :: int
  ei_stable_key :: string
  ei_alias :: string
  ei_role :: string
  ei_name :: string
  ei_attributes :: "(string \<times> Json) list" \<comment> \<open>a BTreeMap: ascending keys\<close>
  ei_bbox :: "f64 list"
  ei_policy_flags :: "string list"
  ei_security_flags :: "string list"

record StateMetadata =
  md_url :: string
  md_page_instance_id :: string
  md_state_hash :: string
  md_load_profile :: string
  md_timestamp :: u64
  md_speculative :: bool

record ExternalSemanticState =
  ex_metadata :: StateMetadata
  ex_interactive_elements :: "ExternalInteractiveElement list"

definition load_profile_name :: "LoadProfile \<Rightarrow> string" where
  "load_profile_name profile =
     (case profile of Minimal \<Rightarrow> ''minimal'' | Visual \<Rightarrow> ''visual'' | Interactive \<Rightarrow> ''interactive'')"

text \<open>\<open>json!\<close> of a float: infinities and NaN have no JSON form and become null.\<close>

definition json_f64 :: "convert_env \<Rightarrow> f64 \<Rightarrow> Json" where
  "json_f64 env v = (if f64_inf_mag \<le> f64_mag v then JNull else JNumber (cv_show_f64 env v))"

definition parse_attribute_value :: "convert_env \<Rightarrow> string \<Rightarrow> Json" where
  "parse_attribute_value env raw =
     (let trimmed = trim raw
      in if eq_ignore_ascii_case trimmed ''true'' then JBool True
         else if eq_ignore_ascii_case trimmed ''false'' then JBool False
         else case parse_i64 trimmed of
                Some int_value \<Rightarrow> JNumber (show_int int_value)
              | None \<Rightarrow>
                  (case parse_f64 trimmed of
                     Some float_value \<Rightarrow> json_f64 env float_value
                   | None \<Rightarrow> JString raw))"

definition infer_policy_flags :: "convert_env \<Rightarrow> SemanticNode \<Rightarrow> string list" where
  "infer_policy_flags env node =
     (let lbl = cv_lower env (case sn_label node of Some l \<Rightarrow> l | None \<Rightarrow> [])
      in if sn_role node = ''button'' \<and>
            (str_contains lbl ''purchase'' \<or> str_contains lbl ''pay'' \<or> str_contains lbl ''checkout'')
         then [''financial_transaction''] else [])"

definition shorten_key :: "string \<Rightarrow> string" where
  "shorten_key key = take_chars STABLE_KEY_SHORT_LEN key"

definition fallback_stable_key :: "convert_env \<Rightarrow> SemanticNode \<Rightarrow> string" where
  "fallback_stable_key env node =
     shorten_key (cv_sha env (sn_role node @ '':'' @ (case sn_label node of Some l \<Rightarrow> l | None \<Rightarrow> []) @ '':'' @
       show_int (sn_id node)))"

definition is_ascii_alphanumeric :: "char \<Rightarrow> bool" where
  "is_ascii_alphanumeric c \<longleftrightarrow>
     48 \<le> byte c \<and> byte c \<le> 57 \<or> 65 \<le> byte c \<and> byte c \<le> 90 \<or> 97 \<le> byte c \<and> byte c \<le> 122"

definition fallback_alias :: "convert_env \<Rightarrow> SemanticNode \<Rightarrow> string \<Rightarrow> string" where
  "fallback_alias env node stable_key =
     (let kept = filter (\<lambda>ch. is_ascii_alphanumeric ch \<or> ch = CHR ''_'') (cv_lower env (sn_role node));
          role = (if kept = [] then ''element'' else kept)
      in if 0 < sn_id node then role @ ''_'' @ show_int (sn_id node)
         else role @ ''_'' @ take_chars 8 stable_key)"

text \<open>\<open>bbox\<close> is the bounding box the browser reported, if it was asked.\<close>

definition external_element :: "convert_env \<Rightarrow> SemanticNode \<Rightarrow> f64 list \<Rightarrow> ExternalInteractiveElement" where
  "external_element env node bbox =
     (let present = (\<lambda>v. case v of Some x \<Rightarrow> if trim x = [] then None else Some x | None \<Rightarrow> None);
          stable_key = shorten_key (case present (sn_stable_key node) of Some k \<Rightarrow> k | None \<Rightarrow> fallback_stable_key env node);
          alias = (case present (sn_alias node) of Some a \<Rightarrow> a | None \<Rightarrow> fallback_alias env node stable_key);
          nm = (case present (sn_label node) of Some l \<Rightarrow> l | None \<Rightarrow> alias)
      in \<lparr>ei_id = sn_id node, ei_stable_key = stable_key, ei_alias = alias, ei_role = sn_role node, ei_name = nm,
          ei_attributes = map (\<lambda>(k, v). (k, parse_attribute_value env v))
            (case sn_attributes node of Some attrs \<Rightarrow> attrs | None \<Rightarrow> []),
          ei_bbox = bbox, ei_policy_flags = infer_policy_flags env node,
          ei_security_flags = sn_security_flags node\<rparr>)"

definition safe_flag :: "string \<Rightarrow> string" where
  "safe_flag f = filter (\<lambda>c. is_ascii_alphanumeric c \<or> c = CHR ''_'' \<or> c = CHR ''-'') f"

definition markdown_line :: "ExternalInteractiveElement \<Rightarrow> string" where
  "markdown_line element =
     (let line = ''- id='' @ show_int (ei_id element) @ '' alias='' @ ei_alias element @ '' role='' @ ei_role element @
            '' name='' @ ei_name element @ '' stable_key='' @ ei_stable_key element;
          safe_flags = filter (\<lambda>f. f \<noteq> []) (map safe_flag (ei_security_flags element))
      in if ei_security_flags element \<noteq> [] \<and> safe_flags \<noteq> [] then line @ '' security_flags='' @ join '','' safe_flags
         else line)"

definition render_state_markdown :: "ExternalSemanticState \<Rightarrow> string" where
  "render_state_markdown payload =
     (let m = ex_metadata payload
      in join [CHR 0x0A]
           ([''# Semantic State'', ''- URL: '' @ md_url m, ''- Page Instance ID: '' @ md_page_instance_id m,
             ''- State Hash: '' @ md_state_hash m, ''- Load Profile: '' @ md_load_profile m,
             ''- Timestamp: '' @ show_int (uint (md_timestamp m)),
             ''- Speculative: '' @ (if md_speculative m then ''true'' else ''false''), [], ''## Interactive Elements'']
            @ map markdown_line (ex_interactive_elements payload)))"

section \<open>What a target names\<close>

lemma node_exists_by_id_iff: "node_exists_by_id node i \<longleftrightarrow> i \<in> sn_id ` set (preorder node)"
proof (induction node i rule: node_exists_by_id.induct)
  case (1 r l children a k am al i' f target)
  then show ?case by (auto simp: list_ex_iff)
qed

lemma strip_with_stop: "w s = 0 \<Longrightarrow> strip_with w s = s"
  by (simp add: strip_with.simps [of w s])

lemma no_ws:
  assumes "33 \<le> byte c" "byte c < 127"
  shows "ws_len (c # s) = 0" "ws_len_rev (c # s) = 0"
  using assms by (auto simp: ws_len_def ws_len_rev_def ws1_def ws2_def ws3_def split: list.split)

lemma trim_printable:
  assumes "\<forall>c\<in>set s. 33 \<le> byte c \<and> byte c < 127"
  shows "trim s = s"
proof (cases s)
  case (Cons c t)
  have "trim_start s = s" using assms by (simp add: trim_start_def Cons strip_with_stop no_ws)
  moreover obtain d u where d: "rev s = d # u" using Cons by (cases "rev s") auto
  then have "d \<in> set s" by (metis list.set_intros(1) set_rev)
  then have "strip_with ws_len_rev (rev s) = rev s" using assms by (simp add: d strip_with_stop no_ws)
  ultimately show ?thesis by (simp add: trim_def trim_end_def)
qed (simp add: trim_def trim_start_def trim_end_def strip_with_stop ws_len_def ws_len_rev_def)

lemma digit_char: "0 \<le> i \<Longrightarrow> i < 10 \<Longrightarrow> is_digit (char_of (48 + i :: int))"
  by (simp add: is_digit_def byte_digit)

lemma show_pos_digits: "0 \<le> i \<Longrightarrow> show_pos i \<noteq> [] \<and> list_all is_digit (show_pos i)"
proof (induction i rule: show_pos.induct)
  case (1 i)
  then show ?case by (cases "i < 10") (simp_all add: show_pos.simps [of i] digit_char)
qed

text \<open>A decimal number: digits after an optional minus.\<close>

lemma show_int_shape:
  obtains ds where "ds \<noteq> []" "list_all is_digit ds" "show_int i = (if i < 0 then CHR ''-'' # ds else ds)"
    "digits_val ds = \<bar>i\<bar>"
proof (rule that)
  show "show_pos \<bar>i\<bar> \<noteq> []" "list_all is_digit (show_pos \<bar>i\<bar>)" using show_pos_digits [of "\<bar>i\<bar>"] by simp_all
  show "show_int i = (if i < 0 then CHR ''-'' # show_pos \<bar>i\<bar> else show_pos \<bar>i\<bar>)" by (simp add: show_int_def)
  show "digits_val (show_pos \<bar>i\<bar>) = \<bar>i\<bar>" by (simp add: digits_val_show_pos)
qed

lemma digit_neq: "is_digit c \<Longrightarrow> c \<noteq> CHR ''-'' \<and> c \<noteq> CHR ''+'' \<and> c \<noteq> CHR '':''"
  by (auto simp: is_digit_def byte_def)

lemma split_sign_show: 
  assumes "ds \<noteq> []" "list_all is_digit ds"
  shows "split_sign ds = (False, ds)" "split_sign (CHR ''-'' # ds) = (True, ds)"
  using assms digit_neq [of "hd ds"] by (auto simp: split_sign_def split: list.split)

lemma parse_show_i64: "- (2 ^ 63) \<le> i \<Longrightarrow> i < 2 ^ 63 \<Longrightarrow> parse_i64 (show_int i) = Some i"
  by (rule show_int_shape [of i]) (auto simp: parse_i64_def split_sign_show)

lemma parse_i64_range: "parse_i64 s = Some i \<Longrightarrow> - (2 ^ 63) \<le> i \<and> i < 2 ^ 63"
  by (simp add: parse_i64_def Let_def split: prod.splits if_splits)

lemma show_int_printable: "\<forall>c\<in>set (show_int i). 33 \<le> byte c \<and> byte c < 127 \<and> c \<noteq> CHR '':''"
proof (rule show_int_shape [of i])
  fix ds assume "list_all is_digit ds" "show_int i = (if i < 0 then CHR ''-'' # ds else ds)"
  moreover have "\<forall>c\<in>set ds. 33 \<le> byte c \<and> byte c < 127 \<and> c \<noteq> CHR '':''"
  proof
    fix c assume "c \<in> set ds"
    then have "is_digit c" using calculation(1) by (simp add: list_all_iff)
    then show "33 \<le> byte c \<and> byte c < 127 \<and> c \<noteq> CHR '':''" using digit_neq [of c] by (simp add: is_digit_def)
  qed
  moreover have "33 \<le> byte CHR ''-'' \<and> byte CHR ''-'' < 127" by (simp add: byte_def)
  ultimately show ?thesis by simp
qed

lemma dropWhile_to: "c \<notin> set s \<Longrightarrow> dropWhile (\<lambda>x. x \<noteq> c) (s @ c # t) = c # t"
  by (induction s) auto

lemma takeWhile_to: "c \<notin> set s \<Longrightarrow> takeWhile (\<lambda>x. x \<noteq> c) (s @ c # t) = s"
  by (induction s) auto

text \<open>
  A skill reads back the targets and conditions that are written for an element: the text
  \<open>id:\<close> and the decimal number of a 64-bit id is the target with this id, and with \<open>:enabled\<close> after it the
  condition that this element is enabled; whatever text a target is read from, the id fits 64 bits.
\<close>

theorem targets_read_back:
  assumes "- (2 ^ 63) \<le> i" "i < 2 ^ 63"
  shows "parse_target_id (''id:'' @ show_int i) = Some i \<and>
    parse_semantic_wait_condition (''id:'' @ show_int i @ '':enabled'') = Some (TargetId i, Enabled) \<and>
    (\<forall>t j. parse_target_id t = Some j \<longrightarrow> - (2 ^ 63) \<le> j \<and> j < 2 ^ 63)"
proof (intro conjI allI impI)
  have t: "trim (show_int i) = show_int i" using show_int_printable by (intro trim_printable) blast
  have "trim (''id:'' @ show_int i) = ''id:'' @ show_int i"
    using show_int_printable [of i] by (intro trim_printable) (auto simp: byte_def)
  then show "parse_target_id (''id:'' @ show_int i) = Some i"
    using assms t by (simp add: parse_target_id_def strip_prefix_def starts_with_def parse_show_i64)
  have c: "CHR '':'' \<notin> set (show_int i)" using show_int_printable by blast
  have e: "trim ''enabled'' = ''enabled''" by (rule trim_printable) (simp add: byte_def)
  have "splitn 3 CHR '':'' (''id:'' @ show_int i @ '':enabled'') = [''id'', show_int i, ''enabled'']"
    by (simp add: numeral_3_eq_3 dropWhile_to [OF c] takeWhile_to [OF c])
  then show "parse_semantic_wait_condition (''id:'' @ show_int i @ '':enabled'') = Some (TargetId i, Enabled)"
    using assms t e by (simp add: parse_semantic_wait_condition_def parse_show_i64)
  fix u j assume "parse_target_id u = Some j"
  then show "- (2 ^ 63) \<le> j" "j < 2 ^ 63" using parse_i64_range by (auto simp: parse_target_id_def bind_eq_Some_conv)
qed

theorem targets_read_back_witness:
  "parse_target_id ''id:-42'' = Some (- 42) \<and> parse_semantic_wait_condition ''id:-42:enabled'' = Some (TargetId (- 42), Enabled)"
proof -
  have "show_int (- 42) = ''-42''" by code_simp
  with targets_read_back [of "- 42"] show ?thesis by simp
qed

text \<open>
  An attribute whose text is a number in Rust but not in JSON is sent out as null; other texts that
  are no booleans and no numbers are sent as they are.
\<close>

lemma infinite_attributes_are_lost:
  "parse_attribute_value env ''Infinity'' = JNull" "parse_attribute_value env ''nan'' = JNull"
  "parse_attribute_value env '' inf '' = JNull"
  by code_simp+

end
