(* ===== verification/Skills.thy ===== *)
theory Skills
  imports Json
begin

text \<open>
  The skills engine, \<open>skills-engine/src/lib.rs\<close>: the definition of a skill, its validation, and
  the interpreter. The runtime (the trait \<open>SkillRuntime\<close>) is a record of operations that thread the
  execution context and the runtime's own state. The interpreter's loop counts its operations, and
  this count bounds it. JSON schema validation is left out: the schema engine is a third-party
  crate.
\<close>

section \<open>Skill definitions\<close>

definition SUPPORTED_SKILL_SCHEMA_VERSION :: u32 where
  "SUPPORTED_SKILL_SCHEMA_VERSION = 1"

record StepControl =
  max_retries :: u32
  on_success :: "string option"
  on_failure :: "string option"

record LocateStep =
  lo_id :: "string option"
  lo_query :: string
  lo_control :: StepControl

record VerifyStep =
  ve_id :: "string option"
  ve_target :: string
  ve_expected :: string
  ve_control :: StepControl

record ActStep =
  ac_id :: "string option"
  ac_action :: string
  ac_target :: string
  ac_value :: "string option"
  ac_control :: StepControl

record WaitStep =
  wa_id :: "string option"
  wa_condition :: string
  wa_timeout_ms :: u64
  wa_control :: StepControl

record ExtractStep =
  ex_id :: "string option"
  ex_key :: string
  ex_selector :: string
  ex_control :: StepControl

record HandoffStep =
  ho_id :: "string option"
  ho_reason :: string
  ho_assignee :: "string option"
  ho_control :: StepControl

datatype SkillStep =
    Locate LocateStep
  | Verify VerifyStep
  | Act ActStep
  | Wait WaitStep
  | Extract ExtractStep
  | Handoff HandoffStep

record SkillDefinition =
  schema_version :: u32
  sk_name :: string
  steps :: "SkillStep list"

definition default_control :: StepControl where
  "default_control = \<lparr>max_retries = 0, on_success = None, on_failure = None\<rparr>"

fun step_id :: "SkillStep \<Rightarrow> string option" where
  "step_id (Locate s) = lo_id s"
| "step_id (Verify s) = ve_id s"
| "step_id (Act s) = ac_id s"
| "step_id (Wait s) = wa_id s"
| "step_id (Extract s) = ex_id s"
| "step_id (Handoff s) = ho_id s"

fun step_control :: "SkillStep \<Rightarrow> StepControl" where
  "step_control (Locate s) = lo_control s"
| "step_control (Verify s) = ve_control s"
| "step_control (Act s) = ac_control s"
| "step_control (Wait s) = wa_control s"
| "step_control (Extract s) = ex_control s"
| "step_control (Handoff s) = ho_control s"

fun step_kind :: "SkillStep \<Rightarrow> string" where
  "step_kind (Locate s) = ''locate''"
| "step_kind (Verify s) = ''verify''"
| "step_kind (Act s) = ''act''"
| "step_kind (Wait s) = ''wait''"
| "step_kind (Extract s) = ''extract''"
| "step_kind (Handoff s) = ''handoff''"

section \<open>Outcomes, reports, errors\<close>

datatype OperationOutcome = Success | Failure string | HandedOff string

fun outcome_label :: "OperationOutcome \<Rightarrow> string" where
  "outcome_label Success = ''success''"
| "outcome_label (Failure reason) = ''failure''"
| "outcome_label (HandedOff reason) = ''handoff''"

record SkillExecutionContext =
  extracted :: "(string \<times> Json) list"

record OperationTrace =
  tr_step_id :: "string option"
  tr_step_kind :: string
  tr_operation :: string
  tr_outcome :: string

datatype SkillRunStatus = RunCompleted | RunFailed | RunHandoff

record SkillRunReport =
  rp_status :: SkillRunStatus
  rp_trace :: "OperationTrace list"
  rp_message :: "string option"
  rp_outputs :: "(string \<times> Json) list"

datatype SkillEngineError =
    UnsupportedSchemaVersion u64 u32
  | EmptySkill
  | DuplicateStepId string
  | UnknownBranchTarget "string option" string
  | ActStepMissingVerifyPredecessor "string option"
  | OperationLimitExceeded nat

section \<open>The runtime\<close>

type_synonym 'r operation = "SkillExecutionContext \<Rightarrow> 'r \<Rightarrow> OperationOutcome \<times> SkillExecutionContext \<times> 'r"

record 'r skill_runtime =
  rt_locate :: "LocateStep \<Rightarrow> 'r operation"
  rt_verify :: "VerifyStep \<Rightarrow> 'r operation"
  rt_policy_check :: "ActStep \<Rightarrow> 'r operation"
  rt_act :: "ActStep \<Rightarrow> 'r operation"
  rt_post_check :: "ActStep \<Rightarrow> 'r operation"
  rt_wait :: "WaitStep \<Rightarrow> 'r operation"
  rt_extract :: "ExtractStep \<Rightarrow> 'r operation"
  rt_handoff :: "HandoffStep \<Rightarrow> 'r operation"

text \<open>The default methods of the trait.\<close>

definition op_const :: "OperationOutcome \<Rightarrow> 'r operation" where
  "op_const o' ctx r = (o', ctx, r)"

definition default_runtime :: "'r skill_runtime" where
  "default_runtime = \<lparr>rt_locate = (\<lambda>_. op_const Success), rt_verify = (\<lambda>_. op_const Success),
     rt_policy_check = (\<lambda>_. op_const Success), rt_act = (\<lambda>_. op_const Success),
     rt_post_check = (\<lambda>_. op_const Success), rt_wait = (\<lambda>_. op_const Success),
     rt_extract = (\<lambda>_. op_const Success), rt_handoff = (\<lambda>_. op_const (HandedOff ''handoff requested''))\<rparr>"

section \<open>Validation\<close>

text \<open>\<open>index.insert(id, idx).is_some()\<close> is a duplicate.\<close>

fun build_step_index_from :: "nat \<Rightarrow> SkillStep list \<Rightarrow> (string \<rightharpoonup> nat) \<Rightarrow> SkillEngineError + (string \<rightharpoonup> nat)" where
  "build_step_index_from idx [] index = Inr index"
| "build_step_index_from idx (step # rest) index =
     (case step_id step of
        None \<Rightarrow> build_step_index_from (Suc idx) rest index
      | Some sid \<Rightarrow>
          if index sid \<noteq> None then Inl (DuplicateStepId sid)
          else build_step_index_from (Suc idx) rest (index(sid \<mapsto> idx)))"

definition build_step_index :: "SkillDefinition \<Rightarrow> SkillEngineError + (string \<rightharpoonup> nat)" where
  "build_step_index skill = build_step_index_from 0 (steps skill) Map.empty"

definition check_branch_target :: "(string \<rightharpoonup> nat) \<Rightarrow> SkillStep \<Rightarrow> string option \<Rightarrow> SkillEngineError + unit" where
  "check_branch_target index step branch = (case branch of
     None \<Rightarrow> Inr ()
   | Some target \<Rightarrow> if index target = None then Inl (UnknownBranchTarget (step_id step) target) else Inr ())"

fun check_branch_targets :: "(string \<rightharpoonup> nat) \<Rightarrow> SkillStep list \<Rightarrow> SkillEngineError + unit" where
  "check_branch_targets index [] = Inr ()"
| "check_branch_targets index (step # rest) =
     res_then (check_branch_target index step (on_success (step_control step)))
       (res_then (check_branch_target index step (on_failure (step_control step)))
          (check_branch_targets index rest))"

datatype TransitionOutcome = TrSuccess | TrFailure

text \<open>Indexing out of range panics, as does \<open>index[target]\<close> for a missing target.\<close>

definition validate_act_transition ::
  "SkillDefinition \<Rightarrow> nat option \<Rightarrow> TransitionOutcome \<Rightarrow> nat \<Rightarrow> (SkillEngineError + unit) call" where
  "validate_act_transition skill source_idx tr target_idx =
     (if target_idx \<ge> length (steps skill) then Panic
      else case steps skill ! target_idx of
        Act act \<Rightarrow>
          (let authorized = (case source_idx of
                 None \<Rightarrow> Ret False
               | Some idx \<Rightarrow>
                   if tr \<noteq> TrSuccess then Ret False
                   else if idx \<ge> length (steps skill) then Panic
                   else Ret (case steps skill ! idx of Verify verify \<Rightarrow> ve_target verify = ac_target act | _ \<Rightarrow> False))
           in call_map (\<lambda>b. ensure b (ActStepMissingVerifyPredecessor (ac_id act))) authorized)
      | _ \<Rightarrow> Ret (Inr ()))"

text \<open>Follow an edge: check it, then mark its target.\<close>

definition follow_edge ::
  "SkillDefinition \<Rightarrow> nat option \<Rightarrow> TransitionOutcome \<Rightarrow> nat \<Rightarrow> bool list \<Rightarrow> (SkillEngineError + bool list) call" where
  "follow_edge skill source_idx tr target_idx has_incoming_edge =
     call_bind (validate_act_transition skill source_idx tr target_idx) (\<lambda>r.
       case r of
         Inl e \<Rightarrow> Ret (Inl e)
       | Inr _ \<Rightarrow>
           if target_idx \<ge> length has_incoming_edge then Panic
           else Ret (Inr (has_incoming_edge[target_idx := True])))"

definition branch_index :: "(string \<rightharpoonup> nat) \<Rightarrow> string option \<Rightarrow> nat option call" where
  "branch_index index branch = (case branch of None \<Rightarrow> Ret None
     | Some target \<Rightarrow> (case index target of None \<Rightarrow> Panic | Some i \<Rightarrow> Ret (Some i)))"

definition success_target :: "SkillDefinition \<Rightarrow> (string \<rightharpoonup> nat) \<Rightarrow> nat \<Rightarrow> SkillStep \<Rightarrow> nat option call" where
  "success_target skill index source_idx step = (case step of
     Handoff _ \<Rightarrow> Ret None
   | _ \<Rightarrow> call_map (\<lambda>b. case b of
            Some i \<Rightarrow> Some i
          | None \<Rightarrow> if source_idx + 1 < length (steps skill) then Some (source_idx + 1) else None)
         (branch_index index (on_success (step_control step))))"

definition follow_opt ::
  "SkillDefinition \<Rightarrow> nat \<Rightarrow> TransitionOutcome \<Rightarrow> nat option call \<Rightarrow> bool list \<Rightarrow> (SkillEngineError + bool list) call" where
  "follow_opt skill source_idx tr target has_incoming_edge =
     call_bind target (\<lambda>t. case t of
         None \<Rightarrow> Ret (Inr has_incoming_edge)
       | Some target_idx \<Rightarrow> follow_edge skill (Some source_idx) tr target_idx has_incoming_edge)"

definition call_res_bind :: "('e + 'a) call \<Rightarrow> ('a \<Rightarrow> ('e + 'b) call) \<Rightarrow> ('e + 'b) call" where
  "call_res_bind c f = call_bind c (\<lambda>r. case r of Inl e \<Rightarrow> Ret (Inl e) | Inr a \<Rightarrow> f a)"

fun validate_edges ::
  "SkillDefinition \<Rightarrow> (string \<rightharpoonup> nat) \<Rightarrow> nat \<Rightarrow> SkillStep list \<Rightarrow> bool list \<Rightarrow> (SkillEngineError + bool list) call" where
  "validate_edges skill index source_idx [] has_incoming_edge = Ret (Inr has_incoming_edge)"
| "validate_edges skill index source_idx (step # rest) has_incoming_edge =
     call_res_bind (follow_opt skill source_idx TrSuccess (success_target skill index source_idx step) has_incoming_edge) (\<lambda>h1.
     call_res_bind (follow_opt skill source_idx TrFailure (branch_index index (on_failure (step_control step))) h1) (\<lambda>h2.
       validate_edges skill index (Suc source_idx) rest h2))"

fun check_act_reached :: "SkillStep list \<Rightarrow> bool list \<Rightarrow> (SkillEngineError + unit) call" where
  "check_act_reached [] has_incoming_edge = Ret (Inr ())"
| "check_act_reached (step # rest) [] = Panic"
| "check_act_reached (step # rest) (h # hs) = (case step of
     Act act \<Rightarrow> if h then check_act_reached rest hs else Ret (Inl (ActStepMissingVerifyPredecessor (ac_id act)))
   | _ \<Rightarrow> check_act_reached rest hs)"

definition validate_act_predecessors :: "SkillDefinition \<Rightarrow> (string \<rightharpoonup> nat) \<Rightarrow> (SkillEngineError + unit) call" where
  "validate_act_predecessors skill index =
     call_res_bind (follow_edge skill None TrSuccess 0 (replicate (length (steps skill)) False)) (\<lambda>h0.
     call_res_bind (validate_edges skill index 0 (steps skill) h0) (\<lambda>h.
       check_act_reached (steps skill) h))"

definition validate_skill_definition :: "SkillDefinition \<Rightarrow> (SkillEngineError + unit) call" where
  "validate_skill_definition skill =
     (if schema_version skill = 0 \<or> schema_version skill > SUPPORTED_SKILL_SCHEMA_VERSION
      then Ret (Inl (UnsupportedSchemaVersion (ucast (schema_version skill)) SUPPORTED_SKILL_SCHEMA_VERSION))
      else if steps skill = [] then Ret (Inl EmptySkill)
      else case build_step_index skill of
        Inl e \<Rightarrow> Ret (Inl e)
      | Inr index \<Rightarrow>
          (case check_branch_targets index (steps skill) of
             Inl e \<Rightarrow> Ret (Inl e)
           | Inr _ \<Rightarrow> validate_act_predecessors skill index))"

section \<open>The interpreter\<close>

record 'r exec =
  ex_trace :: "OperationTrace list"
  ex_ctx :: SkillExecutionContext
  ex_rt :: 'r

definition call_operation :: "SkillStep \<Rightarrow> string \<Rightarrow> 'r operation \<Rightarrow> 'r exec \<Rightarrow> OperationOutcome \<times> 'r exec" where
  "call_operation step operation op s =
     (let (outcome, ctx, r) = op (ex_ctx s) (ex_rt s)
      in (outcome, \<lparr>ex_trace = ex_trace s @ [\<lparr>tr_step_id = step_id step, tr_step_kind = step_kind step,
                       tr_operation = operation, tr_outcome = outcome_label outcome\<rparr>],
                    ex_ctx = ctx, ex_rt = r\<rparr>))"

fun execute_step :: "'r skill_runtime \<Rightarrow> SkillStep \<Rightarrow> 'r exec \<Rightarrow> OperationOutcome \<times> 'r exec" where
  "execute_step rt (Locate def) s = call_operation (Locate def) ''locate'' (rt_locate rt def) s"
| "execute_step rt (Verify def) s = call_operation (Verify def) ''verify'' (rt_verify rt def) s"
| "execute_step rt (Wait def) s = call_operation (Wait def) ''wait'' (rt_wait rt def) s"
| "execute_step rt (Extract def) s = call_operation (Extract def) ''extract'' (rt_extract rt def) s"
| "execute_step rt (Handoff def) s =
     (case call_operation (Handoff def) ''handoff'' (rt_handoff rt def) s of
        (Success, s1) \<Rightarrow> (HandedOff (ho_reason def), s1)
      | (other, s1) \<Rightarrow> (other, s1))"
| "execute_step rt (Act def) s =
     (case call_operation (Act def) ''policy_check'' (rt_policy_check rt def) s of
        (Success, s1) \<Rightarrow>
          (case call_operation (Act def) ''act'' (rt_act rt def) s1 of
             (Success, s2) \<Rightarrow> call_operation (Act def) ''post_check'' (rt_post_check rt def) s2
           | (acted, s2) \<Rightarrow> (acted, s2))
      | (policy, s1) \<Rightarrow> (policy, s1))"

record loop_state =
  lp_cursor :: nat
  lp_retries :: "nat \<rightharpoonup> u32"

definition report :: "SkillRunStatus \<Rightarrow> string option \<Rightarrow> 'r exec \<Rightarrow> SkillRunReport" where
  "report status message s = \<lparr>rp_status = status, rp_trace = ex_trace s, rp_message = message,
     rp_outputs = extracted (ex_ctx s)\<rparr>"

definition jump :: "(string \<rightharpoonup> nat) \<Rightarrow> SkillStep \<Rightarrow> string \<Rightarrow> SkillEngineError + nat" where
  "jump index step target = (case index target of
     None \<Rightarrow> Inl (UnknownBranchTarget (step_id step) target) | Some i \<Rightarrow> Inr i)"

text \<open>What an iteration of the loop does with the outcome of its step: stop with a result, or go on.\<close>

datatype turn = Stop "SkillEngineError + SkillRunReport" | Next loop_state

definition after_outcome ::
  "(string \<rightharpoonup> nat) \<Rightarrow> SkillStep \<Rightarrow> loop_state \<Rightarrow> OperationOutcome \<Rightarrow> 'r exec \<Rightarrow> turn" where
  "after_outcome index step l outcome s =
     (case outcome of
        Success \<Rightarrow>
          (let retries = (lp_retries l)(lp_cursor l := None)
           in case step of
                Handoff _ \<Rightarrow> Stop (Inr (report RunHandoff (Some ''handoff step reached'') s))
              | _ \<Rightarrow>
                 (case on_success (step_control step) of
                    Some target \<Rightarrow>
                      (case jump index step target of
                         Inl e \<Rightarrow> Stop (Inl e)
                       | Inr i \<Rightarrow> Next \<lparr>lp_cursor = i, lp_retries = retries\<rparr>)
                  | None \<Rightarrow> Next \<lparr>lp_cursor = lp_cursor l + 1, lp_retries = retries\<rparr>))
      | Failure reason \<Rightarrow>
          (let attempts = (case lp_retries l (lp_cursor l) of None \<Rightarrow> 0 | Some n \<Rightarrow> n);
               retries = (lp_retries l)(lp_cursor l \<mapsto> attempts)
           in if attempts < max_retries (step_control step)
              then Next \<lparr>lp_cursor = lp_cursor l, lp_retries = retries(lp_cursor l \<mapsto> attempts + 1)\<rparr>
              else case on_failure (step_control step) of
                     Some target \<Rightarrow>
                       (case jump index step target of
                          Inl e \<Rightarrow> Stop (Inl e)
                        | Inr i \<Rightarrow> Next \<lparr>lp_cursor = i, lp_retries = retries\<rparr>)
                   | None \<Rightarrow> Stop (Inr (report RunFailed (Some reason) s)))
      | HandedOff reason \<Rightarrow> Stop (Inr (report RunHandoff (Some reason) s)))"

function run_loop ::
  "nat \<Rightarrow> SkillDefinition \<Rightarrow> (string \<rightharpoonup> nat) \<Rightarrow> 'r skill_runtime \<Rightarrow> nat \<Rightarrow> loop_state \<Rightarrow> 'r exec \<Rightarrow>
     (SkillEngineError + SkillRunReport) \<times> 'r exec" where
  "run_loop max_operations skill index rt operations l s =
     (if lp_cursor l < length (steps skill)
      then if operations \<ge> max_operations then (Inl (OperationLimitExceeded max_operations), s)
           else (let step = steps skill ! lp_cursor l;
                     (outcome, s') = execute_step rt step s
                 in case after_outcome index step l outcome s' of
                      Stop result \<Rightarrow> (result, s')
                    | Next l' \<Rightarrow> run_loop max_operations skill index rt (operations + 1) l' s')
      else (Inr (report RunCompleted None s), s))"
  by pat_completeness auto
termination
  by (relation "measure (\<lambda>(m, sk, ix, rt, n, l, s). m - n)") auto

declare run_loop.simps [simp del]

definition DEFAULT_MAX_OPERATIONS :: nat where
  "DEFAULT_MAX_OPERATIONS = 1024"

definition start_exec :: "'r \<Rightarrow> 'r exec" where
  "start_exec r = \<lparr>ex_trace = [], ex_ctx = \<lparr>extracted = []\<rparr>, ex_rt = r\<rparr>"

definition run :: "nat \<Rightarrow> SkillDefinition \<Rightarrow> 'r skill_runtime \<Rightarrow> 'r \<Rightarrow> ((SkillEngineError + SkillRunReport) \<times> 'r) call" where
  "run max_operations skill rt r =
     call_map (\<lambda>v. case v of
         Inl e \<Rightarrow> (Inl e, r)
       | Inr _ \<Rightarrow>
           (case build_step_index skill of
              Inl e \<Rightarrow> (Inl e, r)
            | Inr index \<Rightarrow>
                (let (result, s) = run_loop max_operations skill index rt 0 \<lparr>lp_cursor = 0, lp_retries = Map.empty\<rparr> (start_exec r)
                 in (result, ex_rt s))))
       (validate_skill_definition skill)"

section \<open>What validation accepts\<close>

definition step_at :: "SkillDefinition \<Rightarrow> string \<Rightarrow> nat option" where
  "step_at skill sid = position (\<lambda>s. step_id s = Some sid) (steps skill)"

definition step_ids :: "SkillStep list \<Rightarrow> string list" where
  "step_ids ss = List.map_filter step_id ss"

lemma step_ids_simps [simp]:
  "step_ids [] = []"
  "step_ids (s # ss) = (case step_id s of None \<Rightarrow> step_ids ss | Some i \<Rightarrow> i # step_ids ss)"
  by (auto simp: step_ids_def List.map_filter_def split: option.splits)

lemma position_id_None: "position (\<lambda>s. step_id s = Some k) ss = None \<longleftrightarrow> k \<notin> set (step_ids ss)"
  by (induction ss) (auto split: option.splits)

lemma build_step_index_from_ok:
  assumes "distinct (step_ids ss)" "set (step_ids ss) \<inter> dom m = {}"
  shows "build_step_index_from i ss m = Inr (\<lambda>k. case position (\<lambda>s. step_id s = Some k) ss of
           None \<Rightarrow> m k | Some j \<Rightarrow> Some (i + j))"
  using assms
proof (induction ss arbitrary: i m)
  case (Cons s ss)
  show ?case
  proof (cases "step_id s")
    case None
    with Cons show ?thesis by (auto simp: fun_eq_iff split: option.splits)
  next
    case (Some x)
    with Cons.prems have "m x = None" "x \<notin> set (step_ids ss)" by (auto simp: dom_def)
    moreover have "build_step_index_from (Suc i) ss (m(x \<mapsto> i)) = Inr (\<lambda>k. case position (\<lambda>s. step_id s = Some k) ss of
           None \<Rightarrow> (m(x \<mapsto> i)) k | Some j \<Rightarrow> Some (Suc i + j))"
      using Cons.prems Some by (intro Cons.IH) (auto split: if_splits)
    ultimately show ?thesis using Some position_id_None [of x ss]
      by (auto simp: fun_eq_iff split: option.splits)
  qed
qed simp

lemma build_step_index_from_dup:
  assumes "\<not> (distinct (step_ids ss) \<and> set (step_ids ss) \<inter> dom m = {})"
  shows "\<exists>d. build_step_index_from i ss m = Inl (DuplicateStepId d)"
  using assms
proof (induction ss arbitrary: i m)
  case (Cons s ss)
  show ?case
  proof (cases "step_id s")
    case None
    with Cons show ?thesis by simp
  next
    case (Some x)
    show ?thesis
    proof (cases "m x")
      case None
      then have "\<not> (distinct (step_ids ss) \<and> set (step_ids ss) \<inter> dom (m(x \<mapsto> i)) = {})"
        using Cons.prems Some by (auto simp: dom_def)
      from Cons.IH [OF this, of "Suc i"] Some None show ?thesis by (simp del: fun_upd_apply)
    qed (use Some in simp)
  qed
qed simp

lemma build_step_index_cases:
  "if distinct (step_ids (steps skill)) then build_step_index skill = Inr (step_at skill)
   else (\<exists>d. build_step_index skill = Inl (DuplicateStepId d))"
proof (cases "distinct (step_ids (steps skill))")
  case True
  then show ?thesis
    by (simp add: build_step_index_def build_step_index_from_ok step_at_def fun_eq_iff split: option.splits)
next
  case False
  with build_step_index_from_dup [of "steps skill" Map.empty 0] show ?thesis by (simp add: build_step_index_def)
qed

lemma step_at_bound: "step_at skill k = Some i \<Longrightarrow> i < length (steps skill) \<and> step_id (steps skill ! i) = Some k"
  unfolding step_at_def by (drule position_Some) simp

definition targets_exist :: "(string \<rightharpoonup> nat) \<Rightarrow> SkillStep \<Rightarrow> bool" where
  "targets_exist index step \<longleftrightarrow>
     (\<forall>t. on_success (step_control step) = Some t \<or> on_failure (step_control step) = Some t \<longrightarrow> index t \<noteq> None)"

lemma check_branch_targets_iff:
  "check_branch_targets index ss = Inr () \<longleftrightarrow> (\<forall>s\<in>set ss. targets_exist index s)"
  by (induction ss) (auto simp: check_branch_target_def targets_exist_def res_then_Inr_iff split: option.splits)

text \<open>The edges along which the interpreter may enter a step; the first step is entered from nowhere.\<close>

definition is_handoff :: "SkillStep \<Rightarrow> bool" where
  "is_handoff step = (case step of Handoff _ \<Rightarrow> True | _ \<Rightarrow> False)"

inductive skill_edge :: "SkillDefinition \<Rightarrow> nat option \<Rightarrow> TransitionOutcome \<Rightarrow> nat \<Rightarrow> bool" for skill where
  entry: "skill_edge skill None TrSuccess 0"
| success_branch: "i < length (steps skill) \<Longrightarrow> \<not> is_handoff (steps skill ! i) \<Longrightarrow>
    on_success (step_control (steps skill ! i)) = Some t \<Longrightarrow> step_at skill t = Some j \<Longrightarrow>
    skill_edge skill (Some i) TrSuccess j"
| fall_through: "Suc i < length (steps skill) \<Longrightarrow> \<not> is_handoff (steps skill ! i) \<Longrightarrow>
    on_success (step_control (steps skill ! i)) = None \<Longrightarrow> skill_edge skill (Some i) TrSuccess (Suc i)"
| failure_branch: "i < length (steps skill) \<Longrightarrow> on_failure (step_control (steps skill ! i)) = Some t \<Longrightarrow>
    step_at skill t = Some j \<Longrightarrow> skill_edge skill (Some i) TrFailure j"

inductive_simps skill_edge_simps: "skill_edge skill None tr j" "skill_edge skill (Some i) TrSuccess j"
  "skill_edge skill (Some i) TrFailure j"

definition verified_by :: "SkillDefinition \<Rightarrow> string \<Rightarrow> nat \<Rightarrow> bool" where
  "verified_by skill target i = (case steps skill ! i of Verify v \<Rightarrow> ve_target v = target | _ \<Rightarrow> False)"

definition edge_ok :: "SkillDefinition \<Rightarrow> nat option \<Rightarrow> TransitionOutcome \<Rightarrow> nat \<Rightarrow> bool" where
  "edge_ok skill source tr j = (case steps skill ! j of
     Act a \<Rightarrow> tr = TrSuccess \<and> (case source of None \<Rightarrow> False | Some i \<Rightarrow> verified_by skill (ac_target a) i)
   | _ \<Rightarrow> True)"

definition is_act :: "SkillStep \<Rightarrow> bool" where
  "is_act step = (case step of Act _ \<Rightarrow> True | _ \<Rightarrow> False)"

text \<open>
  A valid skill: the supported version, at least one step, distinct ids, branches to existing steps;
  every edge into an action is the success edge of the verification of the same target; every
  action has an edge into it.
\<close>

definition valid_skill :: "SkillDefinition \<Rightarrow> bool" where
  "valid_skill skill \<longleftrightarrow>
     schema_version skill = 1 \<and> steps skill \<noteq> [] \<and> distinct (step_ids (steps skill)) \<and>
     (\<forall>s\<in>set (steps skill). targets_exist (step_at skill) s) \<and>
     (\<forall>source tr j. skill_edge skill source tr j \<longrightarrow> edge_ok skill source tr j) \<and>
     (\<forall>j<length (steps skill). is_act (steps skill ! j) \<longrightarrow> (\<exists>source tr. skill_edge skill source tr j))"

lemma validate_act_transition_in_range:
  assumes "j < length (steps skill)" "\<forall>i. source = Some i \<longrightarrow> i < length (steps skill)"
  shows "\<exists>e. validate_act_transition skill source tr j = Ret (ensure (edge_ok skill source tr j) e)"
  using assms by (auto simp: validate_act_transition_def edge_ok_def verified_by_def ensure_def Let_def
      split: SkillStep.splits option.splits)

lemma follow_edge_in_range:
  assumes "j < length (steps skill)" "\<forall>i. source = Some i \<longrightarrow> i < length (steps skill)" "length h = length (steps skill)"
  shows "\<exists>e. follow_edge skill source tr j h =
           Ret (if edge_ok skill source tr j then Inr (h[j := True]) else Inl e)"
proof -
  obtain e where e: "validate_act_transition skill source tr j = Ret (ensure (edge_ok skill source tr j) e)"
    using validate_act_transition_in_range [OF assms(1,2)] by blast
  show ?thesis using assms(1,3) unfolding follow_edge_def e by (intro exI [of _ e]) (auto simp: ensure_def)
qed

text \<open>The edges out of a step, as the two parts of the loop follow them.\<close>

lemma success_target_edge:
  assumes "i < length (steps skill)" "targets_exist (step_at skill) (steps skill ! i)"
  shows "\<exists>t. success_target skill (step_at skill) i (steps skill ! i) = Ret t \<and>
           (\<forall>j. skill_edge skill (Some i) TrSuccess j \<longleftrightarrow> t = Some j)"
proof (cases "on_success (step_control (steps skill ! i))")
  case None
  then show ?thesis using assms
    by (auto simp: success_target_def branch_index_def skill_edge_simps is_handoff_def split: SkillStep.splits)
next
  case (Some t)
  then obtain j where "step_at skill t = Some j" using assms by (auto simp: targets_exist_def)
  then show ?thesis using assms Some
    by (auto simp: success_target_def branch_index_def skill_edge_simps is_handoff_def split: SkillStep.splits)
qed

lemma failure_target_edge:
  assumes "i < length (steps skill)" "targets_exist (step_at skill) (steps skill ! i)"
  shows "\<exists>t. branch_index (step_at skill) (on_failure (step_control (steps skill ! i))) = Ret t \<and>
           (\<forall>j. skill_edge skill (Some i) TrFailure j \<longleftrightarrow> t = Some j)"
  using assms by (auto simp: branch_index_def skill_edge_simps targets_exist_def split: option.splits)

lemma skill_edge_bound: "skill_edge skill source tr j \<Longrightarrow> steps skill \<noteq> [] \<Longrightarrow> j < length (steps skill)"
  by (induction rule: skill_edge.induct) (auto dest: step_at_bound)

lemma follow_opt_in_range:
  assumes t: "target = Ret t" "\<forall>j. skill_edge skill (Some i) tr j \<longleftrightarrow> t = Some j"
    and "i < length (steps skill)" "length h = length (steps skill)"
  shows "(\<exists>e j. follow_opt skill i tr target h = Ret (Inl e) \<and> skill_edge skill (Some i) tr j \<and> \<not> edge_ok skill (Some i) tr j) \<or>
    (\<exists>h'. follow_opt skill i tr target h = Ret (Inr h') \<and> length h' = length (steps skill) \<and>
       (\<forall>j. skill_edge skill (Some i) tr j \<longrightarrow> edge_ok skill (Some i) tr j) \<and>
       (\<forall>j<length (steps skill). h' ! j \<longleftrightarrow> h ! j \<or> skill_edge skill (Some i) tr j))"
proof (cases t)
  case None
  then show ?thesis using assms by (simp add: follow_opt_def)
next
  case (Some j)
  then have j: "j < length (steps skill)" using t(2) skill_edge_bound assms(3) by fastforce
  obtain e where "follow_edge skill (Some i) tr j h = Ret (if edge_ok skill (Some i) tr j then Inr (h[j := True]) else Inl e)"
    using follow_edge_in_range [OF j, of "Some i" h tr] assms(3,4) by auto
  then show ?thesis using assms Some j by (auto simp: follow_opt_def nth_list_update)
qed

lemma call_res_bind_simps [simp]:
  "call_res_bind (Ret (Inl e)) f = Ret (Inl e)" "call_res_bind (Ret (Inr a)) f = f a"
  by (simp_all add: call_res_bind_def)

definition edges_ok_from :: "SkillDefinition \<Rightarrow> nat \<Rightarrow> bool" where
  "edges_ok_from skill k \<longleftrightarrow> (\<forall>i tr j. k \<le> i \<longrightarrow> skill_edge skill (Some i) tr j \<longrightarrow> edge_ok skill (Some i) tr j)"

lemma edges_ok_from_Suc:
  "edges_ok_from skill k \<longleftrightarrow>
     (\<forall>tr j. skill_edge skill (Some k) tr j \<longrightarrow> edge_ok skill (Some k) tr j) \<and> edges_ok_from skill (Suc k)"
  unfolding edges_ok_from_def by (metis Suc_leD Suc_leI le_neq_implies_less order_refl)

lemma ex_from_Suc: "(\<exists>i tr. k \<le> i \<and> P i tr) \<longleftrightarrow> (\<exists>tr. P k tr) \<or> (\<exists>i tr. Suc k \<le> i \<and> P i tr)"
  by (metis Suc_leD Suc_leI le_neq_implies_less order_refl)

lemma ex_transition: "(\<exists>tr. P tr) \<longleftrightarrow> P TrSuccess \<or> P TrFailure"
  by (metis TransitionOutcome.exhaust)

lemma validate_edges_exact:
  assumes "ss = drop k (steps skill)" "\<forall>s\<in>set (steps skill). targets_exist (step_at skill) s" "length h = length (steps skill)"
  shows "(\<exists>e. validate_edges skill (step_at skill) k ss h = Ret (Inl e) \<and> \<not> edges_ok_from skill k) \<or>
    (\<exists>h'. validate_edges skill (step_at skill) k ss h = Ret (Inr h') \<and> length h' = length (steps skill) \<and> edges_ok_from skill k \<and>
       (\<forall>j<length (steps skill). h' ! j \<longleftrightarrow> h ! j \<or> (\<exists>i tr. k \<le> i \<and> skill_edge skill (Some i) tr j)))"
  using assms
proof (induction ss arbitrary: k h)
  case Nil
  then have "\<not> skill_edge skill (Some i) tr j" if "k \<le> i" for i tr j
    using that by (cases tr) (auto simp: skill_edge_simps)
  then show ?case using Nil by (auto simp: edges_ok_from_def)
next
  case (Cons s ss)
  have k: "k < length (steps skill)" using Cons.prems(1) by (metis drop_all leI list.distinct(1))
  have s: "steps skill ! k = s" and ss: "ss = drop (Suc k) (steps skill)"
    using Cons.prems(1) Cons_nth_drop_Suc [OF k] by (metis list.inject)+
  have te: "targets_exist (step_at skill) (steps skill ! k)" using Cons.prems(2) k by auto
  obtain t1 where t1: "success_target skill (step_at skill) k s = Ret t1"
    "\<forall>j. skill_edge skill (Some k) TrSuccess j \<longleftrightarrow> t1 = Some j" using success_target_edge [OF k te] s by auto
  obtain t2 where t2: "branch_index (step_at skill) (on_failure (step_control s)) = Ret t2"
    "\<forall>j. skill_edge skill (Some k) TrFailure j \<longleftrightarrow> t2 = Some j" using failure_target_edge [OF k te] s by auto
  from follow_opt_in_range [OF t1 k Cons.prems(3)]
  consider (bad) e where "follow_opt skill k TrSuccess (success_target skill (step_at skill) k s) h = Ret (Inl e)" "\<not> edges_ok_from skill k"
    | (good) h1 where "follow_opt skill k TrSuccess (success_target skill (step_at skill) k s) h = Ret (Inr h1)"
      "length h1 = length (steps skill)" "\<forall>j. skill_edge skill (Some k) TrSuccess j \<longrightarrow> edge_ok skill (Some k) TrSuccess j"
      "\<forall>j<length (steps skill). h1 ! j \<longleftrightarrow> h ! j \<or> skill_edge skill (Some k) TrSuccess j"
    unfolding edges_ok_from_Suc [of skill k] by blast
  then show ?case
  proof cases
    case bad
    then show ?thesis by simp
  next
    case good
    note g1 = good
    from follow_opt_in_range [OF t2 k g1(2)]
    consider (bad) e where "follow_opt skill k TrFailure (branch_index (step_at skill) (on_failure (step_control s))) h1 = Ret (Inl e)" "\<not> edges_ok_from skill k"
      | (good) h2 where "follow_opt skill k TrFailure (branch_index (step_at skill) (on_failure (step_control s))) h1 = Ret (Inr h2)"
        "length h2 = length (steps skill)" "\<forall>j. skill_edge skill (Some k) TrFailure j \<longrightarrow> edge_ok skill (Some k) TrFailure j"
        "\<forall>j<length (steps skill). h2 ! j \<longleftrightarrow> h1 ! j \<or> skill_edge skill (Some k) TrFailure j"
      unfolding edges_ok_from_Suc [of skill k] by blast
    then show ?thesis
    proof cases
      case bad
      then show ?thesis using g1 by simp
    next
      case good
      have now: "\<forall>tr j. skill_edge skill (Some k) tr j \<longrightarrow> edge_ok skill (Some k) tr j"
        using g1(3) good(3) by (metis TransitionOutcome.exhaust)
      have split_k: "(\<exists>i tr. k \<le> i \<and> skill_edge skill (Some i) tr j) \<longleftrightarrow>
          skill_edge skill (Some k) TrSuccess j \<or> skill_edge skill (Some k) TrFailure j \<or>
          (\<exists>i tr. Suc k \<le> i \<and> skill_edge skill (Some i) tr j)" for j
        unfolding ex_from_Suc [of k "\<lambda>i tr. skill_edge skill (Some i) tr j"]
          ex_transition [of "\<lambda>tr. skill_edge skill (Some k) tr j"] by blast
      have run: "validate_edges skill (step_at skill) k (s # ss) h = validate_edges skill (step_at skill) (Suc k) ss h2"
        using g1(1) good(1) by simp
      from Cons.IH [OF ss Cons.prems(2) good(2)] show ?thesis
      proof (elim disjE exE conjE)
        fix e assume "validate_edges skill (step_at skill) (Suc k) ss h2 = Ret (Inl e)" "\<not> edges_ok_from skill (Suc k)"
        then show ?thesis unfolding run edges_ok_from_Suc [of skill k] by blast
      next
        fix h' assume h': "validate_edges skill (step_at skill) (Suc k) ss h2 = Ret (Inr h')" "length h' = length (steps skill)"
          "edges_ok_from skill (Suc k)"
          "\<forall>j<length (steps skill). h' ! j \<longleftrightarrow> h2 ! j \<or> (\<exists>i tr. Suc k \<le> i \<and> skill_edge skill (Some i) tr j)"
        have "\<forall>j<length (steps skill). h' ! j \<longleftrightarrow> h ! j \<or> (\<exists>i tr. k \<le> i \<and> skill_edge skill (Some i) tr j)"
          using h'(4) good(4) g1(4) split_k by blast
        moreover have "edges_ok_from skill k" using now h'(3) unfolding edges_ok_from_Suc [of skill k] by blast
        ultimately show ?thesis unfolding run using h'(1,2) by blast
      qed
    qed
  qed
qed

lemma check_act_reached_exact:
  "length h = length ss \<Longrightarrow> \<exists>r. check_act_reached ss h = Ret r \<and>
     (r = Inr () \<longleftrightarrow> (\<forall>j<length ss. is_act (ss ! j) \<longrightarrow> h ! j))"
proof (induction ss h rule: check_act_reached.induct)
  case (3 step rest h hs)
  then show ?case by (cases step) (auto simp: is_act_def All_less_Suc2)
qed auto

lemma validate_act_predecessors_exact:
  assumes "steps skill \<noteq> []" "\<forall>s\<in>set (steps skill). targets_exist (step_at skill) s"
  shows "\<exists>r. validate_act_predecessors skill (step_at skill) = Ret r \<and>
    (r = Inr () \<longleftrightarrow> (\<forall>source tr j. skill_edge skill source tr j \<longrightarrow> edge_ok skill source tr j) \<and>
       (\<forall>j<length (steps skill). is_act (steps skill ! j) \<longrightarrow> (\<exists>source tr. skill_edge skill source tr j)))"
proof -
  let ?n = "length (steps skill)"
  let ?h0 = "(replicate ?n False)[0 := True]"
  have all: "(\<forall>source tr j. skill_edge skill source tr j \<longrightarrow> edge_ok skill source tr j) \<longleftrightarrow>
      edge_ok skill None TrSuccess 0 \<and> edges_ok_from skill 0"
    unfolding edges_ok_from_def by (metis le0 not_None_eq skill_edge.entry skill_edge_simps(1))
  obtain e where e: "follow_edge skill None TrSuccess 0 (replicate ?n False) =
      Ret (if edge_ok skill None TrSuccess 0 then Inr ?h0 else Inl e)"
    using follow_edge_in_range [of 0 skill None "replicate ?n False" TrSuccess] assms(1) by auto
  show ?thesis
  proof (cases "edge_ok skill None TrSuccess 0")
    case False
    then show ?thesis by (auto simp: validate_act_predecessors_def e all)
  next
    case True
    from validate_edges_exact [OF _ assms(2), of "steps skill" 0 ?h0]
    consider (bad) e' where "validate_edges skill (step_at skill) 0 (steps skill) ?h0 = Ret (Inl e')" "\<not> edges_ok_from skill 0"
      | (good) h where "validate_edges skill (step_at skill) 0 (steps skill) ?h0 = Ret (Inr h)" "length h = ?n" "edges_ok_from skill 0"
        "\<forall>j<?n. h ! j \<longleftrightarrow> ?h0 ! j \<or> (\<exists>i tr. skill_edge skill (Some i) tr j)" by auto
    then show ?thesis
    proof cases
      case bad
      then show ?thesis using True by (auto simp: validate_act_predecessors_def e all)
    next
      case good
      have "?h0 ! j \<or> (\<exists>i tr. skill_edge skill (Some i) tr j) \<longleftrightarrow> (\<exists>source tr. skill_edge skill source tr j)" if "j < ?n" for j
        using that by (cases j) (auto simp: skill_edge_simps, (metis option.exhaust skill_edge.entry skill_edge_simps(1) nat.distinct(1))+)
      with check_act_reached_exact [OF good(2)] good True show ?thesis
        by (auto simp: validate_act_predecessors_def e all)
    qed
  qed
qed

lemma validation_decides:
  "\<exists>r. validate_skill_definition skill = Ret r \<and> (r = Inr () \<longleftrightarrow> valid_skill skill)"
proof -
  have version: "\<not> (schema_version skill = 0 \<or> schema_version skill > SUPPORTED_SKILL_SCHEMA_VERSION) \<longleftrightarrow> schema_version skill = 1"
    unfolding SUPPORTED_SKILL_SCHEMA_VERSION_def by (metis linorder_not_less word_le_less_eq word_less_1 word_not_simps(1) order.refl order_le_less)
  show ?thesis
  proof (cases "schema_version skill = 1 \<and> steps skill \<noteq> [] \<and> distinct (step_ids (steps skill)) \<and>
      (\<forall>s\<in>set (steps skill). targets_exist (step_at skill) s)")
    case True
    then have ix: "build_step_index skill = Inr (step_at skill)" using build_step_index_cases [of skill] by simp
    have "check_branch_targets (step_at skill) (steps skill) = Inr ()" using True by (simp add: check_branch_targets_iff)
    with ix True version have "validate_skill_definition skill = validate_act_predecessors skill (step_at skill)"
      by (simp add: validate_skill_definition_def)
    with validate_act_predecessors_exact [of skill] True show ?thesis by (auto simp: valid_skill_def)
  next
    case False
    then have no: "\<not> valid_skill skill" by (auto simp: valid_skill_def)
    have "\<exists>e. validate_skill_definition skill = Ret (Inl e)"
    proof (cases "distinct (step_ids (steps skill))")
      case True
      then have ix: "build_step_index skill = Inr (step_at skill)" using build_step_index_cases [of skill] by simp
      show ?thesis
      proof (cases "check_branch_targets (step_at skill) (steps skill)")
        case (Inr u)
        with False True version show ?thesis by (auto simp: validate_skill_definition_def check_branch_targets_iff ix)
      qed (auto simp: validate_skill_definition_def ix)
    next
      case dup: False
      then obtain d where "build_step_index skill = Inl (DuplicateStepId d)" using build_step_index_cases [of skill] by auto
      then show ?thesis by (simp add: validate_skill_definition_def)
    qed
    with no show ?thesis by (metis Inl_Inr_False)
  qed
qed

text \<open>
  Validation accepts exactly the valid skills, and never panics: whatever the definition, it
  returns, and it returns success exactly for the skills of the supported version with at least one
  step, distinct ids and existing branch targets in which every way into an action is the success
  of the verification of that action's own target.
\<close>

theorem validate_skill_definition_exact:
  "\<exists>r. validate_skill_definition skill = Ret r \<and> (r = Inr () \<longleftrightarrow> valid_skill skill)"
  by (rule validation_decides)

section \<open>Actions are verified\<close>

text \<open>
  A runtime that checks the order itself: it remembers the target the last successful verification
  named, forgets it at every other step and when an action is done, and refuses an action on any
  other target. A failed action may be tried again.
\<close>

definition keeping :: "('r operation) \<Rightarrow> (OperationOutcome \<Rightarrow> string option \<Rightarrow> string option) \<Rightarrow> ('r \<times> string option) operation" where
  "keeping op next ctx st = (case st of (r, verified) \<Rightarrow>
     (let (outcome, ctx', r') = op ctx r in (outcome, ctx', (r', next outcome verified))))"

definition checked :: "ActStep \<Rightarrow> ('r operation) \<Rightarrow> (OperationOutcome \<Rightarrow> string option \<Rightarrow> string option) \<Rightarrow> ('r \<times> string option) operation" where
  "checked a op next ctx st =
     (if snd st = Some (ac_target a) then keeping op next ctx st
      else (Failure ''target not verified'', ctx, st))"

definition guard_runtime :: "'r skill_runtime \<Rightarrow> ('r \<times> string option) skill_runtime" where
  "guard_runtime rt = \<lparr>
     rt_locate = (\<lambda>d. keeping (rt_locate rt d) (\<lambda>_ _. None)),
     rt_verify = (\<lambda>d. keeping (rt_verify rt d) (\<lambda>outcome _. if outcome = Success then Some (ve_target d) else None)),
     rt_policy_check = (\<lambda>d. checked d (rt_policy_check rt d) (\<lambda>_ v. v)),
     rt_act = (\<lambda>d. checked d (rt_act rt d) (\<lambda>_ v. v)),
     rt_post_check = (\<lambda>d. checked d (rt_post_check rt d) (\<lambda>outcome v. if outcome = Success then None else v)),
     rt_wait = (\<lambda>d. keeping (rt_wait rt d) (\<lambda>_ _. None)),
     rt_extract = (\<lambda>d. keeping (rt_extract rt d) (\<lambda>_ _. None)),
     rt_handoff = (\<lambda>d. keeping (rt_handoff rt d) (\<lambda>_ _. None))\<rparr>"

definition with_verified :: "string option \<Rightarrow> 'r exec \<Rightarrow> ('r \<times> string option) exec" where
  "with_verified v s = \<lparr>ex_trace = ex_trace s, ex_ctx = ex_ctx s, ex_rt = (ex_rt s, v)\<rparr>"

definition may_act :: "SkillStep \<Rightarrow> string option \<Rightarrow> bool" where
  "may_act step v = (case step of Act a \<Rightarrow> v = Some (ac_target a) | _ \<Rightarrow> True)"

lemma call_keeping:
  assumes "call_operation step name op s = (outcome, s')"
  shows "call_operation step name (keeping op f) (with_verified v s) = (outcome, with_verified (f outcome v) s')"
  using assms by (auto simp: call_operation_def keeping_def with_verified_def split: prod.splits)

lemma call_checked:
  assumes "call_operation step name op s = (outcome, s')" "v = Some (ac_target a)"
  shows "call_operation step name (checked a op f) (with_verified v s) = (outcome, with_verified (f outcome v) s')"
  using assms by (auto simp: call_operation_def checked_def keeping_def with_verified_def split: prod.splits)

lemma execute_guarded:
  assumes "execute_step rt step s = (outcome, s')" "may_act step v"
  shows "\<exists>v'. execute_step (guard_runtime rt) step (with_verified v s) = (outcome, with_verified v' s') \<and>
    (case step of
       Verify d \<Rightarrow> outcome = Success \<longrightarrow> v' = Some (ve_target d)
     | Act a \<Rightarrow> \<forall>reason. outcome = Failure reason \<longrightarrow> v' = Some (ac_target a)
     | _ \<Rightarrow> True)"
proof (cases step)
  case (Act a)
  note call = call_checked [where a = a and v = "Some (ac_target a)"]
  have v: "v = Some (ac_target a)" using assms(2) Act by (simp add: may_act_def)
  obtain o1 s1 where p: "call_operation (Act a) ''policy_check'' (rt_policy_check rt a) s = (o1, s1)" by force
  obtain o2 s2 where q: "call_operation (Act a) ''act'' (rt_act rt a) s1 = (o2, s2)" by force
  obtain o3 s3 where r: "call_operation (Act a) ''post_check'' (rt_post_check rt a) s2 = (o3, s3)" by force
  show ?thesis using assms(1) Act
    by (cases o1; cases o2; cases o3) (auto simp: v guard_runtime_def p q r call [OF p] call [OF q] call [OF r])
next
  case (Handoff d)
  obtain o1 s1 where p: "call_operation (Handoff d) ''handoff'' (rt_handoff rt d) s = (o1, s1)" by force
  show ?thesis using assms(1) Handoff by (cases o1) (auto simp: guard_runtime_def p call_keeping [OF p])
next
  case (Verify d)
  then show ?thesis using call_keeping [of "Verify d" "''verify''" "rt_verify rt d" s outcome s' _ v] assms(1)
    by (intro exI [of _ "if outcome = Success then Some (ve_target d) else None"]) (simp add: guard_runtime_def)
next
  case (Locate d)
  then show ?thesis using call_keeping [of "Locate d" "''locate''" "rt_locate rt d" s outcome s' _ v] assms(1)
    by (intro exI [of _ None]) (simp add: guard_runtime_def)
next
  case (Wait d)
  then show ?thesis using call_keeping [of "Wait d" "''wait''" "rt_wait rt d" s outcome s' _ v] assms(1)
    by (intro exI [of _ None]) (simp add: guard_runtime_def)
next
  case (Extract d)
  then show ?thesis using call_keeping [of "Extract d" "''extract''" "rt_extract rt d" s outcome s' _ v] assms(1)
    by (intro exI [of _ None]) (simp add: guard_runtime_def)
qed

lemma after_outcome_next_edge:
  assumes "after_outcome (step_at skill) (steps skill ! lp_cursor l) l outcome s = Next l'"
    "lp_cursor l < length (steps skill)" "lp_cursor l' < length (steps skill)"
  shows "(outcome = Success \<and> skill_edge skill (Some (lp_cursor l)) TrSuccess (lp_cursor l')) \<or>
    (\<exists>reason. outcome = Failure reason \<and>
       (lp_cursor l' = lp_cursor l \<or> skill_edge skill (Some (lp_cursor l)) TrFailure (lp_cursor l')))"
proof (cases outcome)
  case Success
  have "\<not> is_handoff (steps skill ! lp_cursor l)"
    using assms(1) Success by (auto simp: after_outcome_def is_handoff_def Let_def split: SkillStep.splits)
  moreover have "case on_success (step_control (steps skill ! lp_cursor l)) of
      None \<Rightarrow> lp_cursor l' = Suc (lp_cursor l) | Some t \<Rightarrow> step_at skill t = Some (lp_cursor l')"
    using assms(1) Success
    by (auto simp: after_outcome_def Let_def jump_def split: SkillStep.splits option.splits)
  ultimately show ?thesis using assms(2,3) Success
    by (auto simp: skill_edge_simps split: option.splits)
next
  case (Failure reason)
  then show ?thesis using assms
    by (auto simp: after_outcome_def Let_def jump_def skill_edge_simps split: option.splits if_splits)
qed (use assms in \<open>simp add: after_outcome_def\<close>)

lemma next_may_act:
  assumes "valid_skill skill" "lp_cursor l < length (steps skill)" "lp_cursor l' < length (steps skill)"
    and "after_outcome (step_at skill) (steps skill ! lp_cursor l) l outcome s = Next l'"
    and "case steps skill ! lp_cursor l of
       Verify d \<Rightarrow> outcome = Success \<longrightarrow> v = Some (ve_target d)
     | Act a \<Rightarrow> \<forall>reason. outcome = Failure reason \<longrightarrow> v = Some (ac_target a)
     | _ \<Rightarrow> True"
  shows "may_act (steps skill ! lp_cursor l') v"
proof (cases "steps skill ! lp_cursor l'")
  case (Act a)
  have ok: "edge_ok skill source tr j" if "skill_edge skill source tr j" for source tr j
    using assms(1) that by (simp add: valid_skill_def)
  have no_fail: "\<not> skill_edge skill (Some (lp_cursor l)) TrFailure (lp_cursor l')"
    using ok Act by (force simp: edge_ok_def)
  from after_outcome_next_edge [OF assms(4,2,3)] show ?thesis
  proof (elim disjE exE conjE)
    assume "outcome = Success" "skill_edge skill (Some (lp_cursor l)) TrSuccess (lp_cursor l')"
    then show ?thesis using ok [of "Some (lp_cursor l)" TrSuccess "lp_cursor l'"] assms(5) Act
      by (auto simp: edge_ok_def verified_by_def may_act_def split: SkillStep.splits)
  qed (use no_fail assms(5) Act in \<open>auto simp: may_act_def\<close>)
qed (auto simp: may_act_def)

lemma report_guarded: "report status message (with_verified v s) = report status message s"
  by (simp add: report_def with_verified_def)

lemma after_outcome_guarded:
  "after_outcome index step l outcome (with_verified v s) = after_outcome index step l outcome s"
  unfolding after_outcome_def report_guarded by (rule refl)

lemma run_loop_guarded:
  assumes "valid_skill skill" "lp_cursor l < length (steps skill) \<Longrightarrow> may_act (steps skill ! lp_cursor l) v"
  shows "\<exists>v'. run_loop m skill (step_at skill) (guard_runtime rt) n l (with_verified v s) =
    (case run_loop m skill (step_at skill) rt n l s of (result, s') \<Rightarrow> (result, with_verified v' s'))"
  using assms(2)
proof (induction "m - n" arbitrary: n l s v rule: less_induct)
  case less
  show ?case
  proof (cases "lp_cursor l < length (steps skill) \<and> n < m")
    case False
    then show ?thesis by (subst (1 2) run_loop.simps) (auto simp: report_def with_verified_def)
  next
    case True
    obtain outcome s' where ex: "execute_step rt (steps skill ! lp_cursor l) s = (outcome, s')" by force
    from execute_guarded [OF ex less.prems] True obtain v' where
      gex: "execute_step (guard_runtime rt) (steps skill ! lp_cursor l) (with_verified v s) = (outcome, with_verified v' s')"
      and v': "case steps skill ! lp_cursor l of
         Verify d \<Rightarrow> outcome = Success \<longrightarrow> v' = Some (ve_target d)
       | Act a \<Rightarrow> \<forall>reason. outcome = Failure reason \<longrightarrow> v' = Some (ac_target a)
       | _ \<Rightarrow> True" by auto
    show ?thesis
    proof (cases "after_outcome (step_at skill) (steps skill ! lp_cursor l) l outcome s'")
      case (Stop result)
      then show ?thesis using True ex gex
        by (subst (1 2) run_loop.simps) (auto simp: after_outcome_guarded)
    next
      case (Next l')
      have "lp_cursor l' < length (steps skill) \<Longrightarrow> may_act (steps skill ! lp_cursor l') v'"
        using next_may_act [OF assms(1) _ _ Next v'] True by blast
      from less.hyps [of "Suc n" l' v' s', OF _ this] True obtain v'' where
        "run_loop m skill (step_at skill) (guard_runtime rt) (Suc n) l' (with_verified v' s') =
          (case run_loop m skill (step_at skill) rt (Suc n) l' s' of (result, s'') \<Rightarrow> (result, with_verified v'' s''))"
        by force
      then show ?thesis using True ex gex Next
        by (subst (1 2) run_loop.simps) (auto simp: after_outcome_guarded)
    qed
  qed
qed

lemma run_cases:
  obtains (invalid) e where "validate_skill_definition skill = Ret (Inl e)" "run m skill rt r = Ret (Inl e, r)"
    | (valid) "validate_skill_definition skill = Ret (Inr ())" "valid_skill skill" "run m skill rt r =
        Ret (map_prod id ex_rt (run_loop m skill (step_at skill) rt 0 \<lparr>lp_cursor = 0, lp_retries = Map.empty\<rparr> (start_exec r)))"
proof -
  obtain v where v: "validate_skill_definition skill = Ret v" "v = Inr () \<longleftrightarrow> valid_skill skill"
    by (metis (no_types) validation_decides)
  show ?thesis
  proof (cases v)
    case (Inl e)
    then show ?thesis using v by (intro invalid [of e]) (simp_all add: run_def)
  next
    case (Inr u)
    then have "valid_skill skill" using v by simp
    moreover from this have "build_step_index skill = Inr (step_at skill)"
      using build_step_index_cases [of skill] by (simp add: valid_skill_def)
    ultimately show ?thesis using v Inr by (intro valid) (simp_all add: run_def map_prod_def split: prod.splits)
  qed
qed

text \<open>
  C34: in every run of every skill, an action is taken only on a target that the step executed
  just before has successfully verified, or as another attempt of that same action. Stated with a
  runtime that refuses every other action: guarding the runtime changes nothing, so the check at
  run time is redundant, because validation has excluded every skill in which it could refuse.
\<close>

theorem actions_are_verified:
  "call_map (\<lambda>(result, (r', verified)). (result, r')) (run max_operations skill (guard_runtime rt) (r, None)) =
   run max_operations skill rt r"
proof -
  let ?l = "\<lparr>lp_cursor = 0, lp_retries = Map.empty\<rparr>"
  have start: "start_exec (r, None) = with_verified None (start_exec r)" by (simp add: start_exec_def with_verified_def)
  have v: "validate_skill_definition skill = Ret (Inr ()) \<longleftrightarrow> valid_skill skill"
    by (metis call.inject validation_decides)
  show ?thesis
  proof (cases "valid_skill skill")
    case True
    then have "may_act (steps skill ! 0) None"
      unfolding valid_skill_def using skill_edge.entry [of skill]
      by (fastforce simp: may_act_def edge_ok_def split: SkillStep.splits)
    with run_loop_guarded [OF True, of ?l None max_operations rt 0 "start_exec r"] obtain v' where
      "run_loop max_operations skill (step_at skill) (guard_runtime rt) 0 ?l (start_exec (r, None)) =
        (case run_loop max_operations skill (step_at skill) rt 0 ?l (start_exec r) of (result, s') \<Rightarrow> (result, with_verified v' s'))"
      unfolding start by auto
    moreover have "build_step_index skill = Inr (step_at skill)"
      using build_step_index_cases [of skill] True by (simp add: valid_skill_def)
    ultimately show ?thesis using True v by (simp add: run_def with_verified_def split: prod.splits)
  next
    case False
    obtain w where w: "validate_skill_definition skill = Ret w" "w = Inr () \<longleftrightarrow> valid_skill skill"
      using validation_decides by blast
    then show ?thesis using False by (cases w) (simp_all add: run_def)
  qed
qed

section \<open>Runs end\<close>

lemma length_execute_step:
  "execute_step rt step s = (outcome, s') \<Longrightarrow> length (ex_trace s') \<le> length (ex_trace s) + 3"
  by (cases step) (auto simp: call_operation_def split: prod.splits OperationOutcome.splits)

lemma targets_exist_jump:
  "valid_skill skill \<Longrightarrow> i < length (steps skill) \<Longrightarrow>
     on_success (step_control (steps skill ! i)) = Some t \<or> on_failure (step_control (steps skill ! i)) = Some t \<Longrightarrow>
     \<exists>j. jump (step_at skill) (steps skill ! i) t = Inr j \<and> j < length (steps skill)"
  unfolding valid_skill_def targets_exist_def jump_def
  by (metis (no_types, lifting) not_None_eq nth_mem option.simps(5) step_at_bound)

lemma after_outcome_stop:
  assumes "valid_skill skill" "lp_cursor l < length (steps skill)"
    and "after_outcome (step_at skill) (steps skill ! lp_cursor l) l outcome s = Stop result"
  shows "\<exists>status message. result = Inr (report status message s)"
  using assms(3) targets_exist_jump [OF assms(1,2)]
  by (fastforce simp: after_outcome_def Let_def split: OperationOutcome.splits SkillStep.splits option.splits sum.splits if_splits)

lemma run_loop_ends:
  assumes "valid_skill skill" "length (ex_trace s) \<le> 3 * n" "n \<le> m"
  shows "\<exists>result s'. run_loop m skill (step_at skill) rt n l s = (result, s') \<and> length (ex_trace s') \<le> 3 * m \<and>
    (result = Inl (OperationLimitExceeded m) \<or> (\<exists>status message. result = Inr (report status message s')))"
  using assms(2,3)
proof (induction "m - n" arbitrary: n l s rule: less_induct)
  case less
  show ?case
  proof (cases "lp_cursor l < length (steps skill) \<and> n < m")
    case False
    then show ?thesis using less.prems by (subst run_loop.simps) auto
  next
    case True
    obtain outcome s' where ex: "execute_step rt (steps skill ! lp_cursor l) s = (outcome, s')" by force
    have len: "length (ex_trace s') \<le> 3 * Suc n" using length_execute_step [OF ex] less.prems(1) by simp
    show ?thesis
    proof (cases "after_outcome (step_at skill) (steps skill ! lp_cursor l) l outcome s'")
      case (Stop result)
      from after_outcome_stop [OF assms(1) _ Stop] True len ex Stop show ?thesis
        by (subst run_loop.simps) auto
    next
      case (Next l')
      have "Suc n \<le> m" "m - Suc n < m - n" using True by auto
      from less.hyps [OF this(2) len this(1), of l'] True ex Next show ?thesis
        by (subst run_loop.simps) simp
    qed
  qed
qed

text \<open>
  C35: a run always ends, with at most the allowed number of operations. It never panics; it fails
  only with the error of validation (and then calls no operation of the runtime) or with the
  operation limit, never because a branch target is missing; its trace has at most three entries
  for each of the operations the limit allows.
\<close>

theorem run_ends:
  "\<exists>result r'. run max_operations skill rt r = Ret (result, r') \<and>
    (case result of
       Inr rep \<Rightarrow> length (rp_trace rep) \<le> 3 * max_operations \<and> valid_skill skill
     | Inl e \<Rightarrow> (validate_skill_definition skill = Ret (Inl e) \<and> r' = r) \<or>
               (valid_skill skill \<and> e = OperationLimitExceeded max_operations))"
proof (cases rule: run_cases [of skill max_operations rt r])
  case (invalid e)
  then show ?thesis by simp
next
  case valid
  from run_loop_ends [OF valid(2), of "start_exec r" 0 max_operations rt "\<lparr>lp_cursor = 0, lp_retries = Map.empty\<rparr>"]
  show ?thesis using valid by (auto simp: start_exec_def report_def)
qed

section \<open>Retries\<close>

text \<open>
  The states the loop reaches, with the steps it executed and their outcomes.
\<close>

inductive reached :: "SkillDefinition \<Rightarrow> 'r skill_runtime \<Rightarrow> 'r \<Rightarrow> (nat \<times> OperationOutcome) list \<Rightarrow> loop_state \<Rightarrow> 'r exec \<Rightarrow> bool"
  for skill rt r where
  start: "reached skill rt r [] \<lparr>lp_cursor = 0, lp_retries = Map.empty\<rparr> (start_exec r)"
| turn: "reached skill rt r visits l s \<Longrightarrow> lp_cursor l < length (steps skill) \<Longrightarrow>
    execute_step rt (steps skill ! lp_cursor l) s = (outcome, s') \<Longrightarrow>
    after_outcome (step_at skill) (steps skill ! lp_cursor l) l outcome s' = Next l' \<Longrightarrow>
    reached skill rt r (visits @ [(lp_cursor l, outcome)]) l' s'"

definition is_failure :: "OperationOutcome \<Rightarrow> bool" where
  "is_failure outcome = (case outcome of Failure _ \<Rightarrow> True | _ \<Rightarrow> False)"

text \<open>The failures of a step since it last succeeded.\<close>

definition failures_of :: "nat \<Rightarrow> (nat \<times> OperationOutcome) list \<Rightarrow> nat" where
  "failures_of i visits = foldl (\<lambda>n (j, outcome). if j \<noteq> i then n else if is_failure outcome then Suc n else 0) 0 visits"

lemma failures_of_snoc [simp]:
  "failures_of i [] = 0"
  "failures_of i (visits @ [(j, outcome)]) =
     (if j \<noteq> i then failures_of i visits else if is_failure outcome then Suc (failures_of i visits) else 0)"
  by (simp_all add: failures_of_def)

definition attempts_of :: "nat \<Rightarrow> loop_state \<Rightarrow> u32" where
  "attempts_of i l = (case lp_retries l i of None \<Rightarrow> 0 | Some n \<Rightarrow> n)"

lemma after_outcome_attempts:
  assumes "after_outcome index step l outcome s = Next l'"
  shows "i \<noteq> lp_cursor l \<Longrightarrow> attempts_of i l' = attempts_of i l"
    and "attempts_of (lp_cursor l) l' =
      (if \<not> is_failure outcome then 0
       else if attempts_of (lp_cursor l) l < max_retries (step_control step) then attempts_of (lp_cursor l) l + 1
       else attempts_of (lp_cursor l) l)"
    and "is_failure outcome \<Longrightarrow> \<not> attempts_of (lp_cursor l) l < max_retries (step_control step) \<Longrightarrow>
      on_failure (step_control step) \<noteq> None"
  using assms
  by (auto simp: after_outcome_def attempts_of_def is_failure_def Let_def
      split: OperationOutcome.splits option.splits sum.splits SkillStep.splits if_splits)

lemma unat_inc: "n < m \<Longrightarrow> unat (n + 1) = Suc (unat n)" for n m :: u32
  using unsigned_less [of m, where ?'a = nat] by (simp add: word_less_nat_alt unat_word_ariths)

lemma attempts_count_failures:
  assumes "reached skill rt r visits l s"
  shows "unat (attempts_of i l) \<le> unat (max_retries (step_control (steps skill ! i))) \<and>
    unat (attempts_of i l) \<le> failures_of i visits \<and>
    (on_failure (step_control (steps skill ! i)) = None \<longrightarrow> unat (attempts_of i l) = failures_of i visits)"
  using assms
proof (induction rule: reached.induct)
  case start
  then show ?case by (simp add: attempts_of_def)
next
  case (turn visits l s outcome s' l')
  note a = after_outcome_attempts [OF turn.hyps(4)]
  show ?case
  proof (cases "i = lp_cursor l")
    case False
    then show ?thesis using turn.IH a(1) [OF False] by simp
  next
    case True
    let ?n = "attempts_of (lp_cursor l) l" and ?max = "max_retries (step_control (steps skill ! lp_cursor l))"
    have "?n < ?max \<Longrightarrow> unat (?n + 1) = Suc (unat ?n)" by (rule unat_inc)
    then show ?thesis using turn.IH a(2,3) True by (auto simp: word_less_nat_alt)
  qed
qed


text \<open>A skill that looks for a button which fails once, and gives up at the second failure.\<close>

definition retrying_skill :: SkillDefinition where
  "retrying_skill = \<lparr>schema_version = 1, sk_name = ''find'', steps =
     [Locate \<lparr>lo_id = Some ''find'', lo_query = ''id:5'', lo_control = default_control\<lparr>max_retries := 1\<rparr>\<rparr>]\<rparr>"

definition failing_runtime :: "unit skill_runtime" where
  "failing_runtime = default_runtime\<lparr>rt_locate := (\<lambda>_. op_const (Failure ''not there''))\<rparr>"


end
