(* ===== verification/Skill_Runtime.thy ===== *)
theory Skill_Runtime
  imports Mcp_Convert Skills
begin

text \<open>
  The runtime of skills over a page (\<open>mcp-server/src/skill_runtime.rs\<close>) and the handling of values a page
  script returns (\<open>extract.rs\<close>). The templates of a step are resolved against the parameters of the call and
  against values extracted from pages; the latter are untrusted and may only become data. The calls on the
  page return what \<open>skill_page\<close> gives for the number of the call.
\<close>

section \<open>Values from page scripts\<close>

text \<open>The prompt-injection sanitizer, the redaction of personal data and the debug form of a string.\<close>

record sanitizer =
  sn_json :: "Json \<Rightarrow> Json \<times> string list"
  sn_redact :: "Json \<Rightarrow> Json"
  sn_redact_text :: "string \<Rightarrow> string"
  sn_debug :: "string \<Rightarrow> string"

definition EXTRACT_ERROR_MESSAGE_MAX_CHARS :: nat where
  "EXTRACT_ERROR_MESSAGE_MAX_CHARS = 300"

definition unwrap_extraction_envelope :: "Json \<Rightarrow> string + Json" where
  "unwrap_extraction_envelope envelope =
     (case Option.bind (json_get ''ok'' envelope) as_bool of
        Some True \<Rightarrow> Inr (case json_get ''value'' envelope of Some v \<Rightarrow> v | None \<Rightarrow> JNull)
      | Some False \<Rightarrow> Inl (case Option.bind (json_get ''error'' envelope) as_str of
                             Some e \<Rightarrow> e | None \<Rightarrow> ''unknown JavaScript error'')
      | None \<Rightarrow> Inl ''extraction script returned an unexpected shape'')"

definition safe_script_error_message :: "sanitizer \<Rightarrow> string \<Rightarrow> string" where
  "safe_script_error_message env raw =
     (let capped = take_chars EXTRACT_ERROR_MESSAGE_MAX_CHARS raw;
          (message, flags) = sn_json env (JString capped)
      in if flags \<noteq> [] then ''message withheld: flagged by the prompt-injection sanitizer''
         else (case as_str (sn_redact env message) of Some s \<Rightarrow> s | None \<Rightarrow> []))"

definition sanitize_extraction_errors ::
  "sanitizer \<Rightarrow> (string \<times> Json) list \<Rightarrow> (string \<times> Json) list \<times> string list" where
  "sanitize_extraction_errors env errors =
     (let strings = filter (\<lambda>(_, v). as_str v \<noteq> None) errors;
          (sanitized, flags) = sn_json env (JObject strings)
      in case sn_redact env sanitized of
           JObject members \<Rightarrow> (members, flags)
         | _ \<Rightarrow> ([], flags))"

definition extraction_result_has_gaps :: "Json \<Rightarrow> bool" where
  "extraction_result_has_gaps v =
     (case v of
        JNull \<Rightarrow> True
      | JArray rows \<Rightarrow>
          rows = [] \<or> list_ex (\<lambda>row. case row of JObject members \<Rightarrow> list_ex (\<lambda>(_, x). x = JNull) members | _ \<Rightarrow> False) rows
      | _ \<Rightarrow> False)"

definition unwrap_skill_extraction_envelope :: "Json \<Rightarrow> string + Json" where
  "unwrap_skill_extraction_envelope envelope =
     (let invalid_shape = ''skill extraction script returned an unexpected shape''
      in case envelope of
           JObject _ \<Rightarrow>
             (case Option.bind (json_get ''ok'' envelope) as_bool of
                Some True \<Rightarrow>
                  (case json_get ''value'' envelope of
                     Some v \<Rightarrow> if as_str v \<noteq> None \<or> v = JNull then Inr v else Inl invalid_shape
                   | None \<Rightarrow> Inl invalid_shape)
              | Some False \<Rightarrow> Inl (case Option.bind (json_get ''error'' envelope) as_str of
                                     Some e \<Rightarrow> e | None \<Rightarrow> invalid_shape)
              | None \<Rightarrow> Inl invalid_shape)
         | _ \<Rightarrow> Inl invalid_shape)"

section \<open>Templates\<close>

datatype TemplateSlot = DataSlot | ControlSlot

definition strip_suffix :: "string \<Rightarrow> string \<Rightarrow> string option" where
  "strip_suffix s p = (if ends_with s p then Some (take (length s - length p) s) else None)"

text \<open>A number prints as its text.\<close>

definition resolve_scalar :: "Json option \<Rightarrow> string option" where
  "resolve_scalar v =
     (case v of
        Some (JString s) \<Rightarrow> Some s
      | Some (JNumber n) \<Rightarrow> Some n
      | Some (JBool b) \<Rightarrow> Some (if b then ''true'' else ''false'')
      | _ \<Rightarrow> None)"

definition em_dash :: string where
  "em_dash = '' '' @ [CHR 0xE2, CHR 0x80, CHR 0x94] @ '' ''"

definition resolve_template ::
  "string \<Rightarrow> Json \<Rightarrow> SkillExecutionContext \<Rightarrow> TemplateSlot \<Rightarrow> string + string" where
  "resolve_template template params ctx slot =
     (case map_option trim (Option.bind (strip_prefix (trim template) ''{{'') (\<lambda>rest. strip_suffix rest ''}}'')) of
        None \<Rightarrow> Inr template
      | Some inner \<Rightarrow>
          (case map_option trim (strip_prefix inner ''params.'') of
             Some key \<Rightarrow>
               (case resolve_scalar (json_get key params) of
                  Some v \<Rightarrow> Inr v
                | None \<Rightarrow> Inl (''skill template references undefined params.'' @ key))
           | None \<Rightarrow>
               (case map_option trim (strip_prefix inner ''extracted.'') of
                  Some key \<Rightarrow>
                    (case slot of
                       ControlSlot \<Rightarrow> Inl (''template {{extracted.'' @ key @ ''}} is not allowed here'' @ em_dash @
                         ''this field selects an action/target/selector and must not be derived from extracted page content'')
                     | DataSlot \<Rightarrow>
                         (case resolve_scalar (map_of (extracted ctx) key) of
                            Some v \<Rightarrow> Inr v
                          | None \<Rightarrow> Inl (''skill template references undefined or non-scalar extracted.'' @ key @ em_dash @
                               ''either no prior extract step produced this key, it runs later in execution order, or the '' @
                               ''extraction found no matching element (stored as null)'')))
                | None \<Rightarrow>
                    Inr (case resolve_scalar (json_get inner params) of Some v \<Rightarrow> v | None \<Rightarrow> template))))"

section \<open>The runtime\<close>

text \<open>The calls that select an element, choose an action or run a script, with whether an action succeeded.\<close>

datatype skill_call =
    CalledVerify int "string option" string
  | CalledAct "int option" "string option" string "string option" bool
  | CalledScript string

record skill_page =
  sg_capture :: "nat \<Rightarrow> string + SemanticState"
  sg_lookup :: "nat \<Rightarrow> string \<Rightarrow> int option"
  sg_verify_text :: "nat \<Rightarrow> int \<Rightarrow> string option \<Rightarrow> string \<Rightarrow> string + unit"
  sg_act :: "nat \<Rightarrow> int option \<Rightarrow> string option \<Rightarrow> string \<Rightarrow> string option \<Rightarrow> string + unit"
  sg_wait_for_intent :: "nat \<Rightarrow> string \<Rightarrow> u64 \<Rightarrow> string + unit"
  sg_wait_for_semantic :: "nat \<Rightarrow> SemanticTarget \<Rightarrow> SemanticWaitState \<Rightarrow> u64 \<Rightarrow> string + unit"
  sg_evaluate_json :: "nat \<Rightarrow> string \<Rightarrow> string + Json"
  sg_json_string :: "string \<Rightarrow> string"
  sg_sanitizer :: sanitizer

record page_runtime =
  pr_actions_executed :: u64
  pr_visual_captures :: u64
  pr_hitl_events :: u64
  pr_security_flags :: "string list"
  pr_tick :: nat
  pr_calls :: "skill_call list"

record SkillUsageDelta =
  ud_actions_executed :: u64
  ud_visual_captures :: u64
  ud_hitl_events :: u64

definition new_page_runtime :: page_runtime where
  "new_page_runtime = \<lparr>pr_actions_executed = 0, pr_visual_captures = 0, pr_hitl_events = 0,
     pr_security_flags = [], pr_tick = 0, pr_calls = []\<rparr>"

definition into_usage_delta :: "page_runtime \<Rightarrow> SkillUsageDelta" where
  "into_usage_delta r = \<lparr>ud_actions_executed = pr_actions_executed r, ud_visual_captures = pr_visual_captures r,
     ud_hitl_events = pr_hitl_events r\<rparr>"

definition outcome_of :: "string + unit \<Rightarrow> OperationOutcome" where
  "outcome_of r = (case r of Inl reason \<Rightarrow> Failure reason | Inr _ \<Rightarrow> Success)"

text \<open>The macro \<open>resolve_or_fail\<close>.\<close>

definition resolve_or_fail :: "string \<Rightarrow> Json \<Rightarrow> TemplateSlot \<Rightarrow> (string \<Rightarrow> page_runtime operation) \<Rightarrow> page_runtime operation" where
  "resolve_or_fail template params slot k ctx r =
     (case resolve_template template params ctx slot of Inl reason \<Rightarrow> (Failure reason, ctx, r) | Inr v \<Rightarrow> k v ctx r)"

text \<open>One call on the page; a call that is noted enters the log.\<close>

definition page_tick :: "(nat \<Rightarrow> 'a) \<Rightarrow> page_runtime \<Rightarrow> 'a \<times> page_runtime" where
  "page_tick f r = (f (pr_tick r), r\<lparr>pr_tick := Suc (pr_tick r)\<rparr>)"

definition note_call :: "skill_call \<Rightarrow> page_runtime \<Rightarrow> page_runtime" where
  "note_call c r = r\<lparr>pr_calls := pr_calls r @ [c]\<rparr>"

text \<open>\<open>capture_semantic_state\<close> and the lookup of a stable key in the refreshed index.\<close>

definition refreshed_lookup :: "skill_page \<Rightarrow> string \<Rightarrow> page_runtime \<Rightarrow> (string + int) \<times> page_runtime" where
  "refreshed_lookup page key r =
     (let (captured, r1) = page_tick (sg_capture page) r
      in case captured of
           Inl e \<Rightarrow> (Inl e, r1)
         | Inr _ \<Rightarrow>
             (let (found, r2) = page_tick (\<lambda>n. sg_lookup page n key) r1
              in case found of
                   None \<Rightarrow> (Inl (''element stable_key:'' @ key @ '' not found''), r2)
                 | Some i \<Rightarrow> (Inr i, r2)))"

definition skill_locate :: "skill_page \<Rightarrow> Json \<Rightarrow> LocateStep \<Rightarrow> page_runtime operation" where
  "skill_locate page params step =
     resolve_or_fail (lo_query step) params ControlSlot (\<lambda>query ctx r.
       case parse_target_id query of
         Some i \<Rightarrow>
           (let (captured, r1) = page_tick (sg_capture page) r
            in (case captured of
                  Inl e \<Rightarrow> Failure e
                | Inr state \<Rightarrow>
                    if node_exists_by_id (ss_root state) i then Success
                    else Failure (''element id:'' @ show_int i @ '' not found in current state''), ctx, r1))
       | None \<Rightarrow>
           (case parse_target_stable_key query of
              Some key \<Rightarrow>
                (let (found, r1) = refreshed_lookup page key r
                 in (case found of Inl e \<Rightarrow> Failure e | Inr _ \<Rightarrow> Success, ctx, r1))
            | None \<Rightarrow> (Failure (''unrecognised locate query '' @ sn_debug (sg_sanitizer page) query @
                         ''; expected id:<N> or stable_key:<key>''), ctx, r)))"

definition verify_call :: "skill_page \<Rightarrow> int \<Rightarrow> string option \<Rightarrow> string \<Rightarrow> page_runtime operation" where
  "verify_call page i key expected ctx r =
     (let (matched, r1) = page_tick (\<lambda>n. sg_verify_text page n i key expected) (note_call (CalledVerify i key expected) r)
      in (outcome_of matched, ctx, r1))"

definition skill_verify :: "skill_page \<Rightarrow> Json \<Rightarrow> VerifyStep \<Rightarrow> page_runtime operation" where
  "skill_verify page params step =
     resolve_or_fail (ve_target step) params ControlSlot (\<lambda>target.
     resolve_or_fail (ve_expected step) params DataSlot (\<lambda>expected ctx r.
       case parse_target_id target of
         Some i \<Rightarrow> verify_call page i (parse_target_stable_key target) expected ctx r
       | None \<Rightarrow>
           (case parse_target_stable_key target of
              Some key \<Rightarrow>
                (let (found, r1) = refreshed_lookup page key r
                 in case found of
                      Inl e \<Rightarrow> (Failure e, ctx, r1)
                    | Inr i \<Rightarrow> verify_call page i (Some key) expected ctx r1)
            | None \<Rightarrow> (Failure (''unrecognised verify target '' @ sn_debug (sg_sanitizer page) target @
                         ''; expected id:<N> or stable_key:<key>''), ctx, r))))"

definition act_call ::
  "skill_page \<Rightarrow> string \<Rightarrow> string \<Rightarrow> string option \<Rightarrow> page_runtime operation" where
  "act_call page target action v ctx r =
     (let target_id = parse_target_id target; target_stable_key = parse_target_stable_key target;
          (acted, r1) = page_tick (\<lambda>n. sg_act page n target_id target_stable_key action v) r;
          done_ok = (case acted of Inr _ \<Rightarrow> True | Inl _ \<Rightarrow> False);
          r2 = note_call (CalledAct target_id target_stable_key action v done_ok) r1
      in (outcome_of acted, ctx,
          if done_ok then r2\<lparr>pr_actions_executed := pr_actions_executed r2 + 1\<rparr> else r2))"

definition skill_act :: "skill_page \<Rightarrow> Json \<Rightarrow> ActStep \<Rightarrow> page_runtime operation" where
  "skill_act page params step =
     resolve_or_fail (ac_target step) params ControlSlot (\<lambda>target.
     resolve_or_fail (ac_action step) params ControlSlot (\<lambda>action.
       case ac_value step of
         Some raw \<Rightarrow> resolve_or_fail raw params DataSlot (\<lambda>v. act_call page target action (Some v))
       | None \<Rightarrow> act_call page target action None))"

definition skill_wait :: "skill_page \<Rightarrow> Json \<Rightarrow> WaitStep \<Rightarrow> page_runtime operation" where
  "skill_wait page params step =
     resolve_or_fail (wa_condition step) params ControlSlot (\<lambda>condition ctx r.
       case strip_prefix condition ''intent:'' of
         Some intent \<Rightarrow>
           (let (waited, r1) = page_tick (\<lambda>n. sg_wait_for_intent page n (trim intent) (wa_timeout_ms step)) r
            in (outcome_of waited, ctx, r1))
       | None \<Rightarrow>
           (case parse_semantic_wait_condition condition of
              Some (target, desired_state) \<Rightarrow>
                (let (waited, r1) = page_tick (\<lambda>n. sg_wait_for_semantic page n target desired_state (wa_timeout_ms step)) r
                 in (outcome_of waited, ctx, r1))
            | None \<Rightarrow> (Failure (''unrecognised wait condition '' @ sn_debug (sg_sanitizer page) condition @
                         ''; expected intent:<text> or id:<N>:enabled''), ctx, r)))"

definition quotes :: string where
  "quotes = [CHR 0x27, CHR 0x27]"

definition extraction_script :: "skill_page \<Rightarrow> string \<Rightarrow> string" where
  "extraction_script page selector =
     ''(() => { try { const el = document.querySelector('' @ sg_json_string page selector @
     ''); const value = el ? (el.innerText || el.textContent || '' @ quotes @
     '').trim() : null; return { ok: true, value }; } catch (error) { return { ok: false, error: String(error && error.message || error) }; } })()''"

definition skill_extract :: "skill_page \<Rightarrow> Json \<Rightarrow> ExtractStep \<Rightarrow> page_runtime operation" where
  "skill_extract page params step =
     resolve_or_fail (ex_selector step) params ControlSlot (\<lambda>selector ctx r.
       let script = extraction_script page selector;
           (evaluated, r1) = page_tick (\<lambda>n. sg_evaluate_json page n script) (note_call (CalledScript script) r)
       in case evaluated of
            Inl _ \<Rightarrow> (Failure ''ScriptEvalError: skill extraction script evaluation failed'', ctx, r1)
          | Inr envelope \<Rightarrow>
              (case unwrap_skill_extraction_envelope envelope of
                 Inl reason \<Rightarrow>
                   (Failure (''ScriptEvalError: '' @ safe_script_error_message (sg_sanitizer page) reason), ctx, r1)
               | Inr raw \<Rightarrow>
                   (let (sanitized, flags) = sn_json (sg_sanitizer page) raw
                    in (Success, ctx\<lparr>extracted := AList.update (ex_key step) sanitized (extracted ctx)\<rparr>,
                        r1\<lparr>pr_security_flags := pr_security_flags r1 @ flags\<rparr>))))"

definition page_skill_runtime :: "skill_page \<Rightarrow> Json \<Rightarrow> page_runtime skill_runtime" where
  "page_skill_runtime page params = default_runtime
     \<lparr>rt_locate := skill_locate page params, rt_verify := skill_verify page params, rt_act := skill_act page params,
      rt_wait := skill_wait page params, rt_extract := skill_extract page params\<rparr>"

section \<open>The tool\<close>

record SkillResponse =
  kr_status :: string
  kr_message :: "string option"
  kr_outputs :: "(string \<times> Json) list"
  kr_security_flags :: "string list"
  kr_trace :: "OperationTrace list"

datatype skill_result =
    SkillNotFound string
  | SkillFailed SkillEngineError
  | SkillRan SkillResponse

fun skill_run_status_name :: "SkillRunStatus \<Rightarrow> string" where
  "skill_run_status_name RunCompleted = ''completed''"
| "skill_run_status_name RunFailed = ''failed''"
| "skill_run_status_name RunHandoff = ''handoff''"

definition skill_response :: "sanitizer \<Rightarrow> SkillRunReport \<Rightarrow> string list \<Rightarrow> SkillResponse" where
  "skill_response env rep flags = \<lparr>
     kr_status = skill_run_status_name (rp_status rep),
     kr_message = map_option (sn_redact_text env) (rp_message rep),
     kr_outputs = map (\<lambda>(k, v). (k, sn_redact env v)) (rp_outputs rep),
     kr_security_flags = flags,
     kr_trace = rp_trace rep\<rparr>"

text \<open>
  The result, and the usage of the run, which the backend keeps for the metering whether the run
  failed or not. An unknown skill leaves the usage of the run before it.
\<close>

definition run_skill ::
  "skill_page \<Rightarrow> nat \<Rightarrow> (string \<times> SkillDefinition) list \<Rightarrow> string \<Rightarrow> Json \<Rightarrow> (skill_result \<times> SkillUsageDelta option) call" where
  "run_skill page limit skills skill_name params =
     (case map_of skills skill_name of
        None \<Rightarrow> Ret (SkillNotFound skill_name, None)
      | Some skill \<Rightarrow>
          call_map (\<lambda>(result, r).
              (case result of
                 Inl e \<Rightarrow> SkillFailed e
               | Inr rep \<Rightarrow> SkillRan (skill_response (sg_sanitizer page) rep (pr_security_flags r)),
               Some (into_usage_delta r)))
            (run limit skill (page_skill_runtime page params) new_page_runtime))"

section \<open>Invariants of a run\<close>

definition op_keeps :: "(SkillExecutionContext \<Rightarrow> 'r \<Rightarrow> bool) \<Rightarrow> 'r operation \<Rightarrow> bool" where
  "op_keeps I oper \<longleftrightarrow> (\<forall>ctx r. I ctx r \<longrightarrow> I (fst (snd (oper ctx r))) (snd (snd (oper ctx r))))"

fun step_keeps :: "(SkillExecutionContext \<Rightarrow> 'r \<Rightarrow> bool) \<Rightarrow> 'r skill_runtime \<Rightarrow> SkillStep \<Rightarrow> bool" where
  "step_keeps I rt (Locate d) = op_keeps I (rt_locate rt d)"
| "step_keeps I rt (Verify d) = op_keeps I (rt_verify rt d)"
| "step_keeps I rt (Act d) = (op_keeps I (rt_policy_check rt d) \<and> op_keeps I (rt_act rt d) \<and> op_keeps I (rt_post_check rt d))"
| "step_keeps I rt (Wait d) = op_keeps I (rt_wait rt d)"
| "step_keeps I rt (Extract d) = op_keeps I (rt_extract rt d)"
| "step_keeps I rt (Handoff d) = op_keeps I (rt_handoff rt d)"

abbreviation on_exec :: "(SkillExecutionContext \<Rightarrow> 'r \<Rightarrow> bool) \<Rightarrow> 'r exec \<Rightarrow> bool" where
  "on_exec I s \<equiv> I (ex_ctx s) (ex_rt s)"

lemma op_keeps_const [simp]: "op_keeps I (op_const out)"
  by (simp add: op_keeps_def op_const_def)

lemma call_operation_keeps:
  "op_keeps I oper \<Longrightarrow> on_exec I s \<Longrightarrow> call_operation step name oper s = (out, s') \<Longrightarrow> on_exec I s'"
  by (auto simp: op_keeps_def call_operation_def split: prod.splits) (metis fst_conv snd_conv)

lemma execute_step_keeps:
  assumes "step_keeps I rt step" "on_exec I s" "execute_step rt step s = (out, s')"
  shows "on_exec I s'"
  using assms
  by (cases step) (auto split: prod.splits OperationOutcome.splits
      elim: call_operation_keeps [rotated 2] dest: call_operation_keeps [rotated 2])

text \<open>A property that every turn of the loop takes from \<open>n\<close> to \<open>n + 1\<close> operations.\<close>

lemma run_loop_counted:
  assumes "\<And>step n s out s'. step \<in> set (steps skill) \<Longrightarrow> J n s \<Longrightarrow> execute_step rt step s = (out, s') \<Longrightarrow> J (Suc n) s'"
  shows "J n s \<Longrightarrow> n \<le> limit \<Longrightarrow> \<exists>m\<le>limit. J m (snd (run_loop limit skill index rt n l s))"
proof (induction "limit - n" arbitrary: n l s rule: less_induct)
  case less
  show ?case
  proof (cases "lp_cursor l < length (steps skill) \<and> n < limit")
    case False
    then show ?thesis using less.prems by (subst run_loop.simps) auto
  next
    case True
    obtain out s' where ex: "execute_step rt (steps skill ! lp_cursor l) s = (out, s')" by force
    have J': "J (Suc n) s'" using assms [OF _ less.prems(1) ex] True by simp
    show ?thesis
    proof (cases "after_outcome index (steps skill ! lp_cursor l) l out s'")
      case (Stop result)
      with True ex J' show ?thesis by (subst run_loop.simps) (auto intro: exI [of _ "Suc n"])
    next
      case (Next l')
      have "limit - Suc n < limit - n" using True by auto
      from less.hyps [OF this J', of l'] True ex Next show ?thesis by (subst run_loop.simps) simp
    qed
  qed
qed

lemma run_loop_outputs:
  "run_loop limit skill index rt n l s = (Inr rep, s') \<Longrightarrow> rp_outputs rep = extracted (ex_ctx s')"
proof (induction "limit - n" arbitrary: n l s rule: less_induct)
  case less
  show ?case
  proof (cases "lp_cursor l < length (steps skill) \<and> n < limit")
    case False
    then show ?thesis using less.prems by (subst (asm) run_loop.simps) (auto simp: report_def split: if_splits)
  next
    case True
    obtain out s1 where ex: "execute_step rt (steps skill ! lp_cursor l) s = (out, s1)" by force
    show ?thesis
    proof (cases "after_outcome index (steps skill ! lp_cursor l) l out s1")
      case (Stop result)
      then have "result = Inr rep" "s1 = s'" using True ex less.prems by (auto simp: run_loop.simps [of limit skill index rt n l s])
      with Stop show ?thesis
        by (auto simp: after_outcome_def Let_def report_def split: OperationOutcome.splits SkillStep.splits option.splits sum.splits if_splits)
    next
      case (Next l')
      then have "run_loop limit skill index rt (n + 1) l' s1 = (Inr rep, s')"
        using True ex less.prems by (simp add: run_loop.simps [of limit skill index rt n l s])
      moreover have "limit - (n + 1) < limit - n" using True by auto
      ultimately show ?thesis by (intro less.hyps) blast+
    qed
  qed
qed

text \<open>What the end of a run has: the invariant of its operations, and the values that were extracted as the outputs.\<close>

lemma run_keeps:
  assumes "\<And>step. step \<in> set (steps skill) \<Longrightarrow> step_keeps I rt step"
    and "I \<lparr>extracted = []\<rparr> r" "run limit skill rt r = Ret (res, r')"
  shows "\<exists>ctx. I ctx r' \<and> (\<forall>rep. res = Inr rep \<longrightarrow> rp_outputs rep = extracted ctx)"
proof (cases rule: run_cases [of skill limit rt r])
  case invalid
  with assms(2,3) show ?thesis by (intro exI [of _ "\<lparr>extracted = []\<rparr>"]) auto
next
  case valid
  let ?run = "run_loop limit skill (step_at skill) rt 0 \<lparr>lp_cursor = 0, lp_retries = Map.empty\<rparr> (start_exec r)"
  have start: "on_exec I (start_exec r)" using assms(2) by (simp add: start_exec_def)
  have "\<exists>m\<le>limit. on_exec I (snd ?run)"
    by (rule run_loop_counted [where J = "\<lambda>_. on_exec I", OF execute_step_keeps [OF assms(1)] start]) auto
  with valid assms(3) show ?thesis
    by (intro exI [of _ "ex_ctx (snd ?run)"]) (auto simp: prod_eq_iff intro!: run_loop_outputs)
qed

section \<open>Page content is only data\<close>

text \<open>Extracted values have passed the sanitizer: texts, and null for an element that was not found.\<close>

definition sanitized_values :: "skill_page \<Rightarrow> SkillExecutionContext \<Rightarrow> bool" where
  "sanitized_values page ctx \<longleftrightarrow>
     (\<forall>(k, v) \<in> set (extracted ctx). \<exists>raw. (raw = JNull \<or> (\<exists>s. raw = JString s)) \<and> v = fst (sn_json (sg_sanitizer page) raw))"

definition from_params :: "Json \<Rightarrow> string \<Rightarrow> string \<Rightarrow> bool" where
  "from_params params template v \<longleftrightarrow> resolve_template template params \<lparr>extracted = []\<rparr> ControlSlot = Inr v"

definition from_data :: "skill_page \<Rightarrow> Json \<Rightarrow> string \<Rightarrow> string \<Rightarrow> bool" where
  "from_data page params template v \<longleftrightarrow>
     (\<exists>ctx. sanitized_values page ctx \<and> resolve_template template params ctx DataSlot = Inr v)"

text \<open>The calls that the steps of a skill, its parameters and nothing else allow.\<close>

fun written_in :: "skill_page \<Rightarrow> Json \<Rightarrow> SkillStep list \<Rightarrow> skill_call \<Rightarrow> bool" where
  "written_in page params ss (CalledAct i key action v _) \<longleftrightarrow>
     (\<exists>st target. Act st \<in> set ss \<and> from_params params (ac_target st) target \<and>
        i = parse_target_id target \<and> key = parse_target_stable_key target \<and>
        from_params params (ac_action st) action \<and> rel_option (from_data page params) (ac_value st) v)"
| "written_in page params ss (CalledVerify i key expected) \<longleftrightarrow>
     (\<exists>st target. Verify st \<in> set ss \<and> from_params params (ve_target st) target \<and>
        key = parse_target_stable_key target \<and> (parse_target_id target = Some i \<or> parse_target_id target = None \<and> key \<noteq> None) \<and>
        from_data page params (ve_expected st) expected)"
| "written_in page params ss (CalledScript script) \<longleftrightarrow>
     (\<exists>st selector. Extract st \<in> set ss \<and> from_params params (ex_selector st) selector \<and>
        script = extraction_script page selector)"

fun acted_ok :: "skill_call \<Rightarrow> bool" where
  "acted_ok (CalledAct i key action v succeeded) = succeeded"
| "acted_ok _ = False"

definition run_ok :: "skill_page \<Rightarrow> Json \<Rightarrow> SkillStep list \<Rightarrow> SkillExecutionContext \<Rightarrow> skill_call list \<Rightarrow> u64 \<Rightarrow> bool" where
  "run_ok page params ss ctx calls n \<longleftrightarrow> sanitized_values page ctx \<and> (\<forall>c \<in> set calls. written_in page params ss c) \<and>
     n = of_nat (length (filter acted_ok calls))"

declare written_in.simps [simp del]

lemma control_ignores_extracted:
  "resolve_template template params ctx ControlSlot = Inr v \<longleftrightarrow> from_params params template v"
  by (auto simp: from_params_def resolve_template_def split: option.split)

lemma keeps_resolve:
  assumes "\<And>v ctx r. resolve_template template params ctx slot = Inr v \<Longrightarrow> I ctx r \<Longrightarrow> op_keeps I (k v)"
  shows "op_keeps I (resolve_or_fail template params slot k)"
  using assms by (auto simp: op_keeps_def resolve_or_fail_def split: sum.split)

lemma keeps_op:
  assumes "\<And>ctx r out ctx' r'. I ctx r \<Longrightarrow> oper ctx r = (out, ctx', r') \<Longrightarrow> I ctx' r'"
  shows "op_keeps I oper"
  using assms unfolding op_keeps_def by (metis prod.collapse)

lemma page_tick_fields:
  assumes "page_tick f r = (x, r1)"
  shows "pr_calls r1 = pr_calls r" "pr_actions_executed r1 = pr_actions_executed r"
  using assms by (auto simp: page_tick_def)

lemma refreshed_lookup_fields:
  assumes "refreshed_lookup page key r = (x, r1)"
  shows "pr_calls r1 = pr_calls r" "pr_actions_executed r1 = pr_actions_executed r"
  using assms by (auto simp: refreshed_lookup_def Let_def page_tick_def split: prod.splits sum.splits option.splits)

lemma note_call_fields [simp]:
  "pr_calls (note_call c r) = pr_calls r @ [c]" "pr_actions_executed (note_call c r) = pr_actions_executed r"
  by (simp_all add: note_call_def)

text \<open>An invariant of the context, the calls and the number of actions only.\<close>

definition about_calls :: "(SkillExecutionContext \<Rightarrow> skill_call list \<Rightarrow> u64 \<Rightarrow> bool) \<Rightarrow> SkillExecutionContext \<Rightarrow> page_runtime \<Rightarrow> bool" where
  "about_calls P ctx r \<longleftrightarrow> P ctx (pr_calls r) (pr_actions_executed r)"

lemma skill_locate_keeps: "op_keeps (about_calls P) (skill_locate page params step)"
  unfolding skill_locate_def
  by (intro keeps_resolve keeps_op)
     (auto simp: about_calls_def Let_def refreshed_lookup_fields page_tick_fields split: option.splits prod.splits sum.splits)

lemma skill_wait_keeps: "op_keeps (about_calls P) (skill_wait page params step)"
  unfolding skill_wait_def
  by (intro keeps_resolve keeps_op)
     (auto simp: about_calls_def Let_def page_tick_fields split: option.splits prod.splits sum.splits)

abbreviation run_inv :: "skill_page \<Rightarrow> Json \<Rightarrow> SkillStep list \<Rightarrow> SkillExecutionContext \<Rightarrow> page_runtime \<Rightarrow> bool" where
  "run_inv page params ss \<equiv> about_calls (run_ok page params ss)"

lemma from_dataI: "run_inv page params ss ctx r \<Longrightarrow> resolve_template template params ctx DataSlot = Inr v \<Longrightarrow> from_data page params template v"
  by (auto simp: about_calls_def run_ok_def from_data_def)

lemma verify_call_inv:
  assumes "written_in page params ss (CalledVerify i key expected)"
  shows "op_keeps (run_inv page params ss) (verify_call page i key expected)"
  using assms by (intro keeps_op) (auto simp: about_calls_def run_ok_def verify_call_def Let_def page_tick_fields split: prod.splits)

lemma keeps_lookup:
  assumes "\<And>i. op_keeps (run_inv page params ss) (k i)"
  shows "op_keeps (run_inv page params ss)
    (\<lambda>ctx r. let (found, r1) = refreshed_lookup page key r
             in case found of Inl e \<Rightarrow> (Failure e, ctx, r1) | Inr i \<Rightarrow> k i ctx r1)"
  using assms by (auto simp: op_keeps_def Let_def about_calls_def refreshed_lookup_fields split: prod.splits sum.splits)

lemma skill_verify_inv:
  assumes "Verify step \<in> set ss"
  shows "op_keeps (run_inv page params ss) (skill_verify page params step)"
  unfolding skill_verify_def
proof (intro keeps_resolve)
  fix target ctx r expected ctx' r'
  assume t: "resolve_template (ve_target step) params ctx ControlSlot = Inr target"
    and e: "run_inv page params ss ctx' r'" "resolve_template (ve_expected step) params ctx' DataSlot = Inr expected"
  have w: "written_in page params ss (CalledVerify i (parse_target_stable_key target) expected)"
    if "parse_target_id target = Some i \<or> parse_target_id target = None \<and> parse_target_stable_key target \<noteq> None" for i
    using assms t that from_dataI [OF e] by (auto simp: control_ignores_extracted written_in.simps)
  show "op_keeps (run_inv page params ss) (\<lambda>ctx r.
       case parse_target_id target of
         Some i \<Rightarrow> verify_call page i (parse_target_stable_key target) expected ctx r
       | None \<Rightarrow>
           (case parse_target_stable_key target of
              Some key \<Rightarrow>
                (let (found, r1) = refreshed_lookup page key r
                 in case found of
                      Inl e \<Rightarrow> (Failure e, ctx, r1)
                    | Inr i \<Rightarrow> verify_call page i (Some key) expected ctx r1)
            | None \<Rightarrow> (Failure (''unrecognised verify target '' @ sn_debug (sg_sanitizer page) target @
                         ''; expected id:<N> or stable_key:<key>''), ctx, r)))"
  proof (cases "parse_target_id target")
    case (Some i)
    with verify_call_inv [OF w, of i] show ?thesis by simp
  next
    case None
    show ?thesis
    proof (cases "parse_target_stable_key target")
      case (Some key)
      with None w have "op_keeps (run_inv page params ss) (verify_call page i (Some key) expected)" for i
        using verify_call_inv [of page params ss i "Some key" expected] by simp
      from keeps_lookup [of page params ss "\<lambda>i. verify_call page i (Some key) expected", OF this] None Some
      show ?thesis by (simp add: Let_def)
    qed (simp add: None op_keeps_def)
  qed
qed

lemma skill_act_inv:
  assumes "Act step \<in> set ss"
  shows "op_keeps (run_inv page params ss) (skill_act page params step)"
proof -
  have call: "op_keeps (run_inv page params ss) (act_call page target action v)"
    if "from_params params (ac_target step) target" "from_params params (ac_action step) action"
      "rel_option (from_data page params) (ac_value step) v" for target action v
  proof (rule keeps_op)
    fix ctx r out ctx' r' assume i: "run_inv page params ss ctx r" and c: "act_call page target action v ctx r = (out, ctx', r')"
    have "written_in page params ss (CalledAct (parse_target_id target) (parse_target_stable_key target) action v b)" for b
      using that assms by (auto simp: written_in.simps)
    with i c show "run_inv page params ss ctx' r'"
      by (auto simp: about_calls_def run_ok_def act_call_def Let_def page_tick_fields split: prod.splits sum.splits if_splits)
  qed
  show ?thesis
  proof (cases "ac_value step")
    case None
    then show ?thesis unfolding skill_act_def
      by (auto intro!: keeps_resolve call simp: control_ignores_extracted)
  next
    case (Some raw)
    then show ?thesis unfolding skill_act_def
      by (auto intro!: keeps_resolve call simp: control_ignores_extracted intro: from_dataI)
  qed
qed

lemma unwrap_skill_value:
  "unwrap_skill_extraction_envelope envelope = Inr raw \<Longrightarrow> raw = JNull \<or> (\<exists>s. raw = JString s)"
  by (auto simp: unwrap_skill_extraction_envelope_def Let_def as_str_def split: Json.splits option.splits if_splits bool.splits)

lemma set_AList_update: "set (AList.update k v xs) \<subseteq> insert (k, v) (set xs)"
  by (induction xs) auto

lemma sanitized_update:
  assumes "sanitized_values page ctx" "raw = JNull \<or> (\<exists>s. raw = JString s)"
  shows "sanitized_values page (ctx\<lparr>extracted := AList.update k (fst (sn_json (sg_sanitizer page) raw)) (extracted ctx)\<rparr>)"
  unfolding sanitized_values_def
proof (intro ballI)
  fix e assume "e \<in> set (extracted (ctx\<lparr>extracted := AList.update k (fst (sn_json (sg_sanitizer page) raw)) (extracted ctx)\<rparr>))"
  then have "e = (k, fst (sn_json (sg_sanitizer page) raw)) \<or> e \<in> set (extracted ctx)"
    using set_AList_update [of k "fst (sn_json (sg_sanitizer page) raw)" "extracted ctx"] by auto
  then show "case e of (k, v) \<Rightarrow> \<exists>raw. (raw = JNull \<or> (\<exists>s. raw = JString s)) \<and> v = fst (sn_json (sg_sanitizer page) raw)"
    using assms by (auto simp: sanitized_values_def)
qed

lemma skill_extract_inv:
  assumes "Extract step \<in> set ss"
  shows "op_keeps (run_inv page params ss) (skill_extract page params step)"
  unfolding skill_extract_def
proof (intro keeps_resolve keeps_op)
  fix selector ctx0 r0 ctx r out ctx' r'
  assume s: "resolve_template (ex_selector step) params ctx0 ControlSlot = Inr selector"
    and i: "run_inv page params ss ctx r"
    and c: "(let script = extraction_script page selector;
           (evaluated, r1) = page_tick (\<lambda>n. sg_evaluate_json page n script) (note_call (CalledScript script) r)
       in case evaluated of
            Inl _ \<Rightarrow> (Failure ''ScriptEvalError: skill extraction script evaluation failed'', ctx, r1)
          | Inr envelope \<Rightarrow>
              (case unwrap_skill_extraction_envelope envelope of
                 Inl reason \<Rightarrow>
                   (Failure (''ScriptEvalError: '' @ safe_script_error_message (sg_sanitizer page) reason), ctx, r1)
               | Inr raw \<Rightarrow>
                   (let (sanitized, flags) = sn_json (sg_sanitizer page) raw
                    in (Success, ctx\<lparr>extracted := AList.update (ex_key step) sanitized (extracted ctx)\<rparr>,
                        r1\<lparr>pr_security_flags := pr_security_flags r1 @ flags\<rparr>)))) = (out, ctx', r')"
  have w: "written_in page params ss (CalledScript (extraction_script page selector))"
    using assms s by (auto simp: control_ignores_extracted written_in.simps)
  have "sanitized_values page (ctx\<lparr>extracted := AList.update (ex_key step) (fst (sn_json (sg_sanitizer page) raw)) (extracted ctx)\<rparr>)"
    if "unwrap_skill_extraction_envelope envelope = Inr raw" for envelope raw
    using i unwrap_skill_value [OF that] by (auto simp: about_calls_def run_ok_def intro: sanitized_update)
  with i w show "run_inv page params ss ctx' r'"
    using c [unfolded Let_def]
    by (auto simp: about_calls_def run_ok_def page_tick_def split_beta split: sum.splits)
qed

lemma step_inv: "step \<in> set ss \<Longrightarrow> step_keeps (run_inv page params ss) (page_skill_runtime page params) step"
  by (cases step) (simp_all add: page_skill_runtime_def default_runtime_def skill_locate_keeps skill_wait_keeps
      skill_verify_inv skill_act_inv skill_extract_inv)


section \<open>The usage that is metered\<close>

abbreviation acted_at_most :: "nat \<Rightarrow> SkillExecutionContext \<Rightarrow> page_runtime \<Rightarrow> bool" where
  "acted_at_most n \<equiv> about_calls (\<lambda>ctx calls k. length (filter acted_ok calls) \<le> n)"

lemma skill_verify_acted: "op_keeps (acted_at_most n) (skill_verify page params step)"
  unfolding skill_verify_def
  by (intro keeps_resolve keeps_op)
     (auto simp: about_calls_def verify_call_def Let_def refreshed_lookup_fields page_tick_fields split: option.splits prod.splits sum.splits)

lemma skill_extract_acted: "op_keeps (acted_at_most n) (skill_extract page params step)"
  unfolding skill_extract_def
  by (intro keeps_resolve keeps_op)
     (auto simp: about_calls_def Let_def page_tick_def split: prod.splits sum.splits)

lemma skill_act_acted:
  "acted_at_most n ctx r \<Longrightarrow> skill_act page params step ctx r = (out, ctx', r') \<Longrightarrow> acted_at_most (Suc n) ctx' r'"
  by (auto simp: about_calls_def skill_act_def resolve_or_fail_def act_call_def Let_def page_tick_def
      split: option.splits prod.splits sum.splits if_splits)

lemma execute_step_acted:
  assumes "on_exec (acted_at_most n) s" "execute_step (page_skill_runtime page params) step s = (out, s')"
  shows "on_exec (acted_at_most (Suc n)) s'"
proof (cases "\<exists>d. step = Act d")
  case True
  with assms show ?thesis
    by (auto simp: page_skill_runtime_def default_runtime_def op_const_def call_operation_def about_calls_def
        split: prod.splits OperationOutcome.splits dest!: skill_act_acted [of n, rotated])
next
  case False
  then have "step_keeps (acted_at_most n) (page_skill_runtime page params) step"
    by (cases step) (auto simp: page_skill_runtime_def default_runtime_def skill_locate_keeps skill_wait_keeps
        skill_verify_acted skill_extract_acted)
  from execute_step_keeps [OF this assms] show ?thesis by (simp add: about_calls_def)
qed

text \<open>
  The usage that a run of a skill leaves for the metering, whether it completes, fails or is stopped
  at its limit, is the number of the actions that succeeded on the page; it never exceeds the limit on the
  operations, so that the counter does not wrap.
\<close>

theorem usage_counts_actions:
  assumes "run limit skill (page_skill_runtime page params) new_page_runtime = Ret (result, r)" "limit < 2 ^ 64"
  shows "unat (ud_actions_executed (into_usage_delta r)) = length (filter acted_ok (pr_calls r)) \<and>
    length (filter acted_ok (pr_calls r)) \<le> limit"
proof -
  have "run_inv page params (steps skill) \<lparr>extracted = []\<rparr> new_page_runtime"
    by (simp add: about_calls_def run_ok_def sanitized_values_def new_page_runtime_def)
  from run_keeps [OF step_inv this assms(1)]
  have n: "pr_actions_executed r = of_nat (length (filter acted_ok (pr_calls r)))"
    by (auto simp: about_calls_def run_ok_def)
  have "length (filter acted_ok (pr_calls r)) \<le> limit"
  proof (cases rule: run_cases [of skill limit "page_skill_runtime page params" new_page_runtime])
    case invalid
    with assms(1) show ?thesis by (auto simp: new_page_runtime_def)
  next
    case valid
    let ?run = "run_loop limit skill (step_at skill) (page_skill_runtime page params) 0
      \<lparr>lp_cursor = 0, lp_retries = Map.empty\<rparr> (start_exec new_page_runtime)"
    have start: "on_exec (acted_at_most 0) (start_exec new_page_runtime)"
      by (simp add: start_exec_def about_calls_def new_page_runtime_def)
    have "\<exists>m\<le>limit. on_exec (acted_at_most m) (snd ?run)"
      by (rule run_loop_counted [where J = "\<lambda>n. on_exec (acted_at_most n)", OF execute_step_acted start]) auto
    with valid assms(1) show ?thesis by (auto simp: about_calls_def prod_eq_iff)
  qed
  with n assms(2) show ?thesis by (simp add: into_usage_delta_def unat_of_nat)
qed

text \<open>A page whose code answers every extraction with a target; the skill types it into a field.\<close>

definition typing_skill :: SkillDefinition where
  "typing_skill = \<lparr>schema_version = 1, sk_name = ''type'', steps =
     [Extract \<lparr>ex_id = None, ex_key = ''x'', ex_selector = ''{{field}}'', ex_control = default_control\<rparr>,
      Verify \<lparr>ve_id = None, ve_target = ''id:1'', ve_expected = ''Name'', ve_control = default_control\<rparr>,
      Act \<lparr>ac_id = None, ac_action = ''type'', ac_target = ''id:1'', ac_value = Some ''{{extracted.x}}'', ac_control = default_control\<rparr>]\<rparr>"

definition hostile_page :: skill_page where
  "hostile_page = \<lparr>sg_capture = (\<lambda>_. Inl ''closed''), sg_lookup = (\<lambda>_ _. None),
     sg_verify_text = (\<lambda>_ _ _ _. Inr ()), sg_act = (\<lambda>_ _ _ _ _. Inr ()),
     sg_wait_for_intent = (\<lambda>_ _ _. Inr ()), sg_wait_for_semantic = (\<lambda>_ _ _ _. Inr ()),
     sg_evaluate_json = (\<lambda>_ _. Inr (JObject [(''ok'', JBool True), (''value'', JString ''id:2'')])),
     sg_json_string = (\<lambda>s. s),
     sg_sanitizer = \<lparr>sn_json = (\<lambda>v. (v, [])), sn_redact = (\<lambda>v. v), sn_redact_text = (\<lambda>s. s), sn_debug = (\<lambda>s. s)\<rparr>\<rparr>"

definition typing_run :: "page_runtime" where
  "typing_run = \<lparr>pr_actions_executed = 1, pr_visual_captures = 0, pr_hitl_events = 0, pr_security_flags = [], pr_tick = 3,
     pr_calls = [CalledScript (extraction_script hostile_page ''#name''), CalledVerify 1 None ''Name'',
       CalledAct (Some 1) None ''type'' (Some ''id:2'') True]\<rparr>"

lemma typing_runs:
  "\<exists>result. run 1024 typing_skill (page_skill_runtime hostile_page (JObject [(''field'', JString ''#name'')])) new_page_runtime =
     Ret (result, typing_run)"
proof -
  have "(case run 1024 typing_skill (page_skill_runtime hostile_page (JObject [(''field'', JString ''#name'')])) new_page_runtime of
     Ret (result, r) \<Rightarrow> r = typing_run | Panic \<Rightarrow> False)" by code_simp
  then show ?thesis by (auto split: call.splits)
qed


theorem usage_counts_actions_witness:
  "unat (ud_actions_executed (into_usage_delta typing_run)) = 1 \<and> length (filter acted_ok (pr_calls typing_run)) = 1"
proof -
  obtain result where "run 1024 typing_skill (page_skill_runtime hostile_page (JObject [(''field'', JString ''#name'')]))
      new_page_runtime = Ret (result, typing_run)" using typing_runs by blast
  from usage_counts_actions [OF this] show ?thesis by (simp add: typing_run_def)
qed

end
