(* ===== verification/Metering.thy ===== *)
theory Metering
  imports Json
begin

text \<open>
  Plans and usage, \<open>mcp-server/src/metering.rs\<close>: the tiers as a linear order, the meters of a session and the
  report with its costs. Every sum and product of a cost saturates.
\<close>

section \<open>Plans\<close>

datatype PlanTier = Developer | Pro | Enterprise

fun tier_rank :: "PlanTier \<Rightarrow> nat" where
  "tier_rank Developer = 0"
| "tier_rank Pro = 1"
| "tier_rank Enterprise = 2"

lemma tier_rank_inject [simp]: "tier_rank a = tier_rank b \<longleftrightarrow> a = b"
  by (cases a; cases b) simp_all

text \<open>The derived order of the variants.\<close>

instantiation PlanTier :: linorder
begin

definition less_eq_PlanTier :: "PlanTier \<Rightarrow> PlanTier \<Rightarrow> bool" where
  "less_eq_PlanTier a b \<longleftrightarrow> tier_rank a \<le> tier_rank b"

definition less_PlanTier :: "PlanTier \<Rightarrow> PlanTier \<Rightarrow> bool" where
  "less_PlanTier a b \<longleftrightarrow> tier_rank a < tier_rank b"

instance
  by standard (auto simp: less_eq_PlanTier_def less_PlanTier_def dest: order.antisym)

end

fun plan_name :: "PlanTier \<Rightarrow> string" where
  "plan_name Developer = ''developer''"
| "plan_name Pro = ''pro''"
| "plan_name Enterprise = ''enterprise''"

datatype PlanFeature = SemanticDelta | SomVisualCapture | PolicyHumanApproval

fun feature_name :: "PlanFeature \<Rightarrow> string" where
  "feature_name SemanticDelta = ''semantic_delta''"
| "feature_name SomVisualCapture = ''som_visual_capture''"
| "feature_name PolicyHumanApproval = ''policy_human_approval''"

fun required_plan :: "PlanFeature \<Rightarrow> PlanTier" where
  "required_plan SemanticDelta = Pro"
| "required_plan SomVisualCapture = Pro"
| "required_plan PolicyHumanApproval = Enterprise"

section \<open>Usage\<close>

record AuditRetentionSnapshot =
  retained_events :: u64
  retained_bytes :: u64

record StateGenerationUsage =
  sg_fast :: u64
  sg_full :: u64
  sg_delta :: u64
  sg_speculative :: u64

record UsageCostBreakdown =
  cb_state_generations :: u64
  cb_visual_captures :: u64
  cb_actions_executed :: u64
  cb_hitl_events :: u64
  cb_audit_retention :: u64
  cb_total :: u64

record UsageReport =
  ur_plan_tier :: PlanTier
  ur_state_generations :: StateGenerationUsage
  ur_visual_captures :: u64
  ur_actions_executed :: u64
  ur_hitl_events :: u64
  ur_audit_retention :: AuditRetentionSnapshot
  ur_cost_microusd :: UsageCostBreakdown
  ur_browser_restarts :: u64
  ur_speculative_misses :: u64

record UsageMeters =
  um_state_generations :: StateGenerationUsage
  um_visual_captures :: u64
  um_actions_executed :: u64
  um_hitl_events :: u64

definition no_usage :: UsageMeters where
  "no_usage = \<lparr>um_state_generations = \<lparr>sg_fast = 0, sg_full = 0, sg_delta = 0, sg_speculative = 0\<rparr>,
     um_visual_captures = 0, um_actions_executed = 0, um_hitl_events = 0\<rparr>"

section \<open>Costs\<close>

record PricingRateCard =
  rc_state_fast :: u64
  rc_state_full :: u64
  rc_state_delta :: u64
  rc_state_speculative :: u64
  rc_visual_capture :: u64
  rc_action_executed :: u64
  rc_hitl_event :: u64
  rc_audit_retention_per_mib :: u64

fun pricing_rate_card :: "PlanTier \<Rightarrow> PricingRateCard" where
  "pricing_rate_card Developer = \<lparr>rc_state_fast = 0, rc_state_full = 0, rc_state_delta = 0, rc_state_speculative = 0,
     rc_visual_capture = 0, rc_action_executed = 0, rc_hitl_event = 0, rc_audit_retention_per_mib = 0\<rparr>"
| "pricing_rate_card Pro = \<lparr>rc_state_fast = 100, rc_state_full = 250, rc_state_delta = 50, rc_state_speculative = 20,
     rc_visual_capture = 1000, rc_action_executed = 75, rc_hitl_event = 1500, rc_audit_retention_per_mib = 400\<rparr>"
| "pricing_rate_card Enterprise = \<lparr>rc_state_fast = 80, rc_state_full = 200, rc_state_delta = 40, rc_state_speculative = 15,
     rc_visual_capture = 850, rc_action_executed = 60, rc_hitl_event = 1200, rc_audit_retention_per_mib = 300\<rparr>"

definition MIB :: u64 where
  "MIB = 1048576"

definition estimate_usage_cost ::
  "PlanTier \<Rightarrow> StateGenerationUsage \<Rightarrow> u64 \<Rightarrow> u64 \<Rightarrow> u64 \<Rightarrow> AuditRetentionSnapshot \<Rightarrow> UsageCostBreakdown" where
  "estimate_usage_cost plan_tier gens visual_captures actions_executed hitl_events audit_retention =
     (let rates = pricing_rate_card plan_tier;
          state_generations_cost =
            sat_add (sat_add (sat_add (sat_mul (sg_fast gens) (rc_state_fast rates))
                                      (sat_mul (sg_full gens) (rc_state_full rates)))
                             (sat_mul (sg_delta gens) (rc_state_delta rates)))
                    (sat_mul (sg_speculative gens) (rc_state_speculative rates));
          visual_captures_cost = sat_mul visual_captures (rc_visual_capture rates);
          actions_executed_cost = sat_mul actions_executed (rc_action_executed rates);
          hitl_events_cost = sat_mul hitl_events (rc_hitl_event rates);
          retained_mib = sat_add (retained_bytes audit_retention) (MIB - 1) div MIB;
          audit_retention_cost = sat_mul retained_mib (rc_audit_retention_per_mib rates)
      in \<lparr>cb_state_generations = state_generations_cost, cb_visual_captures = visual_captures_cost,
          cb_actions_executed = actions_executed_cost, cb_hitl_events = hitl_events_cost,
          cb_audit_retention = audit_retention_cost,
          cb_total = sat_add (sat_add (sat_add (sat_add state_generations_cost visual_captures_cost)
                                               actions_executed_cost) hitl_events_cost) audit_retention_cost\<rparr>)"

definition to_report ::
  "UsageMeters \<Rightarrow> PlanTier \<Rightarrow> AuditRetentionSnapshot \<Rightarrow> u64 \<Rightarrow> u64 \<Rightarrow> UsageReport" where
  "to_report m plan_tier audit_retention browser_restarts speculative_misses =
     \<lparr>ur_plan_tier = plan_tier, ur_state_generations = um_state_generations m,
      ur_visual_captures = um_visual_captures m, ur_actions_executed = um_actions_executed m,
      ur_hitl_events = um_hitl_events m, ur_audit_retention = audit_retention,
      ur_cost_microusd = estimate_usage_cost plan_tier (um_state_generations m) (um_visual_captures m)
        (um_actions_executed m) (um_hitl_events m) audit_retention,
      ur_browser_restarts = browser_restarts, ur_speculative_misses = speculative_misses\<rparr>"

section \<open>The costs are exact up to one saturation\<close>

definition capped :: "int \<Rightarrow> int" where
  "capped x = min x (2 ^ 64 - 1)"

lemma uint_sat_add_capped: "uint (sat_add a b) = capped (uint a + uint b)"
  by (simp add: uint_sat_add capped_def)

lemma uint_sat_mul_capped: "uint (sat_mul a b) = capped (uint a * uint b)"
  by (simp add: uint_sat_mul capped_def)

lemma capped_absorb:
  "0 \<le> x \<Longrightarrow> 0 \<le> y \<Longrightarrow> capped (capped x + y) = capped (x + y)"
  "0 \<le> x \<Longrightarrow> 0 \<le> y \<Longrightarrow> capped (x + capped y) = capped (x + y)"
  by (auto simp: capped_def)

lemma capped_nonneg: "0 \<le> x \<Longrightarrow> 0 \<le> capped x"
  by (auto simp: capped_def)

text \<open>What the usage costs in whole numbers; a started mebibyte counts as a whole one.\<close>

definition usage_cost :: "PricingRateCard \<Rightarrow> StateGenerationUsage \<Rightarrow> u64 \<Rightarrow> u64 \<Rightarrow> u64 \<Rightarrow> int \<Rightarrow> int" where
  "usage_cost rates gens visual_captures actions_executed hitl_events mib =
     uint (sg_fast gens) * uint (rc_state_fast rates) + uint (sg_full gens) * uint (rc_state_full rates) +
     uint (sg_delta gens) * uint (rc_state_delta rates) + uint (sg_speculative gens) * uint (rc_state_speculative rates) +
     uint visual_captures * uint (rc_visual_capture rates) + uint actions_executed * uint (rc_action_executed rates) +
     uint hitl_events * uint (rc_hitl_event rates) + mib * uint (rc_audit_retention_per_mib rates)"

text \<open>
  C33: The total of a usage report is the exact cost of the metered usage if this fits 64 bits, and the
  largest 64-bit number otherwise: the nine saturating steps never lose anything else. The audit trail is counted in
  started mebibytes, up to the last mebibyte of the 64-bit range.
\<close>

theorem estimate_usage_cost_exact:
  "uint (cb_total (estimate_usage_cost plan gens v a h audit_ret)) =
     min (usage_cost (pricing_rate_card plan) gens v a h
            (min (uint (retained_bytes audit_ret) + 1048575) (2 ^ 64 - 1) div 1048576))
         (2 ^ 64 - 1)"
proof -
  let ?r = "pricing_rate_card plan" and ?m = "sat_add (retained_bytes audit_ret) (MIB - 1) div MIB"
  have m: "uint ?m = min (uint (retained_bytes audit_ret) + 1048575) (2 ^ 64 - 1) div 1048576"
    by (simp add: uint_div uint_sat_add MIB_def)
  have "uint (cb_total (estimate_usage_cost plan gens v a h audit_ret)) = capped (usage_cost ?r gens v a h (uint ?m))"
    by (simp add: estimate_usage_cost_def Let_def uint_sat_add_capped uint_sat_mul_capped capped_absorb capped_nonneg
        usage_cost_def add.assoc)
  then show ?thesis by (simp only: m capped_def)
qed

lemma developer_pays_nothing: "cb_total (estimate_usage_cost Developer gens v a h audit_ret) = 0"
  by (simp add: estimate_usage_cost_def Let_def sat_add_def sat_mul_def)

end
