(* ===== verification/Speculative.thy ===== *)
theory Speculative
  imports Sem_View Bounded_Log "HOL-Library.Product_Lexorder" "HOL-Library.Multiset"
begin

text \<open>
  The speculative engine, \<open>core-runtime/src/speculative\<close>: the frequency tables of \<open>model.rs\<close>
  that predict the next action and the state it leads to, the cache of observed states and the log
  of mispredictions of \<open>mod.rs\<close>, and the portable table of \<open>codec.rs\<close>. The buffers of the
  \<open>flatbuffers\<close> crate are a parameter (\<open>flat_env\<close>). Counts are \<open>u32\<close> and wrap, as they do where
  overflow checks are off.
\<close>

section \<open>The transition model\<close>

type_synonym ActionSignature = string

record DomainHint =
  dh_from_action :: ActionSignature
  dh_predicted_next_action :: ActionSignature
  dh_weight :: f64

type_synonym 'k counts = "('k \<times> u32) list"

record TransitionModel =
  tm_state_transitions :: "((string \<times> ActionSignature) \<times> string counts) list"
  tm_action_sequences :: "(ActionSignature \<times> ActionSignature counts) list"

definition new_model :: TransitionModel where
  "new_model = \<lparr>tm_state_transitions = [], tm_action_sequences = []\<rparr>"

text \<open>\<open>*counts.entry(k).or_insert(0) += n\<close>, and the same one table further out.\<close>

definition add_count :: "'k \<Rightarrow> u32 \<Rightarrow> 'k counts \<Rightarrow> 'k counts" where
  "add_count k n m = AList.update k ((case map_of m k of Some c \<Rightarrow> c | None \<Rightarrow> 0) + n) m"

definition add_edge :: "'a \<Rightarrow> 'k \<Rightarrow> u32 \<Rightarrow> ('a \<times> 'k counts) list \<Rightarrow> ('a \<times> 'k counts) list" where
  "add_edge a k n m = AList.update a (add_count k n (case map_of m a of Some c \<Rightarrow> c | None \<Rightarrow> [])) m"

definition record_edge ::
  "string \<Rightarrow> ActionSignature \<Rightarrow> string \<Rightarrow> ActionSignature option \<Rightarrow> TransitionModel \<Rightarrow> TransitionModel" where
  "record_edge from_state_hash action to_state_hash prior_action m =
     (let m1 = m\<lparr>tm_state_transitions := add_edge (from_state_hash, action) to_state_hash 1 (tm_state_transitions m)\<rparr>
      in case prior_action of
           Some prior \<Rightarrow> m1\<lparr>tm_action_sequences := add_edge prior action 1 (tm_action_sequences m1)\<rparr>
         | None \<Rightarrow> m1)"

text \<open>\<open>f64::from(count) / f64::from(total)\<close>; the payload of the NaN is unspecified.\<close>

definition f64_of_u32_quotient :: "u32 \<Rightarrow> u32 \<Rightarrow> f64" where
  "f64_of_u32_quotient n d =
     (if d = 0 then (if n = 0 then 0x7FF8000000000000 else 0x7FF0000000000000)
      else word_of_int (f64_bits_of_ratio (uint n) (uint d)))"

text \<open>The comparison of \<open>max_by\<close> is \<open>Greater\<close>; \<open>max_by\<close> keeps the first argument only then.\<close>

definition more_frequent :: "'k::linorder \<times> u32 \<Rightarrow> 'k \<times> u32 \<Rightarrow> bool" where
  "more_frequent a b \<longleftrightarrow> snd b < snd a \<or> snd a = snd b \<and> fst a < fst b"

text \<open>None is the panic of \<open>expect\<close>: the callers exclude the empty table.\<close>

definition most_frequent :: "'k::linorder counts \<Rightarrow> ('k \<times> f64) option" where
  "most_frequent counts =
     (let total = foldl (+) 0 (map snd counts)
      in map_option (\<lambda>(key, n). (key, f64_of_u32_quotient n total))
           (reduce (\<lambda>x y. if more_frequent x y then x else y) counts))"

definition heaviest_hint :: "DomainHint list \<Rightarrow> DomainHint option" where
  "heaviest_hint hints =
     reduce (\<lambda>x y. if f64_total_key (dh_weight y) < f64_total_key (dh_weight x) then x else y) hints"

definition predict_action ::
  "TransitionModel \<Rightarrow> ActionSignature option \<Rightarrow> DomainHint list \<Rightarrow> (ActionSignature \<times> f64) option" where
  "predict_action m last_action domain_hints =
     (case last_action of
        None \<Rightarrow> None
      | Some last_act \<Rightarrow>
          (let hinted = map_option (\<lambda>hint. (dh_predicted_next_action hint, f64_clamp01 (dh_weight hint)))
                 (heaviest_hint (filter (\<lambda>hint. dh_from_action hint = last_act) domain_hints))
           in case map_of (tm_action_sequences m) last_act of
                Some observed \<Rightarrow> if observed \<noteq> [] then most_frequent observed else hinted
              | None \<Rightarrow> hinted))"

definition predict_state :: "TransitionModel \<Rightarrow> string \<Rightarrow> ActionSignature \<Rightarrow> (string \<times> f64) option" where
  "predict_state m current_state_hash action =
     (case map_of (tm_state_transitions m) (current_state_hash, action) of
        None \<Rightarrow> None
      | Some observed \<Rightarrow> if observed = [] then None else most_frequent observed)"

text \<open>The n of the stale target goes down by one; a table that runs empty is removed.\<close>

definition decrement :: "string \<Rightarrow> string counts \<Rightarrow> string counts" where
  "decrement stale targets =
     (case map_of targets stale of
        None \<Rightarrow> targets
      | Some n \<Rightarrow> if n \<le> 1 then AList.delete stale targets else AList.update stale (n - 1) targets)"

definition forget_edge ::
  "string \<Rightarrow> ActionSignature \<Rightarrow> string \<Rightarrow> TransitionModel \<Rightarrow> TransitionModel" where
  "forget_edge from_state_hash action stale m =
     (let key = (from_state_hash, action); transitions = tm_state_transitions m
      in case map_of transitions key of
           None \<Rightarrow> m
         | Some targets \<Rightarrow>
             (let targets' = decrement stale targets
              in m\<lparr>tm_state_transitions :=
                    if targets' = [] then AList.delete key transitions else AList.update key targets' transitions\<rparr>))"

definition correct_edge ::
  "string \<Rightarrow> ActionSignature \<Rightarrow> string \<Rightarrow> string \<Rightarrow> ActionSignature option \<Rightarrow> TransitionModel \<Rightarrow> TransitionModel" where
  "correct_edge from_state_hash action stale actual prior_action m =
     record_edge from_state_hash action actual prior_action (forget_edge from_state_hash action stale m)"

definition action_sequence_records :: "TransitionModel \<Rightarrow> (ActionSignature \<times> ActionSignature \<times> u32) list" where
  "action_sequence_records m =
     sort (concat (map (\<lambda>(from, tos). map (\<lambda>(to, n). (from, to, n)) tos) (tm_action_sequences m)))"

definition merge_action_sequences ::
  "(ActionSignature \<times> ActionSignature \<times> u32) list \<Rightarrow> TransitionModel \<Rightarrow> TransitionModel" where
  "merge_action_sequences records m =
     m\<lparr>tm_action_sequences := foldl (\<lambda>seqs (from, to, n). add_edge from to n seqs) (tm_action_sequences m) records\<rparr>"

section \<open>The engine\<close>

definition MISMATCH_LOG_CAPACITY :: nat where
  "MISMATCH_LOG_CAPACITY = 32"

definition SNAPSHOT_CACHE_CAPACITY :: nat where
  "SNAPSHOT_CACHE_CAPACITY = 64"

record SpeculativePrediction =
  sp_predicted_action :: ActionSignature
  sp_predicted_state_hash :: "string option"
  sp_confidence :: f64

record MismatchSnapshot =
  ms_current_state_hash :: string
  ms_predicted_action :: ActionSignature
  ms_recorded_at :: u64

datatype StateDelta =
    Match string
  | Mismatch string string MismatchSnapshot

record SpeculativeInner =
  in_model :: TransitionModel
  in_domain_hints :: "DomainHint list"
  in_snapshot_cache :: "(string \<times> SemanticState) list"
  in_snapshot_order :: "string list"
  in_mismatch_log :: "MismatchSnapshot list"
  in_last_action :: "ActionSignature option"

definition new_inner :: "DomainHint list \<Rightarrow> SpeculativeInner" where
  "new_inner domain_hints =
     \<lparr>in_model = new_model, in_domain_hints = domain_hints, in_snapshot_cache = [], in_snapshot_order = [],
      in_mismatch_log = [], in_last_action = None\<rparr>"

text \<open>What \<open>lock\<close> puts in place of the state after a thread panicked while it held the lock.\<close>

definition recover_poisoned :: "SpeculativeInner \<Rightarrow> SpeculativeInner" where
  "recover_poisoned inner = new_inner (in_domain_hints inner)"

definition reset_session :: "SpeculativeInner \<Rightarrow> SpeculativeInner" where
  "reset_session inner = inner\<lparr>in_snapshot_cache := [], in_snapshot_order := [], in_last_action := None\<rparr>"

definition clear_action_cursor :: "SpeculativeInner \<Rightarrow> SpeculativeInner" where
  "clear_action_cursor inner = inner\<lparr>in_last_action := None\<rparr>"

definition advance_action_cursor :: "ActionSignature \<Rightarrow> SpeculativeInner \<Rightarrow> SpeculativeInner" where
  "advance_action_cursor action inner = inner\<lparr>in_last_action := Some action\<rparr>"

definition observe_state :: "SemanticState \<Rightarrow> SpeculativeInner \<Rightarrow> SpeculativeInner" where
  "observe_state state inner =
     (let hash = ss_state_hash state;
          is_new = map_of (in_snapshot_cache inner) hash = None;
          inner1 = inner\<lparr>in_snapshot_cache := AList.update hash state (in_snapshot_cache inner)\<rparr>
      in if is_new then
           (let inner2 = inner1\<lparr>in_snapshot_order := in_snapshot_order inner1 @ [hash]\<rparr>
            in if SNAPSHOT_CACHE_CAPACITY < length (in_snapshot_order inner2) then
                 (case in_snapshot_order inner2 of
                    oldest # rest \<Rightarrow>
                      inner2\<lparr>in_snapshot_order := rest,
                             in_snapshot_cache := AList.delete oldest (in_snapshot_cache inner2)\<rparr>
                  | [] \<Rightarrow> inner2)
               else inner2)
         else inner1)"

definition record_transition :: "string \<Rightarrow> ActionSignature \<Rightarrow> string \<Rightarrow> SpeculativeInner \<Rightarrow> SpeculativeInner" where
  "record_transition from_state_hash action to_state_hash inner =
     inner\<lparr>in_model := record_edge from_state_hash action to_state_hash (in_last_action inner) (in_model inner),
           in_last_action := Some action\<rparr>"

definition predict :: "SpeculativeInner \<Rightarrow> string \<Rightarrow> ActionSignature option \<Rightarrow> SpeculativePrediction option" where
  "predict inner current_state_hash last_action =
     (case predict_action (in_model inner) last_action (in_domain_hints inner) of
        None \<Rightarrow> None
      | Some (predicted_action, confidence) \<Rightarrow>
          Some \<lparr>sp_predicted_action = predicted_action,
                sp_predicted_state_hash = map_option fst (predict_state (in_model inner) current_state_hash predicted_action),
                sp_confidence = confidence\<rparr>)"

text \<open>\<open>uuid\<close> and \<open>now\<close> are what the generator and the clock return at the call.\<close>

definition pre_generate ::
  "string \<Rightarrow> u64 \<Rightarrow> SpeculativeInner \<Rightarrow> string \<Rightarrow> ActionSignature option \<Rightarrow> SemanticState option" where
  "pre_generate uuid now inner current_state_hash last_action =
     (case predict_action (in_model inner) last_action (in_domain_hints inner) of
        None \<Rightarrow> None
      | Some (predicted_action, _) \<Rightarrow>
          (case predict_state (in_model inner) current_state_hash predicted_action of
             None \<Rightarrow> None
           | Some (predicted_state_hash, _) \<Rightarrow>
               map_option (with_refreshed_metadata uuid now) (map_of (in_snapshot_cache inner) predicted_state_hash)))"

definition push_mismatch :: "MismatchSnapshot list \<Rightarrow> MismatchSnapshot \<Rightarrow> MismatchSnapshot list" where
  "push_mismatch entries snapshot =
     (if length entries = MISMATCH_LOG_CAPACITY then tl entries else entries) @ [snapshot]"

definition verify_prediction ::
  "u64 \<Rightarrow> SpeculativePrediction \<Rightarrow> SemanticState \<Rightarrow> SpeculativeInner \<Rightarrow> StateDelta \<times> SpeculativeInner" where
  "verify_prediction now prediction actual_state inner =
     (let actual_state_hash = ss_state_hash actual_state
      in case sp_predicted_state_hash prediction of
           None \<Rightarrow> (Match actual_state_hash, inner)
         | Some predicted_state_hash \<Rightarrow>
             if predicted_state_hash = actual_state_hash then (Match actual_state_hash, inner)
             else
               (let snapshot = \<lparr>ms_current_state_hash = actual_state_hash,
                      ms_predicted_action = sp_predicted_action prediction, ms_recorded_at = now\<rparr>
                in (Mismatch predicted_state_hash actual_state_hash snapshot,
                    inner\<lparr>in_mismatch_log := push_mismatch (in_mismatch_log inner) snapshot\<rparr>)))"

definition correct_transition ::
  "string \<Rightarrow> ActionSignature \<Rightarrow> string \<Rightarrow> string \<Rightarrow> SpeculativeInner \<Rightarrow> SpeculativeInner" where
  "correct_transition from_state_hash action stale_to_state_hash actual_to_state_hash inner =
     inner\<lparr>in_model := correct_edge from_state_hash action stale_to_state_hash actual_to_state_hash
              (in_last_action inner) (in_model inner),
           in_last_action := Some action\<rparr>"

section \<open>The portable table\<close>

text \<open>
  The \<open>flatbuffers\<close> crate: the buffer with the two vectors, and the verified reading of them from a
  buffer. The vectors of a table are optional for the reader.
\<close>

record 'fe flat_env =
  fb_finish :: "string list \<Rightarrow> u32 list \<Rightarrow> string"
  fb_root :: "string \<Rightarrow> 'fe + (string list option \<times> u32 list option)"

datatype 'fe SpeculativeCodecError =
    Malformed string
  | InvalidFlatbuffer 'fe

definition MIN_BYTES_PER_RECORD :: nat where
  "MIN_BYTES_PER_RECORD = 12"

definition bounded_capacity :: "nat \<Rightarrow> nat \<Rightarrow> nat" where
  "bounded_capacity claimed_records buffer_len =
     (let max_plausible_records = buffer_len div MIN_BYTES_PER_RECORD in min claimed_records max_plausible_records)"

definition encode_model :: "'fe flat_env \<Rightarrow> (ActionSignature \<times> ActionSignature \<times> u32) list \<Rightarrow> string" where
  "encode_model fb records =
     fb_finish fb (concat (map (\<lambda>(from, to, _). [from, to]) records)) (map (\<lambda>(_, _, n). n) records)"

text \<open>The loop over \<open>claimed_records\<close>; the iterators are the lists still to be read.\<close>

fun read_records ::
  "nat \<Rightarrow> string list \<Rightarrow> u32 list \<Rightarrow> 'fe SpeculativeCodecError + (ActionSignature \<times> ActionSignature \<times> u32) list" where
  "read_records 0 names counts = Inr []"
| "read_records (Suc n) names counts =
     (case names of
        [] \<Rightarrow> Inl (Malformed ''names vector exhausted before expected record count'')
      | from # names1 \<Rightarrow>
          (case names1 of
             [] \<Rightarrow> Inl (Malformed ''names vector exhausted before expected record count'')
           | to # names2 \<Rightarrow>
               (case counts of
                  [] \<Rightarrow> Inl (Malformed ''counts vector exhausted before expected record count'')
                | c # counts1 \<Rightarrow>
                    res_bind (read_records n names2 counts1) (\<lambda>records. Inr ((from, to, c) # records)))))"

definition decode_model ::
  "'fe flat_env \<Rightarrow> string \<Rightarrow> 'fe SpeculativeCodecError + (ActionSignature \<times> ActionSignature \<times> u32) list" where
  "decode_model fb bytes =
     (case fb_root fb bytes of
        Inl e \<Rightarrow> Inl (InvalidFlatbuffer e)
      | Inr (names_field, counts_field) \<Rightarrow>
          (case names_field of
             None \<Rightarrow> Inl (Malformed ''missing names vector'')
           | Some names \<Rightarrow>
               (case counts_field of
                  None \<Rightarrow> Inl (Malformed ''missing counts vector'')
                | Some counts \<Rightarrow>
                    if length names mod 2 \<noteq> 0 then
                      Inl (Malformed (''expected an even number of name entries, found '' @ show_int (int (length names))))
                    else if length names div 2 \<noteq> length counts then
                      Inl (Malformed (''names vector implies '' @ show_int (int (length names div 2)) @
                        '' records but counts vector has '' @ show_int (int (length counts))))
                    else read_records (length counts) names counts)))"

definition export_model :: "'fe flat_env \<Rightarrow> SpeculativeInner \<Rightarrow> string" where
  "export_model fb inner = encode_model fb (action_sequence_records (in_model inner))"

definition import_model ::
  "'fe flat_env \<Rightarrow> string \<Rightarrow> SpeculativeInner \<Rightarrow> ('fe SpeculativeCodecError + unit) \<times> SpeculativeInner" where
  "import_model fb bytes inner =
     (case decode_model fb bytes of
        Inl e \<Rightarrow> (Inl e, inner)
      | Inr records \<Rightarrow> (Inr (), inner\<lparr>in_model := merge_action_sequences records (in_model inner)\<rparr>))"

section \<open>Tables of counts\<close>

definition edge :: "('a \<times> 'k counts) list \<Rightarrow> 'a \<Rightarrow> 'k \<Rightarrow> u32 option" where
  "edge m a k = (case map_of m a of None \<Rightarrow> None | Some c \<Rightarrow> map_of c k)"

definition wf_table :: "('a \<times> 'k counts) list \<Rightarrow> bool" where
  "wf_table m \<longleftrightarrow> wf_map m \<and> (\<forall>(a, c)\<in>set m. wf_map c \<and> c \<noteq> [])"

lemma map_of_update [simp]: "map_of (AList.update k v m) k' = (if k' = k then Some v else map_of m k')"
  by (simp add: update_conv')

lemma map_of_delete: "wf_map m \<Longrightarrow> map_of (AList.delete k m) k' = (if k' = k then None else map_of m k')"
  by (simp add: delete_conv')

lemma update_not_Nil [simp]: "AList.update k v m \<noteq> []"
  by (cases m) auto

lemma set_update_subset: "set (AList.update k v m) \<subseteq> insert (k, v) (set m)"
  by (induction m) (auto split: if_splits)

lemma in_set_delete: "x \<in> set (AList.delete k m) \<Longrightarrow> x \<in> set m"
  by (induction m) (auto split: if_splits)

lemma wf_map_in: "wf_map m \<Longrightarrow> (k, v) \<in> set m \<longleftrightarrow> map_of m k = Some v"
  by (simp add: wf_map_def)

lemma edge_add_edge:
  "edge (add_edge a k n m) a' k' =
     (if a' = a \<and> k' = k then Some ((case edge m a k of Some c \<Rightarrow> c | None \<Rightarrow> 0) + n) else edge m a' k')"
  by (auto simp: edge_def add_edge_def add_count_def split: option.splits)

lemma wf_table_update: "wf_table m \<Longrightarrow> wf_map c \<Longrightarrow> c \<noteq> [] \<Longrightarrow> wf_table (AList.update a c m)"
  using set_update_subset [of a c m] by (auto simp: wf_table_def)

lemma wf_table_lookup: "wf_table m \<Longrightarrow> map_of m a = Some c \<Longrightarrow> wf_map c \<and> c \<noteq> []"
  by (auto simp: wf_table_def dest!: map_of_SomeD)

lemma wf_table_add_edge [intro]: "wf_table m \<Longrightarrow> wf_table (add_edge a k n m)"
  unfolding add_edge_def add_count_def
  by (intro wf_table_update wf_map_update) (auto split: option.splits dest: wf_table_lookup)

lemma wf_table_delete [intro]: "wf_table m \<Longrightarrow> wf_table (AList.delete a m)"
  unfolding wf_table_def by (auto dest: in_set_delete)

lemma wf_table_Nil [simp]: "wf_table []"
  by (simp add: wf_table_def)

lemma wf_table_in: "wf_table m \<Longrightarrow> (\<exists>c. (a, c) \<in> set m \<and> (k, n) \<in> set c) \<longleftrightarrow> edge m a k = Some n"
proof -
  assume wf: "wf_table m"
  then have "(a, c) \<in> set m \<longleftrightarrow> map_of m a = Some c" for c by (simp add: wf_table_def wf_map_in)
  moreover have "map_of m a = Some c \<Longrightarrow> (k, n) \<in> set c \<longleftrightarrow> map_of c k = Some n" for c
    using wf_table_lookup [OF wf] by (simp add: wf_map_in)
  ultimately show ?thesis by (auto simp: edge_def split: option.splits)
qed

section \<open>The most frequent entry\<close>

lemma more_frequent_trans: "more_frequent a b \<Longrightarrow> more_frequent b c \<Longrightarrow> more_frequent a c"
  by (auto simp: more_frequent_def)

lemma more_frequent_total: "a \<noteq> b \<Longrightarrow> more_frequent a b \<or> more_frequent b a"
  by (cases a; cases b) (auto simp: more_frequent_def)

lemma more_frequent_asym: "more_frequent a b \<Longrightarrow> \<not> more_frequent b a"
  by (auto simp: more_frequent_def)

lemma foldl_most_frequent:
  "foldl (\<lambda>x y. if more_frequent x y then x else y) x xs \<in> set (x # xs) \<and>
   (\<forall>y\<in>set (x # xs). y = foldl (\<lambda>x y. if more_frequent x y then x else y) x xs \<or>
      more_frequent (foldl (\<lambda>x y. if more_frequent x y then x else y) x xs) y)"
proof (induction xs arbitrary: x)
  case (Cons z xs)
  show ?case
  proof (cases "more_frequent x z")
    case True
    with Cons.IH [of x] show ?thesis by (auto intro: more_frequent_trans)
  next
    case False
    with more_frequent_total [of x z] Cons.IH [of z] show ?thesis by (auto intro: more_frequent_trans)
  qed
qed simp

lemma foldl_plus: "foldl (+) a xs = a + sum_list (xs :: u32 list)"
  by (induction xs arbitrary: a) (auto simp: algebra_simps)

text \<open>The entry with the highest count, the smallest key among several, whatever the order of the table.\<close>

definition is_best :: "'k::linorder counts \<Rightarrow> 'k \<Rightarrow> u32 \<Rightarrow> bool" where
  "is_best counts k c \<longleftrightarrow> (k, c) \<in> set counts \<and> (\<forall>e\<in>set counts. e = (k, c) \<or> more_frequent (k, c) e)"

lemma most_frequent_best:
  assumes "counts \<noteq> []"
  shows "\<exists>k c. is_best counts k c \<and> most_frequent counts = Some (k, f64_of_u32_quotient c (sum_list (map snd counts)))"
proof -
  obtain x xs where "counts = x # xs" using assms by (cases counts) auto
  moreover obtain k c where b: "foldl (\<lambda>x y. if more_frequent x y then x else y) x xs = (k, c)" by force
  ultimately have "most_frequent counts = Some (k, f64_of_u32_quotient c (sum_list (map snd counts)))"
    by (simp add: most_frequent_def foldl_plus)
  moreover have "is_best counts k c"
    using foldl_most_frequent [of x xs] \<open>counts = x # xs\<close> unfolding b is_best_def by blast
  ultimately show ?thesis by blast
qed

lemma is_best_unique: "is_best counts k c \<Longrightarrow> is_best counts k' c' \<Longrightarrow> k = k' \<and> c = c'"
proof -
  assume "is_best counts k c" "is_best counts k' c'"
  then have "(k', c') = (k, c) \<or> more_frequent (k, c) (k', c')" "(k, c) = (k', c') \<or> more_frequent (k', c') (k, c)"
    unfolding is_best_def by blast+
  with more_frequent_asym [of "(k, c)" "(k', c')"] show ?thesis by auto
qed

lemma most_frequent_eq:
  "is_best counts k c \<Longrightarrow> most_frequent counts = Some (k, f64_of_u32_quotient c (sum_list (map snd counts)))"
proof -
  assume b: "is_best counts k c"
  then have "counts \<noteq> []" by (auto simp: is_best_def)
  from most_frequent_best [OF this] obtain k' c' where b': "is_best counts k' c'"
    and m: "most_frequent counts = Some (k', f64_of_u32_quotient c' (sum_list (map snd counts)))" by blast
  from is_best_unique [OF b b'] m show ?thesis by simp
qed

lemma most_frequent_cong:
  assumes "wf_map c" "wf_map c'" "map_of c = map_of c'" "c \<noteq> []"
  shows "most_frequent c = most_frequent c'"
proof -
  have "(k, n) \<in> set c \<longleftrightarrow> (k, n) \<in> set c'" for k n using assms(1-3) by (simp add: wf_map_in)
  then have s: "set c = set c'" by auto
  have d: "distinct c" "distinct c'" using assms(1,2) by (auto simp: wf_map_def distinct_map)
  then have "mset c = mset c'" using s set_eq_iff_mset_eq_distinct by blast
  then have "sum_list (map snd c) = sum_list (map snd c')" by (metis mset_map sum_mset_sum_list)
  moreover obtain k n where "is_best c k n" using most_frequent_best [OF assms(4)] by blast
  moreover from this s have "is_best c' k n" by (simp add: is_best_def)
  ultimately show ?thesis by (simp add: most_frequent_eq)
qed

section \<open>Export and import\<close>

definition tables_ok :: "TransitionModel \<Rightarrow> bool" where
  "tables_ok m \<longleftrightarrow> wf_table (tm_state_transitions m) \<and> wf_table (tm_action_sequences m)"

lemma set_action_sequence_records:
  "tables_ok m \<Longrightarrow> (a, b, n) \<in> set (action_sequence_records m) \<longleftrightarrow> edge (tm_action_sequences m) a b = Some n"
  using wf_table_in [of "tm_action_sequences m" a b n] by (force simp: action_sequence_records_def tables_ok_def)

lemma distinct_flattened:
  "wf_table m \<Longrightarrow>
     distinct (map (\<lambda>(a, b, n). (a, b)) (concat (map (\<lambda>(a, bs). map (\<lambda>(b, n). (a, b, n)) bs) m)))"
proof (induction m)
  case (Cons e m)
  obtain a bs where e: "e = (a, bs)" by force
  have wf: "wf_table m" "wf_map bs" "a \<notin> fst ` set m" using Cons.prems by (auto simp: e wf_table_def wf_map_def)
  have "distinct (map (\<lambda>(a, b, n). (a, b)) (map (\<lambda>(b, n). (a, b, n)) bs))"
    using wf(2) by (simp add: wf_map_def distinct_map inj_on_def split_def)
  then show ?case using Cons.IH [OF wf(1)] wf(3) by (force simp: e)
qed simp

lemma distinct_records:
  assumes "tables_ok m"
  shows "distinct (map (\<lambda>(a, b, n). (a, b)) (action_sequence_records m))"
  using distinct_flattened [of "tm_action_sequences m"] assms
  by (simp add: action_sequence_records_def tables_ok_def distinct_map)

abbreviation add_record :: "(ActionSignature \<times> ActionSignature counts) list \<Rightarrow>
    ActionSignature \<times> ActionSignature \<times> u32 \<Rightarrow> (ActionSignature \<times> ActionSignature counts) list" where
  "add_record \<equiv> \<lambda>seqs (from, to, n). add_edge from to n seqs"

lemma wf_table_merged: "wf_table m \<Longrightarrow> wf_table (foldl add_record m rs)"
  by (induction rs arbitrary: m) auto

lemma edge_merged:
  "distinct (map (\<lambda>(a, b, n). (a, b)) rs) \<Longrightarrow> \<forall>(a, b, n)\<in>set rs. edge m a b = None \<Longrightarrow>
     edge (foldl add_record m rs) a b = Some n \<longleftrightarrow> (a, b, n) \<in> set rs \<or> edge m a b = Some n"
proof (induction rs arbitrary: m)
  case (Cons r rs)
  obtain a0 b0 n0 where r: "r = (a0, b0, n0)" by (cases r)
  have fresh: "(a0, b0, n') \<notin> set rs" for n' using Cons.prems(1) by (force simp: r)
  have none: "edge m a0 b0 = None" using Cons.prems(2) by (simp add: r)
  have "\<forall>(a, b, n)\<in>set rs. edge (add_edge a0 b0 n0 m) a b = None"
    using Cons.prems(2) fresh by (auto simp: edge_add_edge)
  with Cons.IH [of "add_edge a0 b0 n0 m"] Cons.prems(1) show ?case
    using fresh none by (auto simp: r edge_add_edge)
qed simp

text \<open>A well-formed table is determined by its entries.\<close>

lemma tables_determined:
  assumes "wf_table m" "wf_table m'" "\<And>a b n. edge m a b = Some n \<longleftrightarrow> edge m' a b = Some n"
  shows "(case map_of m a of None \<Rightarrow> map_of m' a = None
          | Some c \<Rightarrow> (\<exists>c'. map_of m' a = Some c' \<and> wf_map c \<and> wf_map c' \<and> map_of c = map_of c' \<and> c \<noteq> []))"
proof -
  have other: "edge m a b = edge m' a b" for b
  proof (cases "edge m a b")
    case None
    then show ?thesis using assms(3) [of a b] by (cases "edge m' a b") (metis option.distinct(1))+
  next
    case (Some n)
    then show ?thesis using iffD1 [OF assms(3)] by metis
  qed
  have some: "map_of x a \<noteq> None \<longleftrightarrow> (\<exists>b. edge x a b \<noteq> None)" if wf: "wf_table x" for x :: "('a \<times> 'b counts) list"
  proof (cases "map_of x a")
    case (Some c)
    then obtain e c1 where "c = e # c1" using wf_table_lookup [OF wf Some] by (cases c) auto
    then have "edge x a (fst e) \<noteq> None" using Some by (simp add: edge_def)
    then have "\<exists>b. edge x a b \<noteq> None" by (rule exI)
    with Some show ?thesis by simp
  qed (simp add: edge_def)
  show ?thesis
  proof (cases "map_of m a")
    case None
    then show ?thesis using some [OF assms(1)] some [OF assms(2)] other by fastforce
  next
    case (Some c)
    then obtain c' where c': "map_of m' a = Some c'" using some [OF assms(1)] some [OF assms(2)] other by fastforce
    have "map_of c = map_of c'" using other by (auto simp: edge_def Some c')
    with wf_table_lookup [OF assms(1) Some] wf_table_lookup [OF assms(2) c'] show ?thesis by (simp add: Some c')
  qed
qed

lemma predict_action_determined:
  assumes "tables_ok m" "tables_ok m'"
    and "\<And>a b n. edge (tm_action_sequences m) a b = Some n \<longleftrightarrow> edge (tm_action_sequences m') a b = Some n"
  shows "predict_action m last_act hints = predict_action m' last_act hints"
proof (cases last_act)
  case (Some a)
  have d: "case map_of (tm_action_sequences m) a of None \<Rightarrow> map_of (tm_action_sequences m') a = None
          | Some c \<Rightarrow> (\<exists>c'. map_of (tm_action_sequences m') a = Some c' \<and> wf_map c \<and> wf_map c' \<and> map_of c = map_of c' \<and> c \<noteq> [])"
    using assms by (intro tables_determined) (auto simp: tables_ok_def)
  show ?thesis
  proof (cases "map_of (tm_action_sequences m) a")
    case None
    then show ?thesis using d by (simp add: Some predict_action_def)
  next
    case c: (Some c)
    then obtain c' where c': "map_of (tm_action_sequences m') a = Some c'" "wf_map c" "wf_map c'" "map_of c = map_of c'" "c \<noteq> []"
      using d by auto
    then have "c' \<noteq> []" by auto
    with most_frequent_cong [OF c'(2-5)] c'(1,5) c show ?thesis by (simp add: Some predict_action_def)
  qed
qed (simp add: predict_action_def)

lemma read_records_concat:
  "read_records (length rs) (concat (map (\<lambda>(a, b, _). [a, b]) rs)) (map (\<lambda>(_, _, n). n) rs) = Inr rs"
  by (induction rs) auto

text \<open>The documented behaviour of the crate: a buffer that was finished reads back its two vectors.\<close>

definition reads_back :: "'fe flat_env \<Rightarrow> (ActionSignature \<times> ActionSignature \<times> u32) list \<Rightarrow> bool" where
  "reads_back fb rs \<longleftrightarrow>
     fb_root fb (encode_model fb rs) =
       Inr (Some (concat (map (\<lambda>(from, to, _). [from, to]) rs)), Some (map (\<lambda>(_, _, n). n) rs))"

lemma decode_encode:
  assumes "reads_back fb rs"
  shows "decode_model fb (encode_model fb rs) = Inr rs"
proof -
  have "length (concat (map (\<lambda>(a, b, _). [a, b]) rs)) = 2 * length rs" by (induction rs) auto
  then show ?thesis by (simp add: decode_model_def assms [unfolded reads_back_def] read_records_concat)
qed

section \<open>Correction\<close>

lemma wf_map_decrement [intro]: "wf_map targets \<Longrightarrow> wf_map (decrement stale targets)"
  by (auto simp: decrement_def split: option.split)

lemma map_of_decrement:
  "wf_map targets \<Longrightarrow> map_of (decrement stale targets) k =
     (case map_of targets k of
        None \<Rightarrow> None
      | Some n \<Rightarrow> if k = stale then (if n \<le> 1 then None else Some (n - 1)) else Some n)"
  by (auto simp: decrement_def map_of_delete split: option.splits)

lemma wf_table_forget: "wf_table (tm_state_transitions m) \<Longrightarrow> wf_table (tm_state_transitions (forget_edge h a stale m))"
  by (auto simp: forget_edge_def Let_def wf_table_lookup split: option.split intro!: wf_table_update)

lemma edge_forget:
  assumes "wf_table (tm_state_transitions m)"
  shows "edge (tm_state_transitions (forget_edge h a stale m)) k b =
    (case edge (tm_state_transitions m) k b of
       None \<Rightarrow> None
     | Some n \<Rightarrow> if k = (h, a) \<and> b = stale then (if n \<le> 1 then None else Some (n - 1)) else Some n)"
proof (cases "map_of (tm_state_transitions m) (h, a)")
  case None
  then show ?thesis by (auto simp: forget_edge_def edge_def split: option.splits)
next
  case (Some targets)
  from wf_table_lookup [OF assms Some] have wf: "wf_map targets" by simp
  show ?thesis
  proof (cases "k = (h, a)")
    case True
    have "edge (tm_state_transitions (forget_edge h a stale m)) k b = map_of (decrement stale targets) b"
      using assms Some True by (auto simp: forget_edge_def edge_def Let_def map_of_delete wf_table_def)
    then show ?thesis using Some True map_of_decrement [OF wf, of stale b]
      by (auto simp: edge_def split: option.splits)
  next
    case False
    then show ?thesis using assms Some
      by (auto simp: forget_edge_def edge_def Let_def map_of_delete wf_table_def split: option.splits)
  qed
qed

lemma sequences_forget [simp]: "tm_action_sequences (forget_edge h a stale m) = tm_action_sequences m"
  by (simp add: forget_edge_def Let_def split: option.split)

lemma record_edge_tables:
  "tm_state_transitions (record_edge h a t prior m) = add_edge (h, a) t 1 (tm_state_transitions m)"
  "tm_action_sequences (record_edge h a t prior m) =
     (case prior of Some p \<Rightarrow> add_edge p a 1 (tm_action_sequences m) | None \<Rightarrow> tm_action_sequences m)"
  by (simp_all add: record_edge_def Let_def split: option.split)

lemma tables_ok_record [intro]: "tables_ok m \<Longrightarrow> tables_ok (record_edge h a t prior m)"
  by (auto simp: tables_ok_def record_edge_tables split: option.split)

lemma tables_ok_correct [intro]: "tables_ok m \<Longrightarrow> tables_ok (correct_edge h a stale actual prior m)"
  unfolding correct_edge_def by (rule tables_ok_record) (simp add: tables_ok_def wf_table_forget)

lemma tables_ok_merge [intro]: "tables_ok m \<Longrightarrow> tables_ok (merge_action_sequences rs m)"
  by (simp add: tables_ok_def merge_action_sequences_def wf_table_merged)

lemma tables_ok_new [simp]: "tables_ok new_model"
  by (simp add: tables_ok_def new_model_def)

text \<open>
  A correction takes one count from the stale target and adds one to the actual one. A stale target
  that was seen more often stays in the table, and may stay the prediction.
\<close>

lemma correct_edge_counts:
  assumes "tables_ok m" "stale \<noteq> actual"
  shows "edge (tm_state_transitions (correct_edge h a stale actual prior m)) (h, a) stale =
      (case edge (tm_state_transitions m) (h, a) stale of
         None \<Rightarrow> None | Some n \<Rightarrow> if n \<le> 1 then None else Some (n - 1))"
    and "edge (tm_state_transitions (correct_edge h a stale actual prior m)) (h, a) actual =
      Some ((case edge (tm_state_transitions m) (h, a) actual of Some n \<Rightarrow> n | None \<Rightarrow> 0) + 1)"
  using assms edge_forget [of m h a stale]
  by (auto simp: correct_edge_def record_edge_tables edge_add_edge tables_ok_def split: option.splits)

lemma corrected_target_still_predicted:
  "let m = record_edge ''h'' ''a'' ''old'' None (record_edge ''h'' ''a'' ''old'' None (record_edge ''h'' ''a'' ''old'' None new_model))
   in map_option fst (predict_state (correct_edge ''h'' ''a'' ''old'' ''new'' None m) ''h'' ''a'') = Some ''old''"
  by code_simp

text \<open>Imported counts are not checked: two records that add up past the width leave a count of zero.\<close>

lemma imported_counts_wrap:
  "predict_action (merge_action_sequences [(''a'', ''b'', 0xFFFFFFFF), (''a'', ''b'', 1)] new_model) (Some ''a'') [] =
     Some (''b'', 0x7FF8000000000000)"
  by code_simp

section \<open>Runs of the engine\<close>

datatype engine_op =
    ObserveState SemanticState
  | RecordTransition string ActionSignature string
  | CorrectTransition string ActionSignature string string
  | VerifyPrediction u64 SpeculativePrediction SemanticState
  | ImportModel string
  | ClearActionCursor
  | AdvanceActionCursor ActionSignature
  | ResetSession
  | RecoverPoisoned

fun engine_step :: "'fe flat_env \<Rightarrow> SpeculativeInner \<Rightarrow> engine_op \<Rightarrow> SpeculativeInner" where
  "engine_step fb inner (ObserveState s) = observe_state s inner"
| "engine_step fb inner (RecordTransition h a t) = record_transition h a t inner"
| "engine_step fb inner (CorrectTransition h a stale actual) = correct_transition h a stale actual inner"
| "engine_step fb inner (VerifyPrediction now p s) = snd (verify_prediction now p s inner)"
| "engine_step fb inner (ImportModel bytes) = snd (import_model fb bytes inner)"
| "engine_step fb inner ClearActionCursor = clear_action_cursor inner"
| "engine_step fb inner (AdvanceActionCursor a) = advance_action_cursor a inner"
| "engine_step fb inner ResetSession = reset_session inner"
| "engine_step fb inner RecoverPoisoned = recover_poisoned inner"

definition engine_run :: "'fe flat_env \<Rightarrow> DomainHint list \<Rightarrow> engine_op list \<Rightarrow> SpeculativeInner" where
  "engine_run fb hints ops = foldl (engine_step fb) (new_inner hints) ops"

text \<open>The state last observed with a hash since the session began.\<close>

fun observe_op :: "(string \<rightharpoonup> SemanticState) \<Rightarrow> engine_op \<Rightarrow> (string \<rightharpoonup> SemanticState)" where
  "observe_op f (ObserveState s) = f(ss_state_hash s \<mapsto> s)"
| "observe_op f ResetSession = Map.empty"
| "observe_op f RecoverPoisoned = Map.empty"
| "observe_op f _ = f"

definition last_observed :: "engine_op list \<Rightarrow> (string \<rightharpoonup> SemanticState)" where
  "last_observed ops = foldl observe_op Map.empty ops"

definition keyed :: "(string \<rightharpoonup> SemanticState) \<Rightarrow> bool" where
  "keyed seen \<longleftrightarrow> (\<forall>h s. seen h = Some s \<longrightarrow> ss_state_hash s = h)"

lemma keyed_update [intro]: "keyed seen \<Longrightarrow> keyed (seen(ss_state_hash s \<mapsto> s))"
  by (auto simp: keyed_def)

definition engine_ok :: "(string \<rightharpoonup> SemanticState) \<Rightarrow> SpeculativeInner \<Rightarrow> bool" where
  "engine_ok seen inner \<longleftrightarrow>
     tables_ok (in_model inner) \<and>
     wf_map (in_snapshot_cache inner) \<and> distinct (in_snapshot_order inner) \<and>
     set (in_snapshot_order inner) = dom (map_of (in_snapshot_cache inner)) \<and>
     length (in_snapshot_order inner) \<le> SNAPSHOT_CACHE_CAPACITY \<and>
     length (in_mismatch_log inner) \<le> MISMATCH_LOG_CAPACITY \<and>
     map_of (in_snapshot_cache inner) \<subseteq>\<^sub>m seen \<and> keyed seen"

interpretation mismatches: bounded_log push_mismatch MISMATCH_LOG_CAPACITY
  by unfold_locales (auto simp: push_mismatch_def MISMATCH_LOG_CAPACITY_def)

lemma engine_ok_observe:
  assumes "engine_ok seen inner"
  shows "engine_ok (seen(ss_state_hash s \<mapsto> s)) (observe_state s inner)"
proof -
  let ?h = "ss_state_hash s" and ?c = "in_snapshot_cache inner" and ?o = "in_snapshot_order inner"
  have wf: "wf_map ?c" and d: "distinct ?o" and k: "set ?o = dom (map_of ?c)" and le: "map_of ?c \<subseteq>\<^sub>m seen"
    and b: "length ?o \<le> SNAPSHOT_CACHE_CAPACITY" using assms by (simp_all add: engine_ok_def)
  have seen: "map_of (AList.update ?h s ?c) \<subseteq>\<^sub>m seen(?h \<mapsto> s)"
    using le by (auto simp: map_le_def update_conv' dom_def)
  have shrink: "map_of (AList.delete k m) \<subseteq>\<^sub>m map_of m" for k and m :: "(string \<times> SemanticState) list"
    by (auto simp: map_le_def delete_conv')
  have rest: "tables_ok (in_model (observe_state s inner)) \<and> length (in_mismatch_log (observe_state s inner)) \<le> MISMATCH_LOG_CAPACITY"
    using assms by (auto simp: engine_ok_def observe_state_def Let_def split: list.split)
  have hashes: "keyed (seen(?h \<mapsto> s))" using assms by (auto simp: engine_ok_def)
  show ?thesis
  proof (cases "map_of ?c ?h")
    case (Some x)
    then have "observe_state s inner = inner\<lparr>in_snapshot_cache := AList.update ?h s ?c\<rparr>"
      by (simp add: observe_state_def Let_def)
    moreover have "dom (map_of (AList.update ?h s ?c)) = dom (map_of ?c)"
      using domI [of "map_of ?c", OF Some] by (simp add: update_conv' insert_absorb)
    ultimately show ?thesis using rest hashes wf_map_update [OF wf] d k b seen by (simp add: engine_ok_def)
  next
    case None
    then have new: "?h \<notin> set ?o" using k by auto
    have keys: "set (?o @ [?h]) = dom (map_of (AList.update ?h s ?c))" using k by (auto simp: update_conv')
    show ?thesis
    proof (cases "SNAPSHOT_CACHE_CAPACITY < length (?o @ [?h])")
      case False
      then have "observe_state s inner = inner\<lparr>in_snapshot_cache := AList.update ?h s ?c, in_snapshot_order := ?o @ [?h]\<rparr>"
        using None by (simp add: observe_state_def Let_def)
      then show ?thesis using rest hashes wf_map_update [OF wf] d new keys seen False by (simp add: engine_ok_def)
    next
      case True
      then obtain oldest order' where o: "?o = oldest # order'"
        using b by (cases ?o) (auto simp: SNAPSHOT_CACHE_CAPACITY_def)
      then have eq: "observe_state s inner = inner\<lparr>in_snapshot_cache := AList.delete oldest (AList.update ?h s ?c),
          in_snapshot_order := order' @ [?h]\<rparr>"
        using True None by (simp add: observe_state_def Let_def)
      have "set (order' @ [?h]) = dom (map_of (AList.delete oldest (AList.update ?h s ?c)))"
        using keys d new by (auto simp: o delete_conv' update_conv' split: if_splits)
      moreover have "map_of (AList.delete oldest (AList.update ?h s ?c)) \<subseteq>\<^sub>m seen(?h \<mapsto> s)"
        by (rule map_le_trans [OF shrink seen])
      moreover have "wf_map (AList.delete oldest (AList.update ?h s ?c))" using wf by blast
      moreover have "distinct (order' @ [?h])" "length (order' @ [?h]) \<le> SNAPSHOT_CACHE_CAPACITY"
        using d new b by (auto simp: o)
      ultimately show ?thesis using rest hashes unfolding eq by (simp add: engine_ok_def)
    qed
  qed
qed

lemma engine_ok_step: "engine_ok seen inner \<Longrightarrow> engine_ok (observe_op seen op) (engine_step fb inner op)"
proof (cases op)
  case (ObserveState s)
  assume "engine_ok seen inner"
  from engine_ok_observe [OF this] show ?thesis by (simp add: ObserveState)
next
  case (VerifyPrediction now p s)
  assume "engine_ok seen inner"
  then show ?thesis using mismatches.length_push
    by (auto simp: VerifyPrediction engine_ok_def verify_prediction_def Let_def split: option.split)
next
  case (ImportModel bytes)
  assume "engine_ok seen inner"
  then show ?thesis by (auto simp: ImportModel engine_ok_def import_model_def split: sum.split)
qed (auto simp: engine_ok_def record_transition_def correct_transition_def clear_action_cursor_def
    advance_action_cursor_def reset_session_def recover_poisoned_def new_inner_def keyed_def)

lemma engine_ok_run: "engine_ok (last_observed ops) (engine_run fb hints ops)"
proof -
  have "engine_ok seen inner \<Longrightarrow> engine_ok (foldl observe_op seen ops) (foldl (engine_step fb) inner ops)" for seen inner
    by (induction ops arbitrary: seen inner) (auto intro: engine_ok_step)
  moreover have "engine_ok Map.empty (new_inner hints)"
    by (simp add: engine_ok_def new_inner_def keyed_def)
  ultimately show ?thesis unfolding last_observed_def engine_run_def by blast
qed



section \<open>Examples\<close>

text \<open>A buffer format for tables of one record with short names, enough for an example.\<close>

definition small_flat :: "unit flat_env" where
  "small_flat = \<lparr>fb_finish = (\<lambda>names ns. case (names, ns) of ([[x], [y]], [n]) \<Rightarrow> [x, y, char_of (unat n)] | _ \<Rightarrow> []),
     fb_root = (\<lambda>bytes. case bytes of [x, y, n] \<Rightarrow> Inr (Some [[x], [y]], Some [of_char n]) | _ \<Rightarrow> Inl ())\<rparr>"

definition page_state :: "string \<Rightarrow> SemanticState" where
  "page_state hash = \<lparr>ss_page_instance_id = ''first'', ss_state_hash = hash, ss_timestamp = 1,
     ss_load_profile = Interactive, ss_root = leaf ''main'' ''Page'' None 1\<rparr>"

definition two_actions :: "engine_op list" where
  "two_actions = [RecordTransition ''h0'' ''a'' ''h1'', RecordTransition ''h1'' ''b'' ''h2'', ObserveState (page_state ''h2'')]"



end
