(* ===== verification/Nav_Url.thy ===== *)
theory Nav_Url
  imports Prelude
begin

text \<open>
  The validation of navigation URLs, \<open>browser/navigation.rs\<close>: which addresses are public, the
  checks of a URL and the digest a redirect is approved under. The \<open>url\<close> crate, the resolver of
  host names and SHA-256 are parameters; the addresses are words of the standard library.
\<close>

unbundle bit_operations_syntax

section \<open>Network classes of addresses\<close>

datatype IpAddr = V4 "32 word" | V6 "128 word"

text \<open>The closures \<open>in_prefix\<close> of both functions: the first \<open>bits\<close> bits agree.\<close>

definition in_prefix :: "'a::len word \<Rightarrow> nat \<Rightarrow> 'a word \<Rightarrow> bool" where
  "in_prefix network bits value =
     (let mask = if bits = 0 then 0 else push_bit (LENGTH('a) - bits) (- 1)
      in value AND mask = network AND mask)"

definition octets :: "32 word \<Rightarrow> 8 word list" where
  "octets a = map (\<lambda>shift. ucast (drop_bit shift a)) [24, 16, 8, 0]"

definition is_global_ipv4 :: "32 word \<Rightarrow> bool" where
  "is_global_ipv4 address =
     (if in_prefix 0x00000000 8 address
       \<or> in_prefix 0x0a000000 8 address
       \<or> in_prefix 0x64400000 10 address
       \<or> in_prefix 0x7f000000 8 address
       \<or> in_prefix 0xa9fe0000 16 address
       \<or> in_prefix 0xac100000 12 address
       \<or> in_prefix 0xc0000200 24 address
       \<or> in_prefix 0xc0586300 24 address
       \<or> in_prefix 0xc0a80000 16 address
       \<or> in_prefix 0xc6120000 15 address
       \<or> in_prefix 0xc6336400 24 address
       \<or> in_prefix 0xcb007100 24 address
       \<or> in_prefix 0xe0000000 4 address
       \<or> in_prefix 0xf0000000 4 address
      then False
      else if in_prefix 0xc0000000 24 address
      then octets address = [192, 0, 0, 9] \<or> octets address = [192, 0, 0, 10]
      else True)"

definition segments :: "128 word \<Rightarrow> 16 word list" where
  "segments a = map (\<lambda>shift. ucast (drop_bit shift a)) [112, 96, 80, 64, 48, 32, 16, 0]"

text \<open>\<open>Ipv6Addr::to_ipv4_mapped\<close>, \<open>is_unspecified\<close> and \<open>is_loopback\<close>\<close>

definition to_ipv4_mapped :: "128 word \<Rightarrow> 32 word option" where
  "to_ipv4_mapped a = (if take 6 (segments a) = [0, 0, 0, 0, 0, 0xffff] then Some (ucast a) else None)"

definition is_unspecified :: "128 word \<Rightarrow> bool" where
  "is_unspecified a \<longleftrightarrow> a = 0"

definition is_loopback6 :: "128 word \<Rightarrow> bool" where
  "is_loopback6 a \<longleftrightarrow> a = 1"

definition is_global_ipv6 :: "128 word \<Rightarrow> bool" where
  "is_global_ipv6 address =
     (if to_ipv4_mapped address \<noteq> None then False
      else if is_unspecified address
       \<or> is_loopback6 address
       \<or> take 6 (segments address) = [0, 0, 0, 0, 0, 0]
       \<or> take 6 (segments address) = [0, 0, 0, 0, 0xffff, 0]
       \<or> in_prefix 0x0064ff9b000100000000000000000000 48 address
       \<or> in_prefix 0x01000000000000000000000000000000 64 address
       \<or> in_prefix 0x20020000000000000000000000000000 16 address
       \<or> in_prefix 0x20010db8000000000000000000000000 32 address
       \<or> in_prefix 0x3fff0000000000000000000000000000 20 address
       \<or> in_prefix 0x5f000000000000000000000000000000 16 address
       \<or> in_prefix 0xfc000000000000000000000000000000 7 address
       \<or> in_prefix 0xfe800000000000000000000000000000 10 address
       \<or> in_prefix 0xfec00000000000000000000000000000 10 address
       \<or> in_prefix 0xff000000000000000000000000000000 8 address
      then False
      else if in_prefix 0x20010000000000000000000000000000 23 address
      then address = 0x20010001000000000000000000000001
         \<or> address = 0x20010001000000000000000000000002
         \<or> in_prefix 0x20010003000000000000000000000000 32 address
         \<or> in_prefix 0x20010004011200000000000000000000 48 address
         \<or> in_prefix 0x20010020000000000000000000000000 28 address
         \<or> in_prefix 0x20010030000000000000000000000000 28 address
      else True)"

definition is_global_address :: "IpAddr \<Rightarrow> bool" where
  "is_global_address address = (case address of V4 a \<Rightarrow> is_global_ipv4 a | V6 a \<Rightarrow> is_global_ipv6 a)"

section \<open>The registries as ranges\<close>

text \<open>
  The special purpose registries as ranges of addresses, with the ranges inside them that are
  globally reachable: the reference the bit masks are compared with.
\<close>

definition in_ranges :: "(nat \<times> nat) list \<Rightarrow> 'a::len word \<Rightarrow> bool" where
  "in_ranges rs v \<longleftrightarrow> list_ex (\<lambda>(lo, hi). lo \<le> unat v \<and> unat v \<le> hi) rs"

definition quad :: "nat \<Rightarrow> nat \<Rightarrow> nat \<Rightarrow> nat \<Rightarrow> nat" where
  "quad a b c d = ((a * 256 + b) * 256 + c) * 256 + d"

definition special_ipv4 :: "(nat \<times> nat) list" where
  "special_ipv4 =
     [(quad 0 0 0 0, quad 0 255 255 255), (quad 10 0 0 0, quad 10 255 255 255),
      (quad 100 64 0 0, quad 100 127 255 255), (quad 127 0 0 0, quad 127 255 255 255),
      (quad 169 254 0 0, quad 169 254 255 255), (quad 172 16 0 0, quad 172 31 255 255),
      (quad 192 0 0 0, quad 192 0 0 255), (quad 192 0 2 0, quad 192 0 2 255),
      (quad 192 88 99 0, quad 192 88 99 255), (quad 192 168 0 0, quad 192 168 255 255),
      (quad 198 18 0 0, quad 198 19 255 255), (quad 198 51 100 0, quad 198 51 100 255),
      (quad 203 0 113 0, quad 203 0 113 255), (quad 224 0 0 0, quad 239 255 255 255),
      (quad 240 0 0 0, quad 255 255 255 255)]"

definition reachable_ipv4 :: "(nat \<times> nat) list" where
  "reachable_ipv4 = [(quad 192 0 0 9, quad 192 0 0 10)]"

text \<open>The addresses whose first groups are the given ones.\<close>

definition groups :: "nat \<Rightarrow> nat list \<Rightarrow> nat" where
  "groups fill gs = foldl (\<lambda>n g. n * 65536 + g) 0 (gs @ replicate (8 - length gs) fill)"

definition span :: "nat list \<Rightarrow> nat list \<Rightarrow> nat \<times> nat" where
  "span lo hi = (groups 0 lo, groups 0xffff hi)"

definition special_ipv6 :: "(nat \<times> nat) list" where
  "special_ipv6 =
     [span [0, 0, 0, 0, 0, 0] [0, 0, 0, 0, 0, 0], span [0, 0, 0, 0, 0, 0xffff] [0, 0, 0, 0, 0, 0xffff],
      span [0, 0, 0, 0, 0xffff, 0] [0, 0, 0, 0, 0xffff, 0], span [0x64, 0xff9b, 1] [0x64, 0xff9b, 1],
      span [0x100, 0, 0, 0] [0x100, 0, 0, 0], span [0x2001, 0] [0x2001, 0x1ff],
      span [0x2001, 0xdb8] [0x2001, 0xdb8], span [0x2002] [0x2002],
      span [0x3fff, 0] [0x3fff, 0xfff], span [0x5f00] [0x5f00],
      span [0xfc00] [0xfdff], span [0xfe80] [0xfebf], span [0xfec0] [0xfeff], span [0xff00] [0xffff]]"

definition reachable_ipv6 :: "(nat \<times> nat) list" where
  "reachable_ipv6 =
     [span [0x2001, 1, 0, 0, 0, 0, 0, 1] [0x2001, 1, 0, 0, 0, 0, 0, 1],
      span [0x2001, 1, 0, 0, 0, 0, 0, 2] [0x2001, 1, 0, 0, 0, 0, 0, 2],
      span [0x2001, 3] [0x2001, 3], span [0x2001, 4, 0x112] [0x2001, 4, 0x112],
      span [0x2001, 0x20] [0x2001, 0x2f], span [0x2001, 0x30] [0x2001, 0x3f]]"

lemma masked_eq_iff:
  fixes a b :: "'a::len word"
  shows "a AND NOT (mask k) = b AND NOT (mask k) \<longleftrightarrow> drop_bit k a = drop_bit k b"
proof
  assume h: "a AND NOT (mask k) = b AND NOT (mask k)"
  have "bit a (k + i) \<longleftrightarrow> bit b (k + i)" if "k + i < LENGTH('a)" for i
    using h [THEN bit_eq_iff [THEN iffD1], rule_format, of "k + i"] that
    by (simp add: bit_and_iff bit_not_iff bit_mask_iff)
  then show "drop_bit k a = drop_bit k b"
    by (intro bit_word_eqI) (auto simp: bit_drop_bit_eq dest: bit_imp_le_length)
next
  assume h: "drop_bit k a = drop_bit k b"
  have "bit a i \<longleftrightarrow> bit b i" if "k \<le> i" "i < LENGTH('a)" for i
    using h [THEN bit_eq_iff [THEN iffD1], rule_format, of "i - k"] that by (simp add: bit_drop_bit_eq)
  then show "a AND NOT (mask k) = b AND NOT (mask k)"
    by (intro bit_word_eqI) (auto simp: bit_and_iff bit_not_iff bit_mask_iff)
qed

lemma div_eq_range_iff:
  fixes n m d :: nat
  assumes "0 < d"
  shows "n div d = m \<longleftrightarrow> m * d \<le> n \<and> n \<le> m * d + (d - 1)"
proof -
  have "n div d = m \<longleftrightarrow> m * d \<le> n \<and> n < Suc m * d" using assms
    by (metis div_nat_eqI dividend_less_div_times div_times_less_eq_dividend mult.commute mult_Suc add.commute)
  then show ?thesis using assms by auto
qed

lemma unat_drop_bit: "unat (drop_bit k w) = unat w div 2 ^ k"
  using unat_drop_bit_eq [of k w] by (simp add: drop_bit_eq_div)

lemma in_prefix_range:
  fixes n v :: "'a::len word"
  assumes "0 < bits" "bits \<le> LENGTH('a)"
  defines "d \<equiv> 2 ^ (LENGTH('a) - bits)"
  shows "in_prefix n bits v \<longleftrightarrow> unat n div d * d \<le> unat v \<and> unat v \<le> unat n div d * d + (d - 1)"
proof -
  have "in_prefix n bits v \<longleftrightarrow> drop_bit (LENGTH('a) - bits) v = drop_bit (LENGTH('a) - bits) n"
    using assms(1) by (simp add: in_prefix_def Let_def masked_eq_iff)
  also have "\<dots> \<longleftrightarrow> unat v div d = unat n div d"
    by (simp only: word_unat_eq_iff unat_drop_bit d_def)
  finally show ?thesis by (simp add: div_eq_range_iff d_def)
qed

lemma in_ranges_simps:
  "in_ranges [] v \<longleftrightarrow> False"
  "in_ranges ((lo, hi) # rs) v \<longleftrightarrow> lo \<le> unat v \<and> unat v \<le> hi \<or> in_ranges rs v"
  by (simp_all add: in_ranges_def)

lemma ucast_drop_eq_iff:
  fixes a :: "'a::len word" and g :: "'b::len word"
  shows "ucast (drop_bit k a) = g \<longleftrightarrow> unat a div 2 ^ k mod 2 ^ LENGTH('b) = unat g"
  by (simp only: word_unat_eq_iff unsigned_ucast_eq unat_drop_bit take_bit_eq_mod)

lemma ucast_eq_iff:
  fixes a :: "'a::len word" and g :: "'b::len word"
  shows "ucast a = g \<longleftrightarrow> unat a mod 2 ^ LENGTH('b) = unat g"
  using ucast_drop_eq_iff [of 0 a g] by simp

lemma digit_iff:
  fixes n m b c :: nat
  assumes "c < b"
  shows "n = m * b + c \<longleftrightarrow> n div b = m \<and> n mod b = c"
  using assms by auto

lemma digits4_iff:
  fixes n b :: nat
  assumes "x < b" "y < b" "z < b"
  shows "n = ((w * b + x) * b + y) * b + z \<longleftrightarrow>
    n div b div b div b = w \<and> n div b div b mod b = x \<and> n div b mod b = y \<and> n mod b = z"
  using assms by (simp only: digit_iff conj_assoc)

lemma octets_iff:
  "octets a = [w, x, y, z] \<longleftrightarrow> unat a = quad (unat w) (unat x) (unat y) (unat z)"
proof -
  have a: "unat a < 256 ^ 4" using unsigned_less [of a] by simp
  have b: "unat g < 256" for g :: "8 word" using unsigned_less [of g] by simp
  have "unat a div 2 ^ 24 mod 256 = unat a div 256 div 256 div 256" using a by (simp add: div_mult2_eq [symmetric])
  then show ?thesis
    unfolding quad_def digits4_iff [OF b b b]
    by (simp add: octets_def unat_drop_bit ucast_eq_iff div_mult2_eq [symmetric])
qed

lemma segments_iff:
  "take 6 (segments a) = [r, s, t, u, v, w] \<longleftrightarrow>
     unat a div 4294967296 =
       ((((unat r * 65536 + unat s) * 65536 + unat t) * 65536 + unat u) * 65536 + unat v) * 65536 + unat w"
proof -
  have a: "unat a < 2 ^ 128" using unsigned_less [of a] by simp
  have b: "unat g < 65536" for g :: "16 word" using unsigned_less [of g] by simp
  have "unat a div 2 ^ 112 mod 65536 = unat a div 4294967296 div 65536 div 65536 div 65536 div 65536 div 65536"
    using a by (simp add: div_mult2_eq [symmetric])
  then show ?thesis
    unfolding digits4_iff [OF b b b] digit_iff [OF b]
    by (simp add: segments_def ucast_drop_eq_iff div_mult2_eq [symmetric])
qed

lemma replicate_num: "replicate (numeral v) x = x # replicate (pred_numeral v) x"
  by (simp add: numeral_eq_Suc)

lemmas range_simps = replicate_num in_prefix_range in_ranges_simps octets_iff segments_iff quad_def groups_def span_def

lemma is_global_ipv4_iff:
  "is_global_ipv4 a \<longleftrightarrow> \<not> in_ranges special_ipv4 a \<or> in_ranges reachable_ipv4 a"
proof (cases "in_ranges reachable_ipv4 a")
  case True
  then have "unat a = 3221225481 \<or> unat a = 3221225482"
    by (simp add: reachable_ipv4_def range_simps) linarith
  with True show ?thesis by (auto simp: is_global_ipv4_def range_simps)
next
  case False
  then have "octets a \<noteq> [192, 0, 0, 9]" "octets a \<noteq> [192, 0, 0, 10]"
    by (auto simp: reachable_ipv4_def range_simps)
  with False show ?thesis
    by (simp add: is_global_ipv4_def special_ipv4_def range_simps del: octets_iff)
qed

lemmas ipv6_simps = is_global_ipv6_def to_ipv4_mapped_def is_unspecified_def is_loopback6_def word_unat_eq_iff

lemma is_global_ipv6_iff:
  "is_global_ipv6 a \<longleftrightarrow> \<not> in_ranges special_ipv6 a \<or> in_ranges reachable_ipv6 a"
proof (cases "in_ranges reachable_ipv6 a")
  case True
  then have "groups 0 [0x2001, 1] \<le> unat a \<and> unat a \<le> groups 0xffff [0x2001, 0x3f]"
    by (simp add: reachable_ipv6_def range_simps) linarith
  then have "is_global_ipv6 a \<longleftrightarrow> in_ranges reachable_ipv6 a"
    by (simp add: ipv6_simps reachable_ipv6_def range_simps div_eq_range_iff) (simp add: eq_iff)
  with True show ?thesis by simp
next
  case False
  then have "a \<noteq> 0x20010001000000000000000000000001" "a \<noteq> 0x20010001000000000000000000000002"
     "\<not> in_prefix 0x20010003000000000000000000000000 32 a" "\<not> in_prefix 0x20010004011200000000000000000000 48 a"
     "\<not> in_prefix 0x20010020000000000000000000000000 28 a" "\<not> in_prefix 0x20010030000000000000000000000000 28 a"
    by (auto simp: reachable_ipv6_def range_simps word_unat_eq_iff)
  with False have "is_global_ipv6 a \<longleftrightarrow> \<not> in_ranges special_ipv6 a"
    by (simp add: is_global_ipv6_def special_ipv6_def range_simps div_eq_range_iff to_ipv4_mapped_def
        is_unspecified_def is_loopback6_def)
  with False show ?thesis by simp
qed

section \<open>How addresses are written\<close>

fun show_hex :: "nat \<Rightarrow> string" where
  "show_hex n = (if n < 16 then [''0123456789abcdef'' ! n] else show_hex (n div 16) @ [''0123456789abcdef'' ! (n mod 16)])"

declare show_hex.simps [simp del]

definition show_ipv4 :: "32 word \<Rightarrow> string" where
  "show_ipv4 a = join ''.'' (map (\<lambda>b. show_int (uint b)) (octets a))"

text \<open>The first longest run of zero groups: its start and its length.\<close>

fun zero_run :: "nat \<Rightarrow> 16 word list \<Rightarrow> nat \<times> nat \<Rightarrow> nat \<times> nat \<Rightarrow> nat \<times> nat" where
  "zero_run i [] current longest = longest"
| "zero_run i (g # gs) current longest =
     (if g = 0 then
        (let current = (if snd current = 0 then i else fst current, snd current + 1)
         in zero_run (Suc i) gs current (if snd current > snd longest then current else longest))
      else zero_run (Suc i) gs (0, 0) longest)"

definition show_groups :: "16 word list \<Rightarrow> string" where
  "show_groups gs = join '':'' (map (\<lambda>g. show_hex (unat g)) gs)"

definition show_ipv6 :: "128 word \<Rightarrow> string" where
  "show_ipv6 a =
     (case to_ipv4_mapped a of
        Some v4 \<Rightarrow> ''::ffff:'' @ show_ipv4 v4
      | None \<Rightarrow>
          (case zero_run 0 (segments a) (0, 0) (0, 0) of
             (start, len) \<Rightarrow>
               if len > 1 then show_groups (take start (segments a)) @ ''::'' @ show_groups (drop (start + len) (segments a))
               else show_groups (segments a)))"

section \<open>Validation of a URL\<close>

text \<open>
  The \<open>url\<close> crate: a parsed URL is a value of the type \<open>'u\<close>, read and changed with the methods
  the code calls. A domain is its host name.
\<close>

datatype Host = Domain string | HostV4 "32 word" | HostV6 "128 word"

record 'u url_lib =
  ul_parse :: "string \<Rightarrow> 'u option"
  ul_scheme :: "'u \<Rightarrow> string"
  ul_host :: "'u \<Rightarrow> Host option"
  ul_username :: "'u \<Rightarrow> string"
  ul_password :: "'u \<Rightarrow> string option"
  ul_port :: "'u \<Rightarrow> 16 word option"
  ul_port_or_known_default :: "'u \<Rightarrow> 16 word option"
  ul_path :: "'u \<Rightarrow> string"
  ul_as_str :: "'u \<Rightarrow> string"
  ul_clear_fragment :: "'u \<Rightarrow> 'u"
  ul_set_host :: "'u \<Rightarrow> string \<Rightarrow> 'u option"

definition MAX_PUBLIC_NAVIGATION_URL_BYTES :: nat where
  "MAX_PUBLIC_NAVIGATION_URL_BYTES = 8192"

datatype NavigationNetworkPolicy = PublicOnly | AllowPrivate

datatype NavigationValidationError =
    EmptyUrl
  | TooLong nat
  | InvalidUrl
  | CredentialsNotAllowed
  | ResolutionFailed
  | NonPublicAddress

record ValidatedNavigationUrl =
  vu_canonical_url :: string
  vu_sanitized_projection :: string
  vu_destination_digest :: string

definition trim_end_dots :: "string \<Rightarrow> string" where
  "trim_end_dots s = rev (dropWhile (\<lambda>c. c = CHR ''.'') (rev s))"

definition canonical_host :: "'u url_lib \<Rightarrow> 'u \<Rightarrow> NavigationValidationError + 'u" where
  "canonical_host lib url =
     (case ul_host lib url of
        Some (Domain host) \<Rightarrow>
          (let canonical = trim_end_dots host
           in if canonical = [] then Inl InvalidUrl
              else if canonical \<noteq> host then
                (case ul_set_host lib url canonical of None \<Rightarrow> Inl InvalidUrl | Some u \<Rightarrow> Inr u)
              else Inr url)
      | _ \<Rightarrow> Inr url)"

text \<open>The check of the destination; \<open>expect("host checked above")\<close> panics without a host.\<close>

definition destination_addresses ::
  "'u url_lib \<Rightarrow> (string \<Rightarrow> 16 word \<Rightarrow> IpAddr list option) \<Rightarrow> 'u \<Rightarrow>
   (NavigationValidationError + IpAddr list) call" where
  "destination_addresses lib resolver url =
     (case ul_host lib url of
        None \<Rightarrow> Panic
      | Some (HostV4 a) \<Rightarrow> Ret (Inr [V4 a])
      | Some (HostV6 a) \<Rightarrow> Ret (Inr [V6 a])
      | Some (Domain host) \<Rightarrow>
          Ret (case resolver host (case ul_port_or_known_default lib url of None \<Rightarrow> 80 | Some p \<Rightarrow> p) of
                 None \<Rightarrow> Inl ResolutionFailed
               | Some addresses \<Rightarrow> Inr addresses))"

definition check_destination ::
  "'u url_lib \<Rightarrow> (string \<Rightarrow> 16 word \<Rightarrow> IpAddr list option) \<Rightarrow> NavigationNetworkPolicy \<Rightarrow> 'u \<Rightarrow>
   (NavigationValidationError + unit) call" where
  "check_destination lib resolver policy url =
     (if policy = PublicOnly then
        call_map (\<lambda>r. res_bind r (\<lambda>addresses.
            if addresses = [] then Inl ResolutionFailed
            else ensure (list_all is_global_address addresses) NonPublicAddress))
          (destination_addresses lib resolver url)
      else Ret (Inr ()))"

definition sanitized_projection :: "'u url_lib \<Rightarrow> 'u \<Rightarrow> string call" where
  "sanitized_projection lib url =
     (case ul_host lib url of
        None \<Rightarrow> Panic
      | Some h \<Rightarrow>
          (let host = (case h of Domain d \<Rightarrow> d | HostV4 a \<Rightarrow> show_ipv4 a | HostV6 a \<Rightarrow> ''['' @ show_ipv6 a @ '']'');
               port = (case ul_port lib url of None \<Rightarrow> [] | Some p \<Rightarrow> '':'' @ show_int (uint p))
           in Ret (ul_scheme lib url @ ''://'' @ host @ port @ ul_path lib url)))"

definition check_url :: "'u url_lib \<Rightarrow> string \<Rightarrow> NavigationValidationError + 'u" where
  "check_url lib input =
     (if input = [] then Inl EmptyUrl
      else if length input > MAX_PUBLIC_NAVIGATION_URL_BYTES then Inl (TooLong MAX_PUBLIC_NAVIGATION_URL_BYTES)
      else case ul_parse lib input of
          None \<Rightarrow> Inl InvalidUrl
        | Some url \<Rightarrow>
            if ul_scheme lib url \<notin> {''http'', ''https''} \<or> ul_host lib url = None then Inl InvalidUrl
            else if ul_username lib url \<noteq> [] \<or> ul_password lib url \<noteq> None then Inl CredentialsNotAllowed
            else canonical_host lib (ul_clear_fragment lib url))"

definition validate_public_navigation_url_with ::
  "'u url_lib \<Rightarrow> (string \<Rightarrow> string) \<Rightarrow> string \<Rightarrow> NavigationNetworkPolicy \<Rightarrow>
   (string \<Rightarrow> 16 word \<Rightarrow> IpAddr list option) \<Rightarrow> (NavigationValidationError + ValidatedNavigationUrl) call" where
  "validate_public_navigation_url_with lib sha input policy resolver =
     (case check_url lib input of
        Inl e \<Rightarrow> Ret (Inl e)
      | Inr url \<Rightarrow>
          call_bind (check_destination lib resolver policy url) (\<lambda>checked.
            case checked of
              Inl e \<Rightarrow> Ret (Inl e)
            | Inr _ \<Rightarrow>
                call_map (\<lambda>projection.
                    Inr \<lparr>vu_canonical_url = ul_as_str lib url, vu_sanitized_projection = projection,
                         vu_destination_digest = sha (ul_as_str lib url)\<rparr>)
                  (sanitized_projection lib url)))"

section \<open>The digest of a redirect\<close>

text \<open>\<open>usize::to_be_bytes\<close> on a 64-bit target\<close>

definition to_be_bytes :: "u64 \<Rightarrow> string" where
  "to_be_bytes n = map (\<lambda>shift. char_of (uint (ucast (drop_bit shift n) :: 8 word))) [56, 48, 40, 32, 24, 16, 8, 0]"

definition redirect_preimage :: "string \<Rightarrow> string \<Rightarrow> string" where
  "redirect_preimage original destination =
     ''dragon-head:navigate-redirect:v1'' @ [CHR 0x00] @
     to_be_bytes (of_nat (length original)) @ original @
     to_be_bytes (of_nat (length destination)) @ destination"

definition redirect_approval_digest :: "(string \<Rightarrow> string) \<Rightarrow> string \<Rightarrow> string \<Rightarrow> string" where
  "redirect_approval_digest sha original destination = sha (redirect_preimage original destination)"

section \<open>What validation guarantees\<close>

text \<open>An address outside every special purpose range of the registries, or in a reachable part of one.\<close>

definition public_address :: "IpAddr \<Rightarrow> bool" where
  "public_address x = (case x of
     V4 a \<Rightarrow> \<not> in_ranges special_ipv4 a \<or> in_ranges reachable_ipv4 a
   | V6 a \<Rightarrow> \<not> in_ranges special_ipv6 a \<or> in_ranges reachable_ipv6 a)"

lemma is_global_address_iff: "is_global_address x \<longleftrightarrow> public_address x"
  by (simp add: is_global_address_def public_address_def is_global_ipv4_iff is_global_ipv6_iff split: IpAddr.split)

text \<open>
  C11: The bit masks of \<open>is_global_ipv4\<close> and \<open>is_global_ipv6\<close> accept exactly the addresses that the
  registries, written as ranges of addresses, leave public: an address is global if and only if it
  is in none of the special purpose ranges or in a part of one that is reachable.
\<close>

theorem global_addresses_are_public: "is_global_address = public_address"
  by (rule ext) (rule is_global_address_iff)

text \<open>The translation prefix of RFC 6052 counts as public, whatever IPv4 address it carries.\<close>

lemma translated_addresses_are_public: "is_global_ipv6 (0x0064ff9b000000000000000000000000 + ucast (a :: 32 word))"
proof -
  have a: "unat a < 4294967296" using unsigned_less [of a] by simp
  have "unat (0x0064ff9b000000000000000000000000 + ucast a :: 128 word) = 0x0064ff9b000000000000000000000000 + unat a"
    using a by (simp add: unat_word_ariths unsigned_ucast_eq take_bit_eq_mod)
  then show ?thesis using a
    by (simp add: is_global_ipv6_iff special_ipv6_def range_simps)
qed

text \<open>
  What the code relies on of the \<open>url\<close> crate: removing the fragment keeps the scheme, the host and
  the credentials; replacing the host keeps the scheme and the credentials, and leaves a host.
\<close>

definition url_laws :: "'u url_lib \<Rightarrow> bool" where
  "url_laws lib \<longleftrightarrow>
     (\<forall>u. ul_scheme lib (ul_clear_fragment lib u) = ul_scheme lib u \<and>
          ul_host lib (ul_clear_fragment lib u) = ul_host lib u \<and>
          ul_username lib (ul_clear_fragment lib u) = ul_username lib u \<and>
          ul_password lib (ul_clear_fragment lib u) = ul_password lib u) \<and>
     (\<forall>u h u'. ul_set_host lib u h = Some u' \<longrightarrow>
          ul_scheme lib u' = ul_scheme lib u \<and> ul_host lib u' \<noteq> None \<and>
          ul_username lib u' = ul_username lib u \<and> ul_password lib u' = ul_password lib u)"

definition clean_url :: "'u url_lib \<Rightarrow> 'u \<Rightarrow> bool" where
  "clean_url lib u \<longleftrightarrow> ul_scheme lib u \<in> {''http'', ''https''} \<and> ul_host lib u \<noteq> None \<and>
     ul_username lib u = [] \<and> ul_password lib u = None"

lemma check_url_clean:
  assumes "url_laws lib" "check_url lib input = Inr u"
  shows "clean_url lib u"
  using assms unfolding check_url_def canonical_host_def clean_url_def url_laws_def
  by (auto split: if_splits option.splits Host.splits simp: Let_def)

lemma check_destination_public:
  assumes "check_destination lib resolver PublicOnly u = Ret (Inr x)"
  shows "\<exists>addresses. destination_addresses lib resolver u = Ret (Inr addresses) \<and> addresses \<noteq> [] \<and>
    list_all public_address addresses"
proof -
  from assms obtain addresses where a: "destination_addresses lib resolver u = Ret (Inr addresses)"
      "addresses \<noteq> []" "list_all is_global_address addresses"
    unfolding check_destination_def
    by (cases "destination_addresses lib resolver u") (auto simp: res_bind_Inr_iff split: if_splits)
  then show ?thesis by (auto simp: is_global_address_iff list_all_iff)
qed

lemma validated_no_panic:
  assumes "url_laws lib"
  shows "validate_public_navigation_url_with lib sha input policy resolver \<noteq> Panic"
proof (cases "check_url lib input")
  case (Inl e)
  then show ?thesis by (simp add: validate_public_navigation_url_with_def)
next
  case (Inr u)
  then have "clean_url lib u" by (rule check_url_clean [OF assms])
  then show ?thesis using Inr
    by (auto simp: clean_url_def validate_public_navigation_url_with_def sanitized_projection_def Let_def
        check_destination_def destination_addresses_def split: Host.splits sum.splits)
qed

lemma validated_public:
  assumes "url_laws lib" "validate_public_navigation_url_with lib sha input policy resolver = Ret (Inr v)"
  shows "\<exists>u. clean_url lib u \<and> vu_canonical_url v = ul_as_str lib u \<and> vu_destination_digest v = sha (ul_as_str lib u) \<and>
    (policy = PublicOnly \<longrightarrow> (\<exists>addresses. destination_addresses lib resolver u = Ret (Inr addresses) \<and>
       addresses \<noteq> [] \<and> list_all public_address addresses))"
proof -
  from assms(2) obtain u where u: "check_url lib input = Inr u"
    by (auto simp: validate_public_navigation_url_with_def split: sum.splits)
  from assms(2) u have x: "check_destination lib resolver policy u = Ret (Inr ())"
    by (cases "check_destination lib resolver policy u")
      (auto simp: validate_public_navigation_url_with_def split: sum.splits)
  have "vu_canonical_url v = ul_as_str lib u" "vu_destination_digest v = sha (ul_as_str lib u)"
    using assms(2) u x by (cases "sanitized_projection lib u"; auto simp: validate_public_navigation_url_with_def)+
  then show ?thesis using check_url_clean [OF assms(1) u] check_destination_public [of lib resolver u] x by blast
qed

text \<open>
  C12: The validation of a URL never panics. A URL it accepts is HTTP or HTTPS, has a host and no
  credentials, and if private networks are not allowed then every address its host has, of
  which there is at least one, is public.
\<close>

theorem validated_url_is_public:
  assumes "url_laws lib"
  shows "\<exists>r. validate_public_navigation_url_with lib sha input policy resolver = Ret r \<and>
    (\<forall>v. r = Inr v \<longrightarrow> (\<exists>u. clean_url lib u \<and> vu_canonical_url v = ul_as_str lib u \<and>
       vu_destination_digest v = sha (ul_as_str lib u) \<and>
       (policy = PublicOnly \<longrightarrow> (\<exists>addresses. destination_addresses lib resolver u = Ret (Inr addresses) \<and>
          addresses \<noteq> [] \<and> list_all public_address addresses))))"
proof (cases "validate_public_navigation_url_with lib sha input policy resolver")
  case (Ret r)
  show ?thesis unfolding Ret
  proof (intro exI [of _ r] conjI refl allI impI, goal_cases)
    case (1 v)
    with validated_public [OF assms] Ret show ?case by blast
  qed
qed (use validated_no_panic [OF assms] in blast)

lemma length_to_be_bytes [simp]: "length (to_be_bytes n) = 8"
  by (simp add: to_be_bytes_def)

lemma char_of_byte_eq: "char_of (uint (v :: 8 word)) = (char_of (uint w) :: char) \<longleftrightarrow> v = w"
proof -
  have "uint v mod 256 = uint v" for v :: "8 word"
    using uint_lt2p [of v] by simp
  then show ?thesis by (metis of_char_of word_uint_eq_iff)
qed

lemma to_be_bytes_eq: "to_be_bytes m = to_be_bytes n \<longleftrightarrow> m = n"
proof
  assume "to_be_bytes m = to_be_bytes n"
  then have b: "\<forall>k\<in>set [56, 48, 40, 32, 24, 16, 8, 0]. (ucast (drop_bit k m) :: 8 word) = ucast (drop_bit k n)"
    by (simp only: to_be_bytes_def map_eq_conv char_of_byte_eq)
  show "m = n"
  proof (rule bit_word_eqI)
    fix i assume i: "i < LENGTH(64)"
    have "i div 8 \<in> {7, 6, 5, 4, 3, 2, 1, 0}" using i by auto
    then have "i div 8 * 8 \<in> set [56, 48, 40, 32, 24, 16, 8, 0]" by auto
    from bspec [OF b this] have "bit (ucast (drop_bit (i div 8 * 8) m) :: 8 word) (i mod 8) \<longleftrightarrow>
        bit (ucast (drop_bit (i div 8 * 8) n) :: 8 word) (i mod 8)" by simp
    then show "bit m i \<longleftrightarrow> bit n i" by (simp add: bit_ucast_iff bit_drop_bit_eq)
  qed
qed simp

lemma redirect_preimage_eq:
  assumes "length original < 2 ^ 64" "length original' < 2 ^ 64"
    and "redirect_preimage original destination = redirect_preimage original' destination'"
  shows "original = original' \<and> destination = destination'"
proof -
  have "to_be_bytes (of_nat (length original)) = to_be_bytes (of_nat (length original'))"
    and rest: "original @ to_be_bytes (of_nat (length destination)) @ destination =
      original' @ to_be_bytes (of_nat (length destination')) @ destination'"
    using assms(3) by (simp_all add: redirect_preimage_def append_eq_append_conv)
  then have "(of_nat (length original) :: u64) = of_nat (length original')" by (simp add: to_be_bytes_eq)
  then have "length original = length original'" using assms(1,2)
    by (simp add: word_of_nat_eq_iff take_bit_eq_mod)
  with rest show ?thesis by (simp add: append_eq_append_conv)
qed

text \<open>
  C13: The digest under which a redirect is approved binds both URLs: two redirects have the same
  digest only if both URLs are the same, unless the hash itself collides on the two texts hashed.
\<close>

theorem redirect_digest_binds_both_urls:
  assumes "length original < 2 ^ 64" "length original' < 2 ^ 64"
    and "redirect_approval_digest sha original destination = redirect_approval_digest sha original' destination'"
  shows "original = original' \<and> destination = destination' \<or>
    redirect_preimage original destination \<noteq> redirect_preimage original' destination' \<and>
    sha (redirect_preimage original destination) = sha (redirect_preimage original' destination')"
  using assms redirect_preimage_eq unfolding redirect_approval_digest_def by metis

section \<open>Examples\<close>

text \<open>A URL library that knows one page, with the absolute form of its host name.\<close>

definition shop_lib :: "Host url_lib" where
  "shop_lib = \<lparr>ul_parse = (\<lambda>s. if s = ''https://shop.test./x'' then Some (Domain ''shop.test.'') else None),
     ul_scheme = (\<lambda>_. ''https''), ul_host = Some, ul_username = (\<lambda>_. []), ul_password = (\<lambda>_. None),
     ul_port = (\<lambda>_. None), ul_port_or_known_default = (\<lambda>_. Some 443), ul_path = (\<lambda>_. ''/x''),
     ul_as_str = (\<lambda>u. ''https://'' @ (case u of Domain d \<Rightarrow> d | _ \<Rightarrow> []) @ ''/x''),
     ul_clear_fragment = (\<lambda>u. u), ul_set_host = (\<lambda>_ h. Some (Domain h))\<rparr>"

lemma shop_lib_laws: "url_laws shop_lib"
  by (simp add: url_laws_def shop_lib_def)

definition shop_resolver :: "string \<Rightarrow> 16 word \<Rightarrow> IpAddr list option" where
  "shop_resolver host port = (if host = ''shop.test'' \<and> port = 443 then Some [V4 0x5db8d822] else None)"

lemma shop_address: "public_address (V4 0x5db8d822)"
  by (simp add: public_address_def special_ipv4_def reachable_ipv4_def range_simps)

lemma shop_validated:
  "validate_public_navigation_url_with shop_lib sha ''https://shop.test./x'' PublicOnly shop_resolver =
     Ret (Inr \<lparr>vu_canonical_url = ''https://shop.test/x'', vu_sanitized_projection = ''https://shop.test/x'',
       vu_destination_digest = sha ''https://shop.test/x''\<rparr>)"
  by (simp add: validate_public_navigation_url_with_def check_url_def canonical_host_def shop_lib_def
      MAX_PUBLIC_NAVIGATION_URL_BYTES_def trim_end_dots_def check_destination_def destination_addresses_def
      shop_resolver_def sanitized_projection_def is_global_address_iff shop_address)

theorem validated_url_is_public_witness:
  "\<exists>u addresses. clean_url shop_lib u \<and> ul_as_str shop_lib u = ''https://shop.test/x'' \<and>
    destination_addresses shop_lib shop_resolver u = Ret (Inr addresses) \<and> addresses \<noteq> [] \<and>
    list_all public_address addresses"
proof -
  from validated_url_is_public [OF shop_lib_laws, of id "''https://shop.test./x''" PublicOnly shop_resolver]
  show ?thesis unfolding shop_validated by fastforce
qed

text \<open>A hash that keeps only the first eight bytes collides.\<close>

theorem redirect_digest_binds_both_urls_witness:
  "redirect_preimage ''https://a.test/'' ''https://b.test/'' \<noteq> redirect_preimage ''https://a.test/'' ''https://c.test/'' \<and>
    take 8 (redirect_preimage ''https://a.test/'' ''https://b.test/'') =
    take 8 (redirect_preimage ''https://a.test/'' ''https://c.test/'')"
  using redirect_digest_binds_both_urls [of "''https://a.test/''" "''https://a.test/''" "take 8" "''https://b.test/''" "''https://c.test/''"]
  by (simp add: redirect_approval_digest_def redirect_preimage_def)

end
