(* ===== verification/Nav_Observe.thy ===== *)
theory Nav_Observe
  imports Enforce Nav_Url
begin

text \<open>
  The observation of the main frame, \<open>browser/persistent_navigation.rs\<close>: the document a session is
  on, as the events of the browser and the intercepted requests change it, and the conditions
  under which a navigation counts as complete.
\<close>

section \<open>The observation\<close>

record NavigationAttempt =
  at_original_url :: string
  at_explicit :: bool
  at_approval_context_url :: "string option"
  at_initial_seen :: bool
  at_requests :: "string set"
  at_evaluated :: "string set"

record ObservationState =
  ob_document :: DocumentSnapshot
  ob_child_frames :: "string set"
  ob_primary_navigation_complete :: bool
  ob_awaiting_document_commit :: bool
  ob_protected :: bool
  ob_allow_private_network :: bool
  ob_attempt :: "NavigationAttempt option"
  ob_rejection :: "(u64 \<times> NavigationPolicyFailure) option"
  ob_generation :: u64

text \<open>The frame of the browser protocol, as far as it is read.\<close>

record Frame =
  fr_id :: string
  fr_parent_id :: "string option"
  fr_loader_id :: string
  fr_url :: string
  fr_url_fragment :: "string option"

definition frame_url :: "Frame \<Rightarrow> string" where
  "frame_url frame =
     (if CHR ''#'' \<in> set (fr_url frame) then fr_url frame
      else fr_url frame @ (case fr_url_fragment frame of None \<Rightarrow> [] | Some fragment \<Rightarrow> fragment))"

definition without_fragment :: "string \<Rightarrow> string" where
  "without_fragment url = takeWhile (\<lambda>c. c \<noteq> CHR ''#'') url"

text \<open>The frame tree of the browser: \<open>child_frame_ids\<close> collects the frames below the main frame.\<close>

datatype FrameTree = FrameTree (tree_frame: Frame) (tree_children: "FrameTree list")

fun child_frame_ids :: "FrameTree \<Rightarrow> string set \<Rightarrow> string set"
and child_frame_ids_in :: "FrameTree list \<Rightarrow> string set \<Rightarrow> string set" where
  "child_frame_ids (FrameTree frame children) frames = child_frame_ids_in children frames"
| "child_frame_ids_in [] frames = frames"
| "child_frame_ids_in (child # children) frames =
     child_frame_ids_in children (child_frame_ids child (insert (fr_id (tree_frame child)) frames))"

definition install_observation :: "FrameTree \<Rightarrow> ObservationState" where
  "install_observation tree =
     (let frame = tree_frame tree
      in \<lparr>ob_document = \<lparr>ds_frame_id = fr_id frame, ds_loader_id = fr_loader_id frame, ds_url = frame_url frame,
             ds_revision = 0\<rparr>,
          ob_child_frames = child_frame_ids tree {}, ob_primary_navigation_complete = False,
          ob_awaiting_document_commit = False, ob_protected = False, ob_allow_private_network = False,
          ob_attempt = None, ob_rejection = None, ob_generation = 0\<rparr>)"

section \<open>Operations\<close>

definition record_url :: "string \<Rightarrow> ObservationState \<Rightarrow> ObservationState" where
  "record_url url st =
     (let document = ob_document st
      in if ds_url document \<noteq> url then
           st\<lparr>ob_document := document\<lparr>ds_url := url,
                ds_revision := ds_revision document +
                  (if without_fragment (ds_url document) \<noteq> without_fragment url then 1 else 0)\<rparr>,
              ob_generation := ob_generation st + 1\<rparr>
         else st)"

definition record_lifecycle :: "string \<Rightarrow> string \<Rightarrow> string \<Rightarrow> ObservationState \<Rightarrow> ObservationState" where
  "record_lifecycle frame_id loader_id name st =
     (if frame_id = ds_frame_id (ob_document st) \<and> loader_id = ds_loader_id (ob_document st) then
        if name = ''init'' then st\<lparr>ob_primary_navigation_complete := False\<rparr>
        else if name = ''networkAlmostIdle'' then st\<lparr>ob_primary_navigation_complete := True\<rparr>
        else st
      else st)"

definition primary_navigation_complete :: "ObservationState \<Rightarrow> DocumentSnapshot \<Rightarrow> bool" where
  "primary_navigation_complete st previous \<longleftrightarrow>
     ob_primary_navigation_complete st \<and> \<not> ob_awaiting_document_commit st \<and>
     (ds_frame_id (ob_document st) \<noteq> ds_frame_id previous \<or> ds_loader_id (ob_document st) \<noteq> ds_loader_id previous)"

text \<open>Durations are in milliseconds.\<close>

definition NAVIGATION_PRIMARY_TIMEOUT :: nat where "NAVIGATION_PRIMARY_TIMEOUT = 20000"
definition NAVIGATION_FALLBACK_TIMEOUT :: nat where "NAVIGATION_FALLBACK_TIMEOUT = 3000"

definition fallback_navigation_complete ::
  "ObservationState \<Rightarrow> DocumentSnapshot \<Rightarrow> DocumentSnapshot \<Rightarrow> string option \<Rightarrow> nat \<Rightarrow> bool" where
  "fallback_navigation_complete st previous sampled ready_state elapsed \<longleftrightarrow>
     elapsed \<ge> NAVIGATION_PRIMARY_TIMEOUT \<and> \<not> ob_awaiting_document_commit st \<and>
     ds_revision (ob_document st) = ds_revision sampled \<and> ds_frame_id (ob_document st) = ds_frame_id sampled \<and>
     ds_loader_id (ob_document st) = ds_loader_id sampled \<and> ds_url (ob_document st) = ds_url sampled \<and>
     (ds_loader_id sampled \<noteq> ds_loader_id previous \<or> ds_url sampled \<noteq> ds_url previous) \<and>
     (ready_state = Some ''interactive'' \<or> ready_state = Some ''complete'')"

definition record_frame :: "Frame \<Rightarrow> ObservationState \<Rightarrow> ObservationState" where
  "record_frame frame st =
     (let document = ob_document st
      in record_url (frame_url frame)
          (if ds_frame_id document \<noteq> fr_id frame \<or> ds_loader_id document \<noteq> fr_loader_id frame then
             st\<lparr>ob_primary_navigation_complete := False, ob_awaiting_document_commit := False,
                ob_document := document\<lparr>ds_frame_id := fr_id frame, ds_loader_id := fr_loader_id frame,
                  ds_revision := ds_revision document + 1\<rparr>,
                ob_generation := ob_generation st + 1\<rparr>
           else st))"

definition starting_request :: "ObservationState \<Rightarrow> ObservationState" where
  "starting_request st =
     st\<lparr>ob_primary_navigation_complete := False, ob_awaiting_document_commit := True,
        ob_document := (ob_document st)\<lparr>ds_revision := ds_revision (ob_document st) + 1\<rparr>,
        ob_generation := ob_generation st + 1\<rparr>"

text \<open>The events of the browser the observer listens to.\<close>

datatype nav_event =
    PageFrameNavigated Frame
  | PageLifecycleEvent string string string
  | PageFrameAttached string
  | PageFrameDetached string
  | PageNavigatedWithinDocument string string

fun observe_event :: "nav_event \<Rightarrow> ObservationState \<Rightarrow> ObservationState" where
  "observe_event (PageFrameNavigated frame) st =
     (if fr_parent_id frame = None then record_frame frame st
      else st\<lparr>ob_child_frames := insert (fr_id frame) (ob_child_frames st)\<rparr>)"
| "observe_event (PageLifecycleEvent frame_id loader_id name) st = record_lifecycle frame_id loader_id name st"
| "observe_event (PageFrameAttached frame_id) st = st\<lparr>ob_child_frames := insert frame_id (ob_child_frames st)\<rparr>"
| "observe_event (PageFrameDetached frame_id) st = st\<lparr>ob_child_frames := ob_child_frames st - {frame_id}\<rparr>"
| "observe_event (PageNavigatedWithinDocument frame_id url) st =
     (if frame_id = ds_frame_id (ob_document st) then record_url url st else st)"

section \<open>Changes of the document\<close>

text \<open>What changes the document: the events, a reading of the frame tree, a request that starts.\<close>

datatype doc_step = Observed nav_event | FrameRead Frame | RequestStarted

fun take_doc_step :: "doc_step \<Rightarrow> ObservationState \<Rightarrow> ObservationState" where
  "take_doc_step (Observed ev) st = observe_event ev st"
| "take_doc_step (FrameRead frame) st = record_frame frame st"
| "take_doc_step RequestStarted st = starting_request st"

definition doc_run :: "doc_step list \<Rightarrow> ObservationState \<Rightarrow> ObservationState" where
  "doc_run steps st = fold take_doc_step steps st"

lemma doc_run_simps [simp]:
  "doc_run [] st = st" "doc_run (x # xs) st = doc_run xs (take_doc_step x st)" "doc_run (xs @ ys) st = doc_run ys (doc_run xs st)"
  by (simp_all add: doc_run_def)

text \<open>The identity of a document: the frame, the loader and the URL up to the fragment.\<close>

definition doc_identity :: "DocumentSnapshot \<Rightarrow> string \<times> string \<times> string" where
  "doc_identity d = (ds_frame_id d, ds_loader_id d, without_fragment (ds_url d))"

text \<open>
  A step counts how often it changes the revision: at most twice, and at least once if the
  identity changes; the same of the generation and the whole snapshot.
\<close>

definition counts :: "nat \<Rightarrow> ObservationState \<Rightarrow> ObservationState \<Rightarrow> bool" where
  "counts bound st st' \<longleftrightarrow> (\<exists>k\<le>bound. \<exists>g\<le>bound.
     ds_revision (ob_document st') = ds_revision (ob_document st) + of_nat k \<and>
     ob_generation st' = ob_generation st + of_nat g \<and>
     (k = 0 \<longrightarrow> doc_identity (ob_document st') = doc_identity (ob_document st)) \<and>
     (g = 0 \<longrightarrow> ob_document st' = ob_document st))"

lemma countsI:
  assumes "k \<le> bound" "g \<le> bound"
    and "ds_revision (ob_document st') = ds_revision (ob_document st) + of_nat k"
    and "ob_generation st' = ob_generation st + of_nat g"
    and "k = 0 \<Longrightarrow> doc_identity (ob_document st') = doc_identity (ob_document st)"
    and "g = 0 \<Longrightarrow> ob_document st' = ob_document st"
  shows "counts bound st st'"
  using assms unfolding counts_def by blast

lemma counts_refl: "ob_document st' = ob_document st \<Longrightarrow> ob_generation st' = ob_generation st \<Longrightarrow> counts n st st'"
  by (rule countsI [of 0 _ 0]) simp_all

lemma counts_trans:
  assumes "counts m st st'" "counts n st' st''"
  shows "counts (m + n) st st''"
proof -
  from assms(1) obtain k g where 1: "k \<le> m" "g \<le> m"
    "ds_revision (ob_document st') = ds_revision (ob_document st) + of_nat k"
    "ob_generation st' = ob_generation st + of_nat g"
    "k = 0 \<Longrightarrow> doc_identity (ob_document st') = doc_identity (ob_document st)"
    "g = 0 \<Longrightarrow> ob_document st' = ob_document st" unfolding counts_def by blast
  from assms(2) obtain l h where 2: "l \<le> n" "h \<le> n"
    "ds_revision (ob_document st'') = ds_revision (ob_document st') + of_nat l"
    "ob_generation st'' = ob_generation st' + of_nat h"
    "l = 0 \<Longrightarrow> doc_identity (ob_document st'') = doc_identity (ob_document st')"
    "h = 0 \<Longrightarrow> ob_document st'' = ob_document st'" unfolding counts_def by blast
  show ?thesis using 1 2 by (intro countsI [of "k + l" _ "g + h"]) auto
qed

lemma counts_record_url: "counts 1 st (record_url url st)"
proof (cases "ds_url (ob_document st) = url")
  case False
  then show ?thesis
    by (intro countsI [of "if without_fragment (ds_url (ob_document st)) \<noteq> without_fragment url then 1 else 0" _ 1])
      (auto simp: record_url_def Let_def doc_identity_def split: if_splits)
qed (simp add: record_url_def counts_refl)

lemma counts_record_frame: "counts 2 st (record_frame frame st)"
proof -
  let ?st = "if ds_frame_id (ob_document st) \<noteq> fr_id frame \<or> ds_loader_id (ob_document st) \<noteq> fr_loader_id frame
    then st\<lparr>ob_primary_navigation_complete := False, ob_awaiting_document_commit := False,
       ob_document := (ob_document st)\<lparr>ds_frame_id := fr_id frame, ds_loader_id := fr_loader_id frame,
         ds_revision := ds_revision (ob_document st) + 1\<rparr>,
       ob_generation := ob_generation st + 1\<rparr> else st"
  have "counts 1 st ?st"
    by (cases "ds_frame_id (ob_document st) \<noteq> fr_id frame \<or> ds_loader_id (ob_document st) \<noteq> fr_loader_id frame")
      (auto intro: countsI [of 1 _ 1] counts_refl)
  from counts_trans [OF this counts_record_url]
  show ?thesis unfolding record_frame_def Let_def one_add_one .
qed

lemma counts_mono: "counts m st st' \<Longrightarrow> m \<le> n \<Longrightarrow> counts n st st'"
  unfolding counts_def by (meson le_trans)

lemma counts_doc_step: "counts 2 st (take_doc_step x st)"
proof (cases x)
  case (Observed ev)
  then show ?thesis
    by (cases ev) (auto simp: counts_record_frame record_lifecycle_def
        intro: counts_refl counts_mono [OF counts_record_url])
next
  case RequestStarted
  then show ?thesis by (auto simp: starting_request_def intro: countsI [of 1 _ 1])
qed (simp add: counts_record_frame)

lemma counts_doc_run: "counts (2 * length steps) st (doc_run steps st)"
proof (induction steps arbitrary: st)
  case (Cons x xs)
  from counts_trans [OF counts_doc_step Cons.IH] show ?case by simp
qed (simp add: counts_refl)

lemma plus_of_nat_cancel:
  fixes a :: u64
  assumes "a + of_nat k = a" "k < 2 ^ 64"
  shows "k = 0"
proof -
  have "(of_nat k :: u64) = 0" using assms(1) by simp
  then show ?thesis using assms(2) by (auto simp: word_of_nat_eq_0_iff dest: nat_dvd_not_less)
qed

text \<open>
  C10: A revision identifies a document, whatever happened in between: if after any steps, fewer
  than \<open>2 ^ 63\<close>, the revision is what it was, then so are the frame, the loader and the URL up to
  the fragment, even where the page left them and came back; and if the generation is what it was
  then so is the whole snapshot.
\<close>

theorem revision_identifies_document:
  assumes "length steps < 2 ^ 63"
  shows "(ds_revision (ob_document (doc_run steps st)) = ds_revision (ob_document st) \<longrightarrow>
      doc_identity (ob_document (doc_run steps st)) = doc_identity (ob_document st)) \<and>
    (ob_generation (doc_run steps st) = ob_generation st \<longrightarrow> ob_document (doc_run steps st) = ob_document st)"
proof -
  from counts_doc_run [of steps st] obtain k g where c: "k \<le> 2 * length steps" "g \<le> 2 * length steps"
    "ds_revision (ob_document (doc_run steps st)) = ds_revision (ob_document st) + of_nat k"
    "ob_generation (doc_run steps st) = ob_generation st + of_nat g"
    "k = 0 \<Longrightarrow> doc_identity (ob_document (doc_run steps st)) = doc_identity (ob_document st)"
    "g = 0 \<Longrightarrow> ob_document (doc_run steps st) = ob_document st" unfolding counts_def by blast
  have "k < 2 ^ 64" "g < 2 ^ 64" using c(1,2) assms by simp_all
  with c show ?thesis by (metis plus_of_nat_cancel)
qed

section \<open>When a navigation is complete\<close>

definition frame_loader :: "ObservationState \<Rightarrow> string \<times> string" where
  "frame_loader st = (ds_frame_id (ob_document st), ds_loader_id (ob_document st))"

text \<open>A step commits a document if it changes the frame or the loader.\<close>

definition commits :: "doc_step \<Rightarrow> ObservationState \<Rightarrow> bool" where
  "commits x st \<longleftrightarrow> frame_loader (take_doc_step x st) \<noteq> frame_loader st"

definition idle_event :: "string \<times> string \<Rightarrow> doc_step" where
  "idle_event fl = Observed (PageLifecycleEvent (fst fl) (snd fl) ''networkAlmostIdle'')"

lemma record_url_flags [simp]:
  "ob_primary_navigation_complete (record_url url st) = ob_primary_navigation_complete st"
  "ob_awaiting_document_commit (record_url url st) = ob_awaiting_document_commit st"
  "ds_frame_id (ob_document (record_url url st)) = ds_frame_id (ob_document st)"
  "ds_loader_id (ob_document (record_url url st)) = ds_loader_id (ob_document st)"
  by (simp_all add: record_url_def Let_def frame_loader_def)

lemma complete_step:
  assumes "ob_primary_navigation_complete (take_doc_step x st)"
  shows "x = idle_event (frame_loader st) \<and> frame_loader (take_doc_step x st) = frame_loader st \<or>
    ob_primary_navigation_complete st \<and> x \<noteq> RequestStarted \<and> frame_loader (take_doc_step x st) = frame_loader st"
proof (cases x)
  case (Observed ev)
  then show ?thesis using assms
    by (cases ev) (auto simp: record_frame_def record_lifecycle_def Let_def idle_event_def frame_loader_def split: if_splits)
qed (use assms in \<open>auto simp: record_frame_def starting_request_def Let_def frame_loader_def split: if_splits\<close>)

lemma awaiting_step:
  assumes "ob_awaiting_document_commit st" "\<not> ob_awaiting_document_commit (take_doc_step x st)"
  shows "commits x st"
proof (cases x)
  case (Observed ev)
  then show ?thesis using assms
    by (cases ev) (auto simp: commits_def frame_loader_def record_frame_def record_lifecycle_def Let_def split: if_splits)
next
  case (FrameRead frame)
  then show ?thesis using assms by (auto simp: commits_def frame_loader_def record_frame_def Let_def split: if_splits)
qed (use assms in \<open>simp add: starting_request_def\<close>)

lemma awaiting_run:
  "ob_awaiting_document_commit st \<Longrightarrow> \<not> ob_awaiting_document_commit (doc_run bs st) \<Longrightarrow>
     \<exists>cs x ds. bs = cs @ x # ds \<and> commits x (doc_run cs st)"
proof (induction bs arbitrary: st)
  case (Cons b bs)
  show ?case
  proof (cases "ob_awaiting_document_commit (take_doc_step b st)")
    case True
    from Cons.IH [OF True] Cons.prems(2) obtain cs x ds
      where "bs = cs @ x # ds" "commits x (doc_run cs (take_doc_step b st))" by auto
    then have "b # bs = (b # cs) @ x # ds \<and> commits x (doc_run (b # cs) st)" by simp
    then show ?thesis by blast
  next
    case False
    with awaiting_step Cons.prems(1) have "commits b st" by blast
    then have "b # bs = [] @ b # bs \<and> commits b (doc_run [] st)" by simp
    then show ?thesis by blast
  qed
qed simp

lemma complete_run:
  assumes "\<not> ob_primary_navigation_complete st"
  shows "ob_primary_navigation_complete (doc_run steps st) \<Longrightarrow>
    \<exists>xs ys. steps = xs @ idle_event (frame_loader (doc_run steps st)) # ys \<and>
      frame_loader (doc_run xs st) = frame_loader (doc_run steps st) \<and> RequestStarted \<notin> set ys"
proof (induction steps rule: rev_induct)
  case (snoc x steps)
  let ?s = "doc_run steps st"
  have last: "doc_run (steps @ [x]) st = take_doc_step x ?s" by simp
  from complete_step [of x ?s] snoc.prems
  consider "x = idle_event (frame_loader ?s)" "frame_loader (take_doc_step x ?s) = frame_loader ?s"
    | "ob_primary_navigation_complete ?s" "x \<noteq> RequestStarted" "frame_loader (take_doc_step x ?s) = frame_loader ?s"
    by auto
  then show ?case
  proof cases
    case 1
    then have "steps @ [x] = steps @ idle_event (frame_loader (doc_run (steps @ [x]) st)) # [] \<and>
        frame_loader ?s = frame_loader (doc_run (steps @ [x]) st) \<and> RequestStarted \<notin> set []" by simp
    then show ?thesis by blast
  next
    case 2
    from snoc.IH [OF 2(1)] obtain xs ys where "steps = xs @ idle_event (frame_loader ?s) # ys"
      "frame_loader (doc_run xs st) = frame_loader ?s" "RequestStarted \<notin> set ys" by blast
    with 2 have "steps @ [x] = xs @ idle_event (frame_loader (doc_run (steps @ [x]) st)) # (ys @ [x]) \<and>
        frame_loader (doc_run xs st) = frame_loader (doc_run (steps @ [x]) st) \<and> RequestStarted \<notin> set (ys @ [x])"
      unfolding last by simp
    then show ?thesis by blast
  qed
qed (use assms in simp)

text \<open>
  A navigation counts as complete only for the page it led to: a document other than the one
  it left is committed, the browser has reported this document idle, no request has
  started since then, and every request that started before was followed by a commit.
\<close>

theorem complete_means_committed_and_idle:
  assumes "\<not> ob_primary_navigation_complete st"
    and "primary_navigation_complete (doc_run steps st) previous"
  shows "frame_loader (doc_run steps st) \<noteq> (ds_frame_id previous, ds_loader_id previous) \<and>
    (\<exists>xs ys. steps = xs @ idle_event (frame_loader (doc_run steps st)) # ys \<and>
       frame_loader (doc_run xs st) = frame_loader (doc_run steps st) \<and> RequestStarted \<notin> set ys) \<and>
    (\<forall>as bs. steps = as @ RequestStarted # bs \<longrightarrow>
       (\<exists>cs x ds. bs = cs @ x # ds \<and> commits x (doc_run (as @ RequestStarted # cs) st)))"
proof (intro conjI allI impI)
  from assms(2) have c: "ob_primary_navigation_complete (doc_run steps st)"
    and a: "\<not> ob_awaiting_document_commit (doc_run steps st)"
    by (simp_all add: primary_navigation_complete_def)
  show "frame_loader (doc_run steps st) \<noteq> (ds_frame_id previous, ds_loader_id previous)"
    using assms(2) by (auto simp: primary_navigation_complete_def frame_loader_def)
  show "\<exists>xs ys. steps = xs @ idle_event (frame_loader (doc_run steps st)) # ys \<and>
       frame_loader (doc_run xs st) = frame_loader (doc_run steps st) \<and> RequestStarted \<notin> set ys"
    by (rule complete_run [OF assms(1) c])
  fix as bs assume s: "steps = as @ RequestStarted # bs"
  have "ob_awaiting_document_commit (doc_run (as @ [RequestStarted]) st)" by (simp add: starting_request_def)
  from awaiting_run [OF this, of bs] a show "\<exists>cs x ds. bs = cs @ x # ds \<and> commits x (doc_run (as @ RequestStarted # cs) st)"
    by (simp add: s)
qed

section \<open>Examples\<close>

definition main_frame :: "string \<Rightarrow> string \<Rightarrow> Frame" where
  "main_frame loader url = \<lparr>fr_id = ''main'', fr_parent_id = None, fr_loader_id = loader, fr_url = url, fr_url_fragment = None\<rparr>"

definition first_page :: ObservationState where
  "first_page = install_observation (FrameTree (main_frame ''L1'' ''https://shop.test/a'') [])"

text \<open>A page that changes its URL and puts it back, as a script may, and a navigation to another document.\<close>

definition there_and_back :: "doc_step list" where
  "there_and_back = [Observed (PageNavigatedWithinDocument ''main'' ''https://shop.test/b''),
     Observed (PageNavigatedWithinDocument ''main'' ''https://shop.test/a'')]"

definition next_page :: "doc_step list" where
  "next_page = [RequestStarted, Observed (PageFrameNavigated (main_frame ''L2'' ''https://shop.test/b'')),
     Observed (PageLifecycleEvent ''main'' ''L2'' ''networkAlmostIdle'')]"

lemmas page_simps = first_page_def install_observation_def main_frame_def frame_url_def there_and_back_def next_page_def
  record_url_def record_frame_def record_lifecycle_def starting_request_def without_fragment_def Let_def

lemma there_and_back_revision:
  "ob_document (doc_run there_and_back first_page) = (ob_document first_page)\<lparr>ds_revision := 2\<rparr>"
  by (simp add: page_simps)

text \<open>A fragment changes the generation only; the identity is the same.\<close>

theorem revision_identifies_document_witness:
  "doc_identity (ob_document (doc_run [Observed (PageNavigatedWithinDocument ''main'' ''https://shop.test/a#top'')] first_page)) =
   doc_identity (ob_document first_page)"
proof -
  have "ds_revision (ob_document (doc_run [Observed (PageNavigatedWithinDocument ''main'' ''https://shop.test/a#top'')] first_page)) =
      ds_revision (ob_document first_page)" by (simp add: page_simps)
  with revision_identifies_document [of "[Observed (PageNavigatedWithinDocument ''main'' ''https://shop.test/a#top'')]" first_page]
  show ?thesis by simp
qed

theorem complete_means_committed_and_idle_witness:
  "\<exists>xs ys. next_page = xs @ idle_event (''main'', ''L2'') # ys \<and>
     frame_loader (doc_run xs first_page) = (''main'', ''L2'') \<and> RequestStarted \<notin> set ys"
proof -
  have "frame_loader (doc_run next_page first_page) = (''main'', ''L2'')"
    by (simp add: page_simps frame_loader_def)
  moreover have "primary_navigation_complete (doc_run next_page first_page) (ob_document first_page)"
    by (simp add: page_simps primary_navigation_complete_def)
  moreover have "\<not> ob_primary_navigation_complete first_page" by (simp add: page_simps)
  ultimately show ?thesis
    using complete_means_committed_and_idle [of first_page next_page "ob_document first_page"] by metis
qed

end
