(* ===== verification/Nav_Intercept.thy ===== *)
theory Nav_Intercept
  imports Nav_Observe
begin

text \<open>
  The interception of navigation requests, \<open>browser/persistent_navigation.rs\<close>: the decision on a
  request the browser has paused. The callback holds the lock of the observation while it reads
  the request and again when it records the result, but not while the policy is evaluated, so
  events and other requests come in between; \<open>nav_history\<close> interleaves them.
\<close>

section \<open>A paused request\<close>

datatype ResourceType = Document | OtherResource string

record RequestPaused =
  rq_request_id :: string
  rq_frame_id :: string
  rq_resource_type :: ResourceType
  rq_url :: string
  rq_redirected_request_id :: "string option"

text \<open>A failed request is answered with \<open>BlockedByClient\<close>.\<close>

datatype RequestPausedDecision = ContinueRequest | FailRequest string

text \<open>The environment of a session, with the URL library and the resolver (the answer depends on the time).\<close>

record ('re, 'u) nav_env =
  nv_session :: "'re session_env"
  nv_lib :: "'u url_lib"
  nv_resolver :: "nat \<Rightarrow> string \<Rightarrow> 16 word \<Rightarrow> IpAddr list option"

definition network_policy :: "bool \<Rightarrow> NavigationNetworkPolicy" where
  "network_policy allow_private = (if allow_private then AllowPrivate else PublicOnly)"

definition nav_validate ::
  "('re, 'u) nav_env \<Rightarrow> nat \<Rightarrow> bool \<Rightarrow> string \<Rightarrow> (NavigationValidationError + ValidatedNavigationUrl) call" where
  "nav_validate env n allow_private url =
     validate_public_navigation_url_with (nv_lib env) (en_sha (nv_session env)) url (network_policy allow_private)
       (nv_resolver env n)"

section \<open>The three phases of the callback\<close>

text \<open>\<open>rejection.get_or_insert\<close>: the first failure is kept until it is taken.\<close>

definition record_rejection :: "NavigationPolicyFailure \<Rightarrow> ObservationState \<Rightarrow> ObservationState" where
  "record_rejection failure st =
     (case ob_rejection st of
        None \<Rightarrow> st\<lparr>ob_rejection := Some (ds_revision (ob_document st), failure)\<rparr>
      | Some _ \<Rightarrow> st)"

definition continues_chain :: "RequestPaused \<Rightarrow> ObservationState \<Rightarrow> bool" where
  "continues_chain ev st =
     (case rq_redirected_request_id ev of
        None \<Rightarrow> False
      | Some parent \<Rightarrow> (case ob_attempt st of None \<Rightarrow> False | Some attempt \<Rightarrow> parent \<in> at_requests attempt))"

definition opens_attempt :: "RequestPaused \<Rightarrow> ObservationState \<Rightarrow> bool" where
  "opens_attempt ev st \<longleftrightarrow>
     \<not> (case ob_attempt st of None \<Rightarrow> False | Some attempt \<Rightarrow> at_explicit attempt) \<and> \<not> continues_chain ev st"

definition current_attempt :: "RequestPaused \<Rightarrow> ValidatedNavigationUrl \<Rightarrow> ObservationState \<Rightarrow> NavigationAttempt option" where
  "current_attempt ev destination st =
     (if opens_attempt ev st then
        Some \<lparr>at_original_url = vu_canonical_url destination, at_explicit = False, at_approval_context_url = None,
              at_initial_seen = False, at_requests = {}, at_evaluated = {}\<rparr>
      else ob_attempt st)"

datatype intercept_step =
    Decided RequestPausedDecision
  | Evaluating ValidatedNavigationUrl string string
  | CallbackPanicked

text \<open>The attempt the request belongs to: its signature, the URL of the page it came from, its record.\<close>

definition attempt_signature :: "(string \<Rightarrow> string) \<Rightarrow> NavigationAttempt \<Rightarrow> ValidatedNavigationUrl \<Rightarrow> string" where
  "attempt_signature sha attempt destination =
     (if \<not> at_initial_seen attempt \<and> vu_canonical_url destination = at_original_url attempt
      then vu_destination_digest destination
      else redirect_approval_digest sha (at_original_url attempt) (vu_canonical_url destination))"

definition join_attempt ::
  "(string \<Rightarrow> string) \<Rightarrow> RequestPaused \<Rightarrow> ValidatedNavigationUrl \<Rightarrow> ObservationState \<Rightarrow> intercept_step \<times> ObservationState" where
  "join_attempt sha ev destination st =
     (case current_attempt ev destination st of
        None \<Rightarrow> (CallbackPanicked, st)
      | Some attempt \<Rightarrow>
          (let source_url = (case at_approval_context_url attempt of None \<Rightarrow> ds_url (ob_document st) | Some url \<Rightarrow> url);
               st = st\<lparr>ob_attempt := Some (attempt\<lparr>at_initial_seen := True,
                        at_requests := insert (rq_request_id ev) (at_requests attempt)\<rparr>)\<rparr>
           in (if vu_destination_digest destination \<in> at_evaluated attempt then Decided ContinueRequest
               else Evaluating destination (attempt_signature sha attempt destination) source_url, st)))"

definition intercept_begin ::
  "('re, 'u) nav_env \<Rightarrow> nat \<Rightarrow> RequestPaused \<Rightarrow> ObservationState \<Rightarrow> intercept_step \<times> ObservationState" where
  "intercept_begin env n ev st =
     (let reject = Decided (FailRequest (rq_request_id ev))
      in if rq_resource_type ev \<noteq> Document then (Decided ContinueRequest, st)
         else if rq_frame_id ev \<noteq> ds_frame_id (ob_document st) then
           (if rq_frame_id ev \<in> ob_child_frames st then (Decided ContinueRequest, st)
            else (reject, record_rejection (NavBlocked ''navigation-frame-identity'') st))
         else
           (let st = starting_request st
            in case nav_validate env n (ob_allow_private_network st) (rq_url ev) of
                 Panic \<Rightarrow> (CallbackPanicked, st)
               | Ret (Inl _) \<Rightarrow> (reject, record_rejection (NavBlocked ''navigation-network-policy'') st)
               | Ret (Inr destination) \<Rightarrow> join_attempt (en_sha (nv_session env)) ev destination st))"

definition intercept_evaluate ::
  "('re, 'u) nav_env \<Rightarrow> nat \<Rightarrow> ValidatedNavigationUrl \<Rightarrow> string \<Rightarrow> string \<Rightarrow>
   ('re page_session, NavigationPolicyFailure, unit) stateful" where
  "intercept_evaluate env n destination signature source_url =
     evaluate_navigation_destination (nv_session env) (en_now_ms (nv_session env) n) (now_u64 (nv_session env) n)
       (en_uuid (nv_session env) n) source_url (vu_canonical_url destination) (vu_destination_digest destination)
       signature True"

definition intercept_finish ::
  "RequestPaused \<Rightarrow> ValidatedNavigationUrl \<Rightarrow> NavigationPolicyFailure + unit \<Rightarrow> ObservationState \<Rightarrow>
   RequestPausedDecision \<times> ObservationState" where
  "intercept_finish ev destination result st =
     (case result of
        Inl failure \<Rightarrow> (FailRequest (rq_request_id ev), record_rejection failure st)
      | Inr _ \<Rightarrow>
          (ContinueRequest,
           case ob_attempt st of
             None \<Rightarrow> st
           | Some attempt \<Rightarrow>
               if rq_request_id ev \<in> at_requests attempt then
                 st\<lparr>ob_attempt := Some (attempt\<lparr>at_evaluated :=
                     insert (vu_destination_digest destination) (at_evaluated attempt)\<rparr>)\<rparr>
               else st))"

text \<open>The callback as a whole, when nothing comes in between. None is a panic.\<close>

definition intercept_navigation_request ::
  "('re, 'u) nav_env \<Rightarrow> RequestPaused \<Rightarrow> ObservationState \<times> 're page_session \<Rightarrow>
   RequestPausedDecision option \<times> ObservationState \<times> 're page_session" where
  "intercept_navigation_request env ev page =
     (case page of (st, s) \<Rightarrow>
        let n = pg_clock s; s = s\<lparr>pg_clock := Suc n\<rparr>
        in case intercept_begin env n ev st of
             (CallbackPanicked, st1) \<Rightarrow> (None, st1, s)
           | (Decided decision, st1) \<Rightarrow> (Some decision, st1, s)
           | (Evaluating destination signature source_url, st1) \<Rightarrow>
               (case intercept_evaluate env n destination signature source_url s of
                  (result, s1) \<Rightarrow>
                    (case intercept_finish ev destination result st1 of
                       (decision, st2) \<Rightarrow> (Some decision, st2, s1))))"

section \<open>Histories\<close>

text \<open>
  The trace of a page: the destinations the policy permitted and the requests let through, each
  with the number of the attempt it belongs to. The history also counts the attempts and keeps
  the identifiers of the requests seen, which the browser does not use twice.
\<close>

datatype nav_trace =
    Permitted nat ValidatedNavigationUrl
  | Sent nat ValidatedNavigationUrl bool nat

record flight =
  fl_request :: RequestPaused
  fl_destination :: ValidatedNavigationUrl
  fl_signature :: string
  fl_source_url :: string
  fl_attempt :: nat
  fl_allow_private :: bool
  fl_tick :: nat
  fl_result :: "(NavigationPolicyFailure + unit) option"

record 're nav_world =
  nw_observation :: ObservationState
  nw_session :: "'re page_session"
  nw_attempt :: nat
  nw_used :: "string set"
  nw_flights :: "flight list"
  nw_trace :: "nav_trace list"

text \<open>The destination of a request of the main frame that is valid: only these join an attempt.\<close>

definition joined :: "('re, 'u) nav_env \<Rightarrow> nat \<Rightarrow> RequestPaused \<Rightarrow> ObservationState \<Rightarrow> ValidatedNavigationUrl option" where
  "joined env n ev st =
     (if rq_resource_type ev = Document \<and> rq_frame_id ev = ds_frame_id (ob_document st) then
        (case nav_validate env n (ob_allow_private_network st) (rq_url ev) of
           Ret (Inr destination) \<Rightarrow> Some destination
         | _ \<Rightarrow> None)
      else None)"

definition world_begin ::
  "('re, 'u) nav_env \<Rightarrow> nat \<Rightarrow> RequestPaused \<Rightarrow> intercept_step \<Rightarrow> ObservationState \<Rightarrow> 're nav_world \<Rightarrow> 're nav_world" where
  "world_begin env n ev step st' w =
     (let st = nw_observation w;
          attempt = (if joined env n ev st \<noteq> None \<and> opens_attempt ev (starting_request st)
                     then Suc (nw_attempt w) else nw_attempt w);
          w' = w\<lparr>nw_observation := st', nw_attempt := attempt, nw_used := insert (rq_request_id ev) (nw_used w)\<rparr>
      in case joined env n ev st of
           None \<Rightarrow> w'
         | Some destination \<Rightarrow>
             (case step of
                Decided ContinueRequest \<Rightarrow>
                  w'\<lparr>nw_trace := Sent attempt destination (ob_allow_private_network st) n # nw_trace w\<rparr>
              | Evaluating d signature source_url \<Rightarrow>
                  w'\<lparr>nw_flights := \<lparr>fl_request = ev, fl_destination = d, fl_signature = signature,
                       fl_source_url = source_url, fl_attempt = attempt,
                       fl_allow_private = ob_allow_private_network st, fl_tick = n, fl_result = None\<rparr> # nw_flights w\<rparr>
              | _ \<Rightarrow> w'))"

definition permit :: "nat \<Rightarrow> ValidatedNavigationUrl \<Rightarrow> NavigationPolicyFailure + unit \<Rightarrow> nav_trace list \<Rightarrow> nav_trace list" where
  "permit a d r tr = (case r of Inl _ \<Rightarrow> tr | Inr _ \<Rightarrow> Permitted a d # tr)"

definition sent :: "flight \<Rightarrow> RequestPausedDecision \<Rightarrow> nav_trace list \<Rightarrow> nav_trace list" where
  "sent f decision tr =
     (if decision = ContinueRequest then Sent (fl_attempt f) (fl_destination f) (fl_allow_private f) (fl_tick f) # tr else tr)"

text \<open>What an explicit navigation installs; its destination was permitted when it began.\<close>

definition explicit_attempt :: "ValidatedNavigationUrl \<Rightarrow> string \<Rightarrow> NavigationAttempt" where
  "explicit_attempt requested source_url =
     \<lparr>at_original_url = vu_canonical_url requested, at_explicit = True, at_approval_context_url = Some source_url,
      at_initial_seen = False, at_requests = {}, at_evaluated = {vu_destination_digest requested}\<rparr>"

definition explicit_evaluate ::
  "('re, 'u) nav_env \<Rightarrow> nat \<Rightarrow> ValidatedNavigationUrl \<Rightarrow> string \<Rightarrow> ('re page_session, NavigationPolicyFailure, unit) stateful" where
  "explicit_evaluate env n requested source_url =
     evaluate_navigation_destination (nv_session env) (en_now_ms (nv_session env) n) (now_u64 (nv_session env) n)
       (en_uuid (nv_session env) n) source_url (vu_canonical_url requested) (vu_destination_digest requested)
       (vu_destination_digest requested) False"

inductive nav_history :: "('re, 'u) nav_env \<Rightarrow> 're nav_world \<Rightarrow> bool" for env where
  start: "ob_attempt st = None \<Longrightarrow>
    nav_history env \<lparr>nw_observation = st, nw_session = s, nw_attempt = 0, nw_used = {}, nw_flights = [], nw_trace = []\<rparr>"
| document: "nav_history env w \<Longrightarrow> x \<noteq> RequestStarted \<Longrightarrow>
    nav_history env (w\<lparr>nw_observation := take_doc_step x (nw_observation w)\<rparr>)"
| session: "nav_history env w \<Longrightarrow> nav_history env (w\<lparr>nw_session := s\<rparr>)"
| configure: "nav_history env w \<Longrightarrow>
    nav_history env (w\<lparr>nw_observation := (nw_observation w)\<lparr>ob_allow_private_network := allow, ob_protected := protected\<rparr>\<rparr>)"
| take_rejection: "nav_history env w \<Longrightarrow>
    nav_history env (w\<lparr>nw_observation := (nw_observation w)\<lparr>ob_rejection := None\<rparr>\<rparr>)"
| close: "nav_history env w \<Longrightarrow>
    nav_history env (w\<lparr>nw_observation := (nw_observation w)\<lparr>ob_attempt := None\<rparr>\<rparr>)"
| request: "nav_history env w \<Longrightarrow> rq_request_id ev \<notin> nw_used w \<Longrightarrow>
    intercept_begin env n ev (nw_observation w) = (step, st') \<Longrightarrow> nav_history env (world_begin env n ev step st' w)"
| evaluate: "nav_history env w \<Longrightarrow> i < length (nw_flights w) \<Longrightarrow> f = nw_flights w ! i \<Longrightarrow> fl_result f = None \<Longrightarrow>
    intercept_evaluate env n (fl_destination f) (fl_signature f) (fl_source_url f) (nw_session w) = (r, s') \<Longrightarrow>
    nav_history env (w\<lparr>nw_session := s', nw_flights := (nw_flights w)[i := f\<lparr>fl_result := Some r\<rparr>],
      nw_trace := permit (fl_attempt f) (fl_destination f) r (nw_trace w)\<rparr>)"
| finish: "nav_history env w \<Longrightarrow> i < length (nw_flights w) \<Longrightarrow> f = nw_flights w ! i \<Longrightarrow> fl_result f = Some r \<Longrightarrow>
    intercept_finish (fl_request f) (fl_destination f) r (nw_observation w) = (decision, st') \<Longrightarrow>
    nav_history env (w\<lparr>nw_observation := st', nw_flights := remove_at i (nw_flights w),
      nw_trace := sent f decision (nw_trace w)\<rparr>)"
| explicit: "nav_history env w \<Longrightarrow> nav_validate env n allow url = Ret (Inr requested) \<Longrightarrow>
    explicit_evaluate env m requested source_url (nw_session w) = (Inr (), s') \<Longrightarrow>
    nav_history env (w\<lparr>nw_session := s', nw_attempt := Suc (nw_attempt w),
      nw_observation := starting_request ((nw_observation w)\<lparr>ob_attempt := Some (explicit_attempt requested source_url)\<rparr>),
      nw_trace := Permitted (Suc (nw_attempt w)) requested # nw_trace w\<rparr>)"

section \<open>Every request let through was permitted\<close>

definition permitted_in :: "nat \<Rightarrow> string \<Rightarrow> nav_trace list \<Rightarrow> bool" where
  "permitted_in a digest tr \<longleftrightarrow> (\<exists>d. Permitted a d \<in> set tr \<and> vu_destination_digest d = digest)"

fun sent_ok :: "('re, 'u) nav_env \<Rightarrow> nav_trace list \<Rightarrow> bool" where
  "sent_ok env [] = True"
| "sent_ok env (Permitted a d # tr) = sent_ok env tr"
| "sent_ok env (Sent a d allow n # tr) =
     (permitted_in a (vu_destination_digest d) tr \<and> (\<exists>url. nav_validate env n allow url = Ret (Inr d)) \<and> sent_ok env tr)"

definition attempt_ok :: "nat \<Rightarrow> string set \<Rightarrow> nav_trace list \<Rightarrow> NavigationAttempt \<Rightarrow> bool" where
  "attempt_ok a used tr attempt \<longleftrightarrow> (\<forall>d\<in>at_evaluated attempt. permitted_in a d tr) \<and> at_requests attempt \<subseteq> used"

definition flight_ok ::
  "('re, 'u) nav_env \<Rightarrow> nat \<Rightarrow> NavigationAttempt option \<Rightarrow> string set \<Rightarrow> nav_trace list \<Rightarrow> flight \<Rightarrow> bool" where
  "flight_ok env a attempt used tr f \<longleftrightarrow>
     (fl_result f = Some (Inr ()) \<longrightarrow> permitted_in (fl_attempt f) (vu_destination_digest (fl_destination f)) tr) \<and>
     rq_request_id (fl_request f) \<in> used \<and>
     (\<forall>at. attempt = Some at \<longrightarrow> rq_request_id (fl_request f) \<in> at_requests at \<longrightarrow> fl_attempt f = a) \<and>
     (\<exists>url. nav_validate env (fl_tick f) (fl_allow_private f) url = Ret (Inr (fl_destination f)))"

definition nav_ok :: "('re, 'u) nav_env \<Rightarrow> 're nav_world \<Rightarrow> bool" where
  "nav_ok env w \<longleftrightarrow>
     (\<forall>at. ob_attempt (nw_observation w) = Some at \<longrightarrow> attempt_ok (nw_attempt w) (nw_used w) (nw_trace w) at) \<and>
     (\<forall>f\<in>set (nw_flights w). flight_ok env (nw_attempt w) (ob_attempt (nw_observation w)) (nw_used w) (nw_trace w) f) \<and>
     sent_ok env (nw_trace w)"

lemma permitted_mono: "permitted_in a d tr \<Longrightarrow> set tr \<subseteq> set tr' \<Longrightarrow> permitted_in a d tr'"
  unfolding permitted_in_def by blast

lemma attempt_ok_mono:
  "attempt_ok a used tr at \<Longrightarrow> used \<subseteq> used' \<Longrightarrow> set tr \<subseteq> set tr' \<Longrightarrow> attempt_ok a used' tr' at"
  unfolding attempt_ok_def by (blast intro: permitted_mono)

text \<open>A flight stays sound when more is known, as long as the attempt it could be taken for keeps its requests.\<close>

lemma flight_ok_mono:
  assumes "flight_ok env a at used tr f" "used \<subseteq> used'" "set tr \<subseteq> set tr'"
    and "\<And>x. at' = Some x \<Longrightarrow> rq_request_id (fl_request f) \<in> at_requests x \<Longrightarrow>
      a' = a \<and> (\<exists>y. at = Some y \<and> rq_request_id (fl_request f) \<in> at_requests y)"
  shows "flight_ok env a' at' used' tr' f"
  unfolding flight_ok_def
proof (intro conjI impI allI)
  show "permitted_in (fl_attempt f) (vu_destination_digest (fl_destination f)) tr'" if "fl_result f = Some (Inr ())"
    using that assms(1,3) by (auto simp: flight_ok_def intro: permitted_mono)
  show "rq_request_id (fl_request f) \<in> used'" using assms(1,2) by (auto simp: flight_ok_def)
  show "fl_attempt f = a'" if "at' = Some x" "rq_request_id (fl_request f) \<in> at_requests x" for x
    using assms(4) [OF that] assms(1) by (auto simp: flight_ok_def)
  show "\<exists>url. nav_validate env (fl_tick f) (fl_allow_private f) url = Ret (Inr (fl_destination f))"
    using assms(1) by (simp add: flight_ok_def)
qed

lemma keeps_attempt [simp]:
  "ob_attempt (record_url url st) = ob_attempt st"
  "ob_attempt (record_rejection failure st) = ob_attempt st"
  "ob_attempt (starting_request st) = ob_attempt st"
  by (simp_all add: record_url_def record_rejection_def starting_request_def Let_def split: option.split)

lemma take_doc_step_attempt [simp]: "ob_attempt (take_doc_step x st) = ob_attempt st"
proof (cases x)
  case (Observed ev)
  then show ?thesis by (cases ev) (simp_all add: record_frame_def record_lifecycle_def Let_def)
qed (simp_all add: record_frame_def Let_def)

lemma current_attempt_exists: "current_attempt ev d st \<noteq> None"
  by (auto simp: current_attempt_def opens_attempt_def continues_chain_def split: option.splits)

lemma starting_request_reads [simp]:
  "ob_allow_private_network (starting_request st) = ob_allow_private_network st"
  "ds_frame_id (ob_document (starting_request st)) = ds_frame_id (ob_document st)"
  by (simp_all add: starting_request_def)

lemma intercept_begin_cases:
  assumes "intercept_begin env n ev st = (step, st')"
  obtains (apart) "joined env n ev st = None" "ob_attempt st' = ob_attempt st"
  | (joins) d at signature source_url where "joined env n ev st = Some d"
      "current_attempt ev d (starting_request st) = Some at"
      "ob_attempt st' = Some (at\<lparr>at_initial_seen := True, at_requests := insert (rq_request_id ev) (at_requests at)\<rparr>)"
      "step = (if vu_destination_digest d \<in> at_evaluated at then Decided ContinueRequest else Evaluating d signature source_url)"
proof (cases "joined env n ev st")
  case None
  then have "ob_attempt st' = ob_attempt st" using assms
    by (auto simp: joined_def intercept_begin_def Let_def split: if_splits call.splits sum.splits)
  with None show ?thesis by (rule apart)
next
  case (Some d)
  then have v: "rq_resource_type ev = Document" "rq_frame_id ev = ds_frame_id (ob_document st)"
    "nav_validate env n (ob_allow_private_network st) (rq_url ev) = Ret (Inr d)"
    by (auto simp: joined_def split: if_splits call.splits sum.splits)
  obtain at where at: "current_attempt ev d (starting_request st) = Some at"
    using current_attempt_exists [of ev d] by blast
  have "join_attempt (en_sha (nv_session env)) ev d (starting_request st) = (step, st')"
    using assms v by (simp add: intercept_begin_def Let_def)
  then show ?thesis using Some at joins by (auto simp: join_attempt_def Let_def)
qed

lemma nav_okD:
  assumes "nav_ok env w"
  shows "ob_attempt (nw_observation w) = Some at \<Longrightarrow> attempt_ok (nw_attempt w) (nw_used w) (nw_trace w) at"
    and "f \<in> set (nw_flights w) \<Longrightarrow>
      flight_ok env (nw_attempt w) (ob_attempt (nw_observation w)) (nw_used w) (nw_trace w) f"
    and "sent_ok env (nw_trace w)"
  using assms unfolding nav_ok_def by blast+

lemma nav_okI:
  assumes "\<And>at. ob_attempt (nw_observation w) = Some at \<Longrightarrow> attempt_ok (nw_attempt w) (nw_used w) (nw_trace w) at"
    and "\<And>f. f \<in> set (nw_flights w) \<Longrightarrow>
      flight_ok env (nw_attempt w) (ob_attempt (nw_observation w)) (nw_used w) (nw_trace w) f"
    and "sent_ok env (nw_trace w)"
  shows "nav_ok env w"
  using assms unfolding nav_ok_def by blast

text \<open>A change that leaves the attempt alone, or closes it.\<close>

lemma nav_ok_observation:
  assumes "nav_ok env w" "ob_attempt st = ob_attempt (nw_observation w) \<or> ob_attempt st = None"
  shows "nav_ok env (w\<lparr>nw_observation := st\<rparr>)"
proof (rule nav_okI)
  fix f assume f: "f \<in> set (nw_flights (w\<lparr>nw_observation := st\<rparr>))"
  show "flight_ok env (nw_attempt (w\<lparr>nw_observation := st\<rparr>)) (ob_attempt (nw_observation (w\<lparr>nw_observation := st\<rparr>)))
      (nw_used (w\<lparr>nw_observation := st\<rparr>)) (nw_trace (w\<lparr>nw_observation := st\<rparr>)) f"
  proof (rule flight_ok_mono [OF nav_okD(2) [OF assms(1)]])
    fix x assume "ob_attempt (nw_observation (w\<lparr>nw_observation := st\<rparr>)) = Some x"
    then have "ob_attempt (nw_observation w) = Some x" using assms(2) by simp
    moreover assume "rq_request_id (fl_request f) \<in> at_requests x"
    ultimately show "nw_attempt (w\<lparr>nw_observation := st\<rparr>) = nw_attempt w \<and>
        (\<exists>y. ob_attempt (nw_observation w) = Some y \<and> rq_request_id (fl_request f) \<in> at_requests y)" by simp
  qed (use f in auto)
qed (use assms(2) nav_okD(1,3) [OF assms(1)] in auto)

lemma joined_validated:
  "joined env n ev st = Some d \<Longrightarrow> nav_validate env n (ob_allow_private_network st) (rq_url ev) = Ret (Inr d)"
  by (auto simp: joined_def split: if_splits call.splits sum.splits)

lemma sent_ok_permit [simp]: "sent_ok env (permit a d r tr) \<longleftrightarrow> sent_ok env tr"
  by (simp add: permit_def split: sum.split)

lemma set_permit: "set tr \<subseteq> set (permit a d r tr)"
  by (auto simp: permit_def split: sum.split)

lemma permitted_permit: "permitted_in a (vu_destination_digest d) (permit a d (Inr u) tr)"
  by (auto simp: permit_def permitted_in_def)

lemma nav_ok_begin:
  assumes "nav_ok env w" "rq_request_id ev \<notin> nw_used w"
    and "intercept_begin env n ev (nw_observation w) = (step, st')"
  shows "nav_ok env (world_begin env n ev step st' w)"
  using assms(3)
proof (cases rule: intercept_begin_cases)
  case apart
  then have "world_begin env n ev step st' w =
      w\<lparr>nw_observation := st', nw_used := insert (rq_request_id ev) (nw_used w)\<rparr>"
    by (simp add: world_begin_def Let_def)
  then show ?thesis using apart nav_okD [OF assms(1)]
    by (intro nav_okI) (auto intro: flight_ok_mono attempt_ok_mono)
next
  case (joins d at signature source_url)
  let ?st = "nw_observation w" and ?id = "rq_request_id ev" and ?digest = "vu_destination_digest d"
  let ?opens = "opens_attempt ev (starting_request ?st)"
  define a where "a = (if ?opens then Suc (nw_attempt w) else nw_attempt w)"
  let ?used = "insert ?id (nw_used w)"
  have at: "attempt_ok a (nw_used w) (nw_trace w) at"
  proof (cases ?opens)
    case True
    then have "at_evaluated at = {}" "at_requests at = {}" using joins(2) by (auto simp: current_attempt_def)
    then show ?thesis by (simp add: attempt_ok_def)
  next
    case False
    then have "ob_attempt ?st = Some at" using joins(2) by (simp add: current_attempt_def)
    from nav_okD(1) [OF assms(1) this] False show ?thesis by (simp add: a_def)
  qed
  have old: "flight_ok env a (ob_attempt st') ?used (nw_trace w) f" if f: "f \<in> set (nw_flights w)" for f
  proof (rule flight_ok_mono [OF nav_okD(2) [OF assms(1) f]])
    fix x assume x: "ob_attempt st' = Some x" "rq_request_id (fl_request f) \<in> at_requests x"
    from nav_okD(2) [OF assms(1) f] have "rq_request_id (fl_request f) \<in> nw_used w" by (simp add: flight_ok_def)
    with assms(2) x joins(3) have m: "rq_request_id (fl_request f) \<in> at_requests at" by auto
    then have "\<not> ?opens" using joins(2) by (auto simp: current_attempt_def)
    with joins(2) m show "a = nw_attempt w \<and> (\<exists>y. ob_attempt ?st = Some y \<and> rq_request_id (fl_request f) \<in> at_requests y)"
      by (simp add: current_attempt_def a_def)
  qed auto
  have validated: "nav_validate env n (ob_allow_private_network ?st) (rq_url ev) = Ret (Inr d)"
    by (rule joined_validated [OF joins(1)])
  have at': "attempt_ok a ?used tr (at\<lparr>at_initial_seen := True, at_requests := insert ?id (at_requests at)\<rparr>)"
    if "set (nw_trace w) \<subseteq> set tr" for tr
  proof -
    have "attempt_ok a ?used tr at" by (rule attempt_ok_mono [OF at _ that]) auto
    then show ?thesis unfolding attempt_ok_def by simp
  qed
  show ?thesis
  proof (cases "?digest \<in> at_evaluated at")
    case True
    then have p: "permitted_in a ?digest (nw_trace w)" using at by (simp add: attempt_ok_def)
    let ?sent = "Sent a d (ob_allow_private_network ?st) n # nw_trace w"
    have w: "world_begin env n ev step st' w = w\<lparr>nw_observation := st', nw_attempt := a, nw_used := ?used, nw_trace := ?sent\<rparr>"
      using joins True by (simp add: world_begin_def Let_def a_def)
    have s: "set (nw_trace w) \<subseteq> set ?sent" by auto
    show ?thesis unfolding w
      using p validated nav_okD(3) [OF assms(1)] joins(3) at' [OF s]
      by (intro nav_okI) (auto intro: flight_ok_mono [OF old])
  next
    case False
    let ?f = "\<lparr>fl_request = ev, fl_destination = d, fl_signature = signature, fl_source_url = source_url,
      fl_attempt = a, fl_allow_private = ob_allow_private_network ?st, fl_tick = n, fl_result = None\<rparr>"
    have w: "world_begin env n ev step st' w =
        w\<lparr>nw_observation := st', nw_attempt := a, nw_used := ?used, nw_flights := ?f # nw_flights w\<rparr>"
      using joins False by (simp add: world_begin_def Let_def a_def)
    have "flight_ok env a (ob_attempt st') ?used (nw_trace w) ?f" using validated by (auto simp: flight_ok_def)
    then show ?thesis unfolding w using nav_okD(3) [OF assms(1)] joins(3) at' [OF subset_refl] old
      by (intro nav_okI) auto
  qed
qed

lemma nav_ok_evaluate:
  assumes "nav_ok env w" "i < length (nw_flights w)" "f = nw_flights w ! i"
  shows "nav_ok env (w\<lparr>nw_session := s', nw_flights := (nw_flights w)[i := f\<lparr>fl_result := Some r\<rparr>],
    nw_trace := permit (fl_attempt f) (fl_destination f) r (nw_trace w)\<rparr>)"
proof (rule nav_okI, goal_cases)
  case (1 at)
  then show ?case using nav_okD(1) [OF assms(1)] by (auto intro: attempt_ok_mono [OF _ subset_refl set_permit])
next
  case (2 g)
  let ?tr = "permit (fl_attempt f) (fl_destination f) r (nw_trace w)"
  let ?ok = "flight_ok env (nw_attempt w) (ob_attempt (nw_observation w)) (nw_used w) ?tr"
  have old: "?ok g" if "g \<in> set (nw_flights w)" for g
    by (rule flight_ok_mono [OF nav_okD(2) [OF assms(1) that] subset_refl set_permit]) auto
  have "f \<in> set (nw_flights w)" using assms(2,3) by simp
  from old [OF this] have "?ok (f\<lparr>fl_result := Some r\<rparr>)"
    using permitted_permit [of "fl_attempt f" "fl_destination f"] by (auto simp: flight_ok_def)
  with old 2 show ?case using set_update_subset_insert [of "nw_flights w" i] by auto
next
  case 3
  then show ?case using nav_okD(3) [OF assms(1)] by simp
qed

lemma nav_ok_finish:
  assumes "nav_ok env w" "i < length (nw_flights w)" "f = nw_flights w ! i" "fl_result f = Some r"
    and fin: "intercept_finish (fl_request f) (fl_destination f) r (nw_observation w) = (decision, st')"
  shows "nav_ok env (w\<lparr>nw_observation := st', nw_flights := remove_at i (nw_flights w),
    nw_trace := sent f decision (nw_trace w)\<rparr>)"
proof -
  have f: "f \<in> set (nw_flights w)" using assms(2,3) by simp
  note fo = nav_okD(2) [OF assms(1) f]
  have s: "set (nw_trace w) \<subseteq> set (sent f decision (nw_trace w))" by (auto simp: sent_def)
  have p: "permitted_in (fl_attempt f) (vu_destination_digest (fl_destination f)) (nw_trace w)" if "r = Inr u" for u
    using fo assms(4) that by (auto simp: flight_ok_def)
  have same: "ob_attempt st' = None \<or> (\<exists>at at'. ob_attempt (nw_observation w) = Some at \<and> ob_attempt st' = Some at' \<and>
      at_requests at' = at_requests at \<and> (at_evaluated at' = at_evaluated at \<or>
        r = Inr () \<and> rq_request_id (fl_request f) \<in> at_requests at \<and>
        at_evaluated at' = insert (vu_destination_digest (fl_destination f)) (at_evaluated at)))"
    using fin by (cases "ob_attempt (nw_observation w)") (auto simp: intercept_finish_def split: sum.splits if_splits)
  show ?thesis
  proof (rule nav_okI, goal_cases)
    case (1 x)
    with same obtain at where at: "ob_attempt (nw_observation w) = Some at" "at_requests x = at_requests at"
      "at_evaluated x = at_evaluated at \<or> r = Inr () \<and> rq_request_id (fl_request f) \<in> at_requests at \<and>
        at_evaluated x = insert (vu_destination_digest (fl_destination f)) (at_evaluated at)" by auto
    have a: "attempt_ok (nw_attempt w) (nw_used w) (sent f decision (nw_trace w)) at"
      by (rule attempt_ok_mono [OF nav_okD(1) [OF assms(1) at(1)] subset_refl s])
    have "fl_attempt f = nw_attempt w" if "rq_request_id (fl_request f) \<in> at_requests at"
      using fo at(1) that by (simp add: flight_ok_def)
    with a at(2,3) permitted_mono [OF p s] show ?case by (auto simp: attempt_ok_def)
  next
    case (2 g)
    then have g: "g \<in> set (nw_flights w)" using set_remove_at by fastforce
    show ?case by (rule flight_ok_mono [OF nav_okD(2) [OF assms(1) g]]) (use same s in auto)
  next
    case 3
    have "r = Inr ()" if "decision = ContinueRequest"
      using fin that by (auto simp: intercept_finish_def split: sum.splits)
    then show ?case using nav_okD(3) [OF assms(1)] p fo by (auto simp: sent_def flight_ok_def)
  qed
qed

lemma nav_ok_explicit:
  assumes "nav_ok env w"
  shows "nav_ok env (w\<lparr>nw_session := s', nw_attempt := Suc (nw_attempt w),
    nw_observation := starting_request ((nw_observation w)\<lparr>ob_attempt := Some (explicit_attempt requested source_url)\<rparr>),
    nw_trace := Permitted (Suc (nw_attempt w)) requested # nw_trace w\<rparr>)"
proof (rule nav_okI, goal_cases)
  case (1 at)
  then show ?case by (auto simp: attempt_ok_def explicit_attempt_def permitted_in_def)
next
  case (2 f)
  then have f: "f \<in> set (nw_flights w)" by simp
  show ?case by (rule flight_ok_mono [OF nav_okD(2) [OF assms f]]) (auto simp: explicit_attempt_def)
next
  case 3
  then show ?case using nav_okD(3) [OF assms] by simp
qed

lemma nav_history_ok: "nav_history env w \<Longrightarrow> nav_ok env w"
proof (induction rule: nav_history.induct)
  case (start st s)
  then show ?case by (simp add: nav_ok_def)
next
  case (session w s)
  then show ?case by (simp add: nav_ok_def)
qed (auto intro: nav_ok_observation nav_ok_begin nav_ok_evaluate nav_ok_finish nav_ok_explicit)

lemma sent_ok_split:
  "sent_ok env (ys @ Sent a d allow n # xs) \<Longrightarrow>
     permitted_in a (vu_destination_digest d) xs \<and> (\<exists>url. nav_validate env n allow url = Ret (Inr d))"
  by (induction env ys rule: sent_ok.induct) auto


text \<open>A request that is failed leaves a rejection for the next check to report.\<close>

lemma failed_requests_are_reported:
  "intercept_begin env n ev st = (Decided (FailRequest rid), st') \<Longrightarrow> ob_rejection st' \<noteq> None"
  "intercept_finish ev destination r st = (FailRequest rid, st') \<Longrightarrow> ob_rejection st' \<noteq> None"
  by (auto simp: intercept_begin_def intercept_finish_def join_attempt_def record_rejection_def Let_def
      split: if_splits call.splits sum.splits option.splits)

section \<open>Examples\<close>

definition shop_nav :: "(string, Host) nav_env" where
  "shop_nav = \<lparr>nv_session = demo_env, nv_lib = shop_lib, nv_resolver = (\<lambda>_. shop_resolver)\<rparr>"

definition shop_destination :: ValidatedNavigationUrl where
  "shop_destination = \<lparr>vu_canonical_url = ''https://shop.test/x'', vu_sanitized_projection = ''https://shop.test/x'',
     vu_destination_digest = ''https://shop.test/x''\<rparr>"

lemma shop_nav_validate: "nav_validate shop_nav n False ''https://shop.test./x'' = Ret (Inr shop_destination)"
  by (simp add: nav_validate_def shop_nav_def network_policy_def shop_validated demo_env_def shop_destination_def)

definition shop_request_paused :: RequestPaused where
  "shop_request_paused = \<lparr>rq_request_id = ''r1'', rq_frame_id = ''main'', rq_resource_type = Document,
     rq_url = ''https://shop.test./x'', rq_redirected_request_id = None\<rparr>"

lemma shop_evaluates:
  "\<exists>s'. explicit_evaluate shop_nav 0 shop_destination ''https://shop.test/a'' (demo_session [] empty_engine) = (Inr (), s')"
proof -
  have "fst (explicit_evaluate shop_nav 0 shop_destination ''https://shop.test/a'' (demo_session [] empty_engine)) = Inr ()"
    by code_simp
  then show ?thesis by (metis prod.collapse)
qed

lemma shop_history:
  "\<exists>w. nav_history shop_nav w \<and>
     nw_trace w = [] @ Sent 1 shop_destination False 7 # [Permitted 1 shop_destination]"
proof -
  let ?w0 = "\<lparr>nw_observation = first_page, nw_session = demo_session [] empty_engine, nw_attempt = 0, nw_used = {},
    nw_flights = [], nw_trace = []\<rparr>"
  have a: "ob_attempt first_page = None" by (simp add: page_simps)
  obtain s' where s': "explicit_evaluate shop_nav 0 shop_destination ''https://shop.test/a'' (nw_session ?w0) = (Inr (), s')"
    using shop_evaluates by auto
  let ?st = "starting_request (first_page\<lparr>ob_attempt := Some (explicit_attempt shop_destination ''https://shop.test/a'')\<rparr>)"
  let ?w1 = "\<lparr>nw_observation = ?st, nw_session = s', nw_attempt = 1, nw_used = {},
    nw_flights = [], nw_trace = [Permitted 1 shop_destination]\<rparr>"
  from nav_history.explicit [OF nav_history.start [OF a] shop_nav_validate [of 0] s']
  have w1: "nav_history shop_nav ?w1" by simp
  obtain step st' where b: "intercept_begin shop_nav 7 shop_request_paused (nw_observation ?w1) = (step, st')" by force
  have st: "ds_frame_id (ob_document ?st) = ''main''" "\<not> ob_allow_private_network ?st"
    "ob_attempt ?st = Some (explicit_attempt shop_destination ''https://shop.test/a'')"
    by (simp_all add: page_simps)
  have "step = Decided ContinueRequest"
    using b st by (simp add: intercept_begin_def shop_request_paused_def shop_nav_validate join_attempt_def
        current_attempt_def opens_attempt_def explicit_attempt_def Let_def)
  moreover have "joined shop_nav 7 shop_request_paused ?st = Some shop_destination"
    using st by (simp add: joined_def shop_request_paused_def shop_nav_validate)
  moreover have "\<not> opens_attempt shop_request_paused (starting_request ?st)"
    using st by (simp add: opens_attempt_def explicit_attempt_def)
  ultimately have "nw_trace (world_begin shop_nav 7 shop_request_paused step st' ?w1) =
      [] @ Sent 1 shop_destination False 7 # [Permitted 1 shop_destination]"
    using st by (simp add: world_begin_def Let_def)
  moreover have "nav_history shop_nav (world_begin shop_nav 7 shop_request_paused step st' ?w1)"
    by (rule nav_history.request [OF w1 _ b]) simp
  ultimately show ?thesis by blast
qed


end
