(* ===== verification/Nav_Public.thy ===== *)
theory Nav_Public
  imports Nav_Intercept
begin

text \<open>
  Public navigation, \<open>navigate_with_persistent_boundary\<close> of \<open>browser/persistent_navigation.rs\<close>,
  with the guard of the interception (\<open>browser/navigation_policy.rs\<close>). The callbacks of the browser
  run on other threads: what they do before the n-th step of the navigating thread is an answer of
  the environment. The observation holds the document; \<open>se_document\<close> of the session is not read here.
\<close>

section \<open>The page and its environment\<close>

datatype nav_activity = DocumentEvent nav_event | RequestIntercepted RequestPaused

datatype control_call = InstallInterceptor | EnableFetch | RestoreDefaultInterceptor | DisableFetch

record ('re, 'u) nav_run_env = "('re, 'u) nav_env" +
  nr_meanwhile :: "nat \<Rightarrow> nav_activity list"
  nr_frame :: "nat \<Rightarrow> string list + Frame"
  nr_navigate_to :: "nat \<Rightarrow> string \<Rightarrow> string list + unit"
  nr_ready_state :: "nat \<Rightarrow> string list + string"
  nr_now :: "nat \<Rightarrow> nat"
  nr_control :: "nat \<Rightarrow> control_call \<Rightarrow> string list + unit"

text \<open>
  The page: its observation and session, the guard of the interception and what it has installed in
  the tab, and the URLs the browser was sent to, each with whether requests were intercepted then.
\<close>

record 're nav_page =
  np_observation :: ObservationState
  np_session :: "'re page_session"
  np_guard :: bool
  np_interceptor :: bool
  np_fetch :: bool
  np_attempts :: u64
  np_navigated :: "(string \<times> bool) list"

datatype nav_error =
    NavRejected act_error
  | NavInvalid NavigationValidationError
  | NavBrowser "string list"
  | DocumentMoved
  | DocumentChangedBeforeApprovalCommit
  | NavTimedOut
  | NavPanicked

type_synonym ('re, 'a) nav_op = "('re nav_page, nav_error, 'a) stateful"

definition into_error :: "NavigationPolicyFailure \<Rightarrow> act_error" where
  "into_error failure = (case failure of
     NavBlocked rule_id \<Rightarrow> Blocked rule_id
   | NavHumanApprovalRequired rule_id scope outcome \<Rightarrow> HumanApprovalRequired rule_id scope outcome)"

definition nav_tick :: "('re, nat) nav_op" where
  "nav_tick p = (Inr (pg_clock (np_session p)),
     p\<lparr>np_session := (np_session p)\<lparr>pg_clock := Suc (pg_clock (np_session p))\<rparr>\<rparr>)"

definition on_observation :: "(ObservationState \<Rightarrow> ObservationState) \<Rightarrow> ('re, unit) nav_op" where
  "on_observation f = st_modify (\<lambda>p. p\<lparr>np_observation := f (np_observation p)\<rparr>)"

definition on_session :: "('re page_session \<Rightarrow> 're page_session) \<Rightarrow> ('re, unit) nav_op" where
  "on_session f = st_modify (\<lambda>p. p\<lparr>np_session := f (np_session p)\<rparr>)"

text \<open>The callbacks that run before the next step.\<close>

definition run_activity :: "('re, 'u) nav_env \<Rightarrow> nav_activity \<Rightarrow> 're nav_page \<Rightarrow> 're nav_page" where
  "run_activity env act p =
     (case act of
        DocumentEvent ev \<Rightarrow> p\<lparr>np_observation := observe_event ev (np_observation p)\<rparr>
      | RequestIntercepted ev \<Rightarrow>
          (case intercept_navigation_request env ev (np_observation p, np_session p) of
             (_, st, s) \<Rightarrow> p\<lparr>np_observation := st, np_session := s\<rparr>))"

definition base_env :: "('re, 'u) nav_run_env \<Rightarrow> ('re, 'u) nav_env" where
  "base_env env = nav_env.truncate env"

definition meanwhile :: "('re, 'u) nav_run_env \<Rightarrow> ('re, unit) nav_op" where
  "meanwhile env = st_bind nav_tick (\<lambda>n. st_modify (fold (run_activity (base_env env)) (nr_meanwhile env n)))"

definition nav_now :: "('re, 'u) nav_run_env \<Rightarrow> ('re, nat) nav_op" where
  "nav_now env = st_bind nav_tick (\<lambda>n. st_return (nr_now env n))"

section \<open>Reading the document, rejections\<close>

text \<open>\<open>live_document_snapshot\<close>: three tries to read the frame tree while no event comes in.\<close>

fun read_document :: "('re, 'u) nav_run_env \<Rightarrow> nat \<Rightarrow> ('re, DocumentSnapshot) nav_op" where
  "read_document env 0 = st_error DocumentMoved"
| "read_document env (Suc tries) =
     st_bind (st_get (\<lambda>p. ob_generation (np_observation p))) (\<lambda>before.
     st_bind nav_tick (\<lambda>n.
     st_bind (st_lift (case nr_frame env n of Inl e \<Rightarrow> Inl (NavBrowser e) | Inr frame \<Rightarrow> Inr frame)) (\<lambda>frame.
     st_seq (meanwhile env)
     (st_bind (st_get (\<lambda>p. ob_generation (np_observation p))) (\<lambda>after.
        if before \<noteq> after then read_document env tries
        else st_seq (on_observation (record_frame frame)) (st_get (\<lambda>p. ob_document (np_observation p))))))))"

definition check_navigation_rejection :: "('re, unit) nav_op" where
  "check_navigation_rejection =
     st_bind (st_get (\<lambda>p. ob_rejection (np_observation p))) (\<lambda>rejection.
     st_seq (on_observation (\<lambda>st. st\<lparr>ob_rejection := None\<rparr>))
       (case rejection of None \<Rightarrow> st_return () | Some (_, failure) \<Rightarrow> st_error (NavRejected (into_error failure))))"

definition same_snapshot :: "DocumentSnapshot \<Rightarrow> DocumentSnapshot \<Rightarrow> bool" where
  "same_snapshot a b \<longleftrightarrow> ds_revision a = ds_revision b \<and> ds_frame_id a = ds_frame_id b \<and>
     ds_loader_id a = ds_loader_id b \<and> ds_url a = ds_url b"

definition with_approval_document_context_current :: "DocumentSnapshot \<Rightarrow> ('re, 'a) nav_op \<Rightarrow> ('re, 'a) nav_op" where
  "with_approval_document_context_current expected operation p =
     (if \<not> same_snapshot (ob_document (np_observation p)) expected then (Inl DocumentChangedBeforeApprovalCommit, p)
      else operation p)"

definition begin_action_navigation :: "('re, unit) nav_op" where
  "begin_action_navigation = on_observation (\<lambda>st. st\<lparr>ob_attempt := None\<rparr>)"

section \<open>The guard of the interception\<close>

definition control ::
  "('re, 'u) nav_run_env \<Rightarrow> control_call \<Rightarrow> ('re nav_page \<Rightarrow> 're nav_page) \<Rightarrow> ('re, unit) nav_op" where
  "control env call effect =
     st_bind nav_tick (\<lambda>n. case nr_control env n call of
        Inl e \<Rightarrow> st_error (NavBrowser e)
      | Inr _ \<Rightarrow> st_modify effect)"

text \<open>\<open>finish\<close>, also when the guard is dropped: both calls are made, the first error is the result.\<close>

definition guard_finish :: "('re, 'u) nav_run_env \<Rightarrow> ('re, unit) nav_op" where
  "guard_finish env p =
     (case control env RestoreDefaultInterceptor (np_interceptor_update (\<lambda>_. False)) p of
        (restored, p1) \<Rightarrow>
          (case control env DisableFetch (np_fetch_update (\<lambda>_. False)) p1 of
             (disabled, p2) \<Rightarrow> (res_then restored disabled, p2)))"

definition guard_install :: "('re, 'u) nav_run_env \<Rightarrow> ('re, unit) nav_op" where
  "guard_install env p =
     (case st_seq (control env InstallInterceptor (np_interceptor_update (\<lambda>_. True)))
             (control env EnableFetch (np_fetch_update (\<lambda>_. True))) p of
        (Inr _, p1) \<Rightarrow> (Inr (), p1)
      | (Inl e, p1) \<Rightarrow> (Inl e, snd (guard_finish env p1)))"

definition install_owner :: "('re, 'u) nav_run_env \<Rightarrow> ('re, unit) nav_op" where
  "install_owner env p =
     (case guard_install env p of
        (Inr _, p1) \<Rightarrow> (Inr (), p1\<lparr>np_guard := True\<rparr>)
      | (Inl e, p1) \<Rightarrow> (Inl e, p1\<lparr>np_observation := (np_observation p1)\<lparr>ob_protected := False\<rparr>\<rparr>))"

definition configure_public_navigation :: "('re, 'u) nav_run_env \<Rightarrow> bool \<Rightarrow> ('re, unit) nav_op" where
  "configure_public_navigation env allow_private_network =
     st_seq (meanwhile env)
    (st_seq (on_observation (\<lambda>st. st\<lparr>ob_allow_private_network := allow_private_network\<rparr>))
    (st_bind (st_get np_guard) (\<lambda>owner.
       if owner then st_return ()
       else st_seq (on_observation (\<lambda>st. st\<lparr>ob_protected := True\<rparr>)) (install_owner env))))"

section \<open>Waiting for a navigation\<close>

text \<open>
  One turn of the loop: True is done, False is another turn after the poll interval. After the
  first deadline the weaker condition on the document that is read counts, until the second.
\<close>

definition fallback_turn :: "('re, 'u) nav_run_env \<Rightarrow> nat \<Rightarrow> DocumentSnapshot \<Rightarrow> ('re, bool) nav_op" where
  "fallback_turn env started snapshot =
     st_bind (read_document env 3) (\<lambda>current.
     st_bind nav_tick (\<lambda>n.
     st_seq (meanwhile env)
    (st_bind (nav_now env) (\<lambda>sampled_at.
     st_bind (st_get (\<lambda>p. fallback_navigation_complete (np_observation p) snapshot current
         (case nr_ready_state env n of Inl _ \<Rightarrow> None | Inr ready_state \<Rightarrow> Some ready_state)
         (sampled_at - started))) (\<lambda>complete.
       if complete then st_return True
       else st_bind (nav_now env) (\<lambda>now.
         if now \<ge> started + NAVIGATION_PRIMARY_TIMEOUT + NAVIGATION_FALLBACK_TIMEOUT
         then st_error NavTimedOut
         else st_return False))))))"

definition wait_turn :: "('re, 'u) nav_run_env \<Rightarrow> nat \<Rightarrow> DocumentSnapshot \<Rightarrow> ('re, bool) nav_op" where
  "wait_turn env started snapshot =
     st_seq (meanwhile env)
    (st_seq check_navigation_rejection
    (st_seq (meanwhile env)
    (st_bind (st_get (\<lambda>p. primary_navigation_complete (np_observation p) snapshot)) (\<lambda>complete.
       if complete then st_return True
       else st_bind (nav_now env) (\<lambda>now.
         if now < started + NAVIGATION_PRIMARY_TIMEOUT then st_return False
         else fallback_turn env started snapshot)))))"

partial_function (option) wait_for_navigation ::
  "('re, 'u) nav_run_env \<Rightarrow> nat \<Rightarrow> DocumentSnapshot \<Rightarrow> 're nav_page \<Rightarrow> ((nav_error + unit) \<times> 're nav_page) option" where
  "wait_for_navigation env started snapshot p =
     (case wait_turn env started snapshot p of
        (Inl e, p1) \<Rightarrow> Some (Inl e, p1)
      | (Inr complete, p1) \<Rightarrow>
          if complete then Some (Inr (), p1) else wait_for_navigation env started snapshot p1)"

declare wait_for_navigation.simps [code]

section \<open>Public navigation\<close>

definition lift_nav_validate ::
  "(NavigationValidationError + ValidatedNavigationUrl) call \<Rightarrow> nav_error + ValidatedNavigationUrl" where
  "lift_nav_validate c = (case c of Panic \<Rightarrow> Inl NavPanicked | Ret (Inl e) \<Rightarrow> Inl (NavInvalid e) | Ret (Inr v) \<Rightarrow> Inr v)"

definition evaluate_explicit :: "('re, 'u) nav_run_env \<Rightarrow> ValidatedNavigationUrl \<Rightarrow> string \<Rightarrow> ('re, unit) nav_op" where
  "evaluate_explicit env requested source_url =
     st_bind nav_tick (\<lambda>n p. case explicit_evaluate (base_env env) n requested source_url (np_session p) of
        (Inl failure, s) \<Rightarrow> (Inl (NavRejected (into_error failure)), p\<lparr>np_session := s\<rparr>)
      | (Inr _, s) \<Rightarrow> (Inr (), p\<lparr>np_session := s\<rparr>))"

text \<open>Up to the start of the attempt; an error here leaves the browser where it is.\<close>

definition navigate_prepare ::
  "('re, 'u) nav_run_env \<Rightarrow> string \<Rightarrow> bool \<Rightarrow> ('re, ValidatedNavigationUrl \<times> DocumentSnapshot) nav_op" where
  "navigate_prepare env url allow_private_network =
     st_seq (meanwhile env)
    (st_seq check_navigation_rejection
    (st_bind nav_tick (\<lambda>n.
     st_bind (st_lift (lift_nav_validate (nav_validate (base_env env) n allow_private_network url))) (\<lambda>requested.
     st_seq (configure_public_navigation env allow_private_network)
    (st_bind (read_document env 3) (\<lambda>snapshot.
     st_bind nav_tick (\<lambda>m.
     st_seq (on_session (log_audit (ToolCall ''navigate''
         (JObject [(''destination'', JString (vu_sanitized_projection requested))]) (now_u64 (nv_session env) m))))
    (st_seq (meanwhile env)
    (st_seq (with_approval_document_context_current snapshot (evaluate_explicit env requested (ds_url snapshot)))
       (st_return (requested, snapshot)))))))))))"

definition navigate_begin ::
  "('re, 'u) nav_run_env \<Rightarrow> string \<Rightarrow> bool \<Rightarrow> ('re, ValidatedNavigationUrl \<times> DocumentSnapshot) nav_op" where
  "navigate_begin env url allow_private_network =
     st_bind (navigate_prepare env url allow_private_network) (\<lambda>(requested, snapshot).
     st_seq (meanwhile env)
    (st_seq (on_observation (\<lambda>st. starting_request (st\<lparr>ob_attempt := Some (explicit_attempt requested (ds_url snapshot))\<rparr>)))
    (st_seq (st_modify (\<lambda>p. p\<lparr>np_attempts := np_attempts p + 1\<rparr>))
       (st_return (requested, snapshot)))))"

definition navigate_to :: "('re, 'u) nav_run_env \<Rightarrow> string \<Rightarrow> ('re, unit) nav_op" where
  "navigate_to env url =
     st_bind nav_tick (\<lambda>n.
     st_seq (st_modify (\<lambda>p. p\<lparr>np_navigated := np_navigated p @ [(url, np_interceptor p \<and> np_fetch p)]\<rparr>))
       (st_lift (case nr_navigate_to env n url of Inl e \<Rightarrow> Inl (NavBrowser e) | Inr _ \<Rightarrow> Inr ())))"

definition navigate_and_wait ::
  "('re, 'u) nav_run_env \<Rightarrow> string \<Rightarrow> DocumentSnapshot \<Rightarrow> 're nav_page \<Rightarrow> ((nav_error + unit) \<times> 're nav_page) option" where
  "navigate_and_wait env url snapshot p =
     (case navigate_to env url p of
        (Inl e, p1) \<Rightarrow> Some (Inl e, p1)
      | (Inr _, p1) \<Rightarrow>
          (case nav_now env p1 of
             (Inl e, p2) \<Rightarrow> Some (Inl e, p2)
           | (Inr started, p2) \<Rightarrow> wait_for_navigation env started snapshot p2))"

definition needs_approval :: "NavigationPolicyFailure option \<Rightarrow> nav_error + unit \<Rightarrow> bool" where
  "needs_approval interception_failure result \<longleftrightarrow>
     (case interception_failure of Some (NavHumanApprovalRequired _ _ _) \<Rightarrow> True | _ \<Rightarrow> False) \<or>
     (case result of Inl (NavRejected (HumanApprovalRequired _ _ _)) \<Rightarrow> True | _ \<Rightarrow> False)"

definition leave_page :: "'re page_session \<Rightarrow> 're page_session" where
  "leave_page s = s\<lparr>pg_index := Map.empty, pg_cache := None, se_navigation_epoch := se_navigation_epoch s + 1\<rparr>"

definition navigate_settle ::
  "('re, 'u) nav_run_env \<Rightarrow> uuid option \<Rightarrow> nav_error + unit \<Rightarrow> ('re, NavigationPolicyFailure option) nav_op" where
  "navigate_settle env initial_pending_id result =
     st_seq (on_session leave_page)
    (st_seq (meanwhile env)
    (st_bind (st_get (\<lambda>p. map_option snd (ob_rejection (np_observation p)))) (\<lambda>interception_failure.
     st_seq (on_observation (\<lambda>st. st\<lparr>ob_attempt := None, ob_rejection := None\<rparr>))
    (st_seq (meanwhile env)
    (st_seq (on_session (\<lambda>s. s\<lparr>se_approvals :=
         expire_navigation_approvals (se_approvals s) initial_pending_id (needs_approval interception_failure result)\<rparr>))
       (st_return interception_failure))))))"

definition navigate_result ::
  "('re, 'u) nav_run_env \<Rightarrow> NavigationPolicyFailure option \<Rightarrow> nav_error + unit \<Rightarrow> ('re, string) nav_op" where
  "navigate_result env interception_failure result =
     st_seq (case interception_failure of
         Some failure \<Rightarrow> st_error (NavRejected (into_error failure)) | None \<Rightarrow> st_return ())
    (st_seq (st_lift result)
    (st_bind (read_document env 3) (\<lambda>final.
     st_bind (st_lift (lift_nav_validate
         (validate_public_navigation_url_with (nv_lib env) (en_sha (nv_session env)) (ds_url final) AllowPrivate
            (\<lambda>_ _. Some [])))) (\<lambda>v.
       st_return (vu_canonical_url v)))))"

definition navigate_end ::
  "('re, 'u) nav_run_env \<Rightarrow> uuid option \<Rightarrow> nav_error + unit \<Rightarrow> ('re, string) nav_op" where
  "navigate_end env initial_pending_id result =
     st_bind (navigate_settle env initial_pending_id result) (\<lambda>interception_failure.
       navigate_result env interception_failure result)"

definition navigate_with_persistent_boundary ::
  "('re, 'u) nav_run_env \<Rightarrow> string \<Rightarrow> bool \<Rightarrow> 're nav_page \<Rightarrow> ((nav_error + string) \<times> 're nav_page) option" where
  "navigate_with_persistent_boundary env url allow_private_network p =
     (let initial_pending_id = pending_id (se_approvals (np_session p))
      in case navigate_begin env url allow_private_network p of
           (Inl e, p1) \<Rightarrow> Some (Inl e, p1)
         | (Inr (requested, snapshot), p1) \<Rightarrow>
             (case navigate_and_wait env (vu_canonical_url requested) snapshot p1 of
                None \<Rightarrow> None
              | Some (result, p2) \<Rightarrow> Some (navigate_end env initial_pending_id result p2)))"

text \<open>\<open>finish_action_navigation\<close>: an action waits 80 milliseconds for a navigation of its own to be rejected.\<close>

partial_function (option) await_rejection ::
  "('re, 'u) nav_run_env \<Rightarrow> nat \<Rightarrow> 're nav_page \<Rightarrow> ((nav_error + unit) \<times> 're nav_page) option" where
  "await_rejection env deadline p =
     (case st_seq (meanwhile env) (st_seq check_navigation_rejection (nav_now env)) p of
        (Inl e, p1) \<Rightarrow> Some (Inl e, p1)
      | (Inr now, p1) \<Rightarrow> if now \<ge> deadline then Some (Inr (), p1) else await_rejection env deadline p1)"

definition finish_action_navigation ::
  "('re, 'u) nav_run_env \<Rightarrow> 're nav_page \<Rightarrow> ((nav_error + unit) \<times> 're nav_page) option" where
  "finish_action_navigation env p =
     (if \<not> ob_protected (np_observation p) then Some (Inr (), p)
      else case nav_now env p of
             (Inl e, p1) \<Rightarrow> Some (Inl e, p1)
           | (Inr now, p1) \<Rightarrow> await_rejection env (now + 80) p1)"

section \<open>What the steps leave alone\<close>

text \<open>
  The steps of a navigation and the callbacks between them only move the clock on, give no
  approval, and leave alone the caches, the guard and where the browser was sent.
\<close>

definition page_part where
  "page_part p = (pg_index (np_session p), pg_cache (np_session p), np_navigated p, np_attempts p, np_guard p,
     np_interceptor p, np_fetch p)"

definition no_grants :: "'re nav_page \<Rightarrow> bool" where
  "no_grants p \<longleftrightarrow> pas_granted (se_approvals (np_session p)) = []"

definition quiet :: "'re nav_page \<Rightarrow> 're nav_page \<Rightarrow> bool" where
  "quiet p p' \<longleftrightarrow> pg_clock (np_session p) \<le> pg_clock (np_session p') \<and> (no_grants p \<longrightarrow> no_grants p') \<and>
     page_part p' = page_part p"

named_theorems calm_intros \<open>operations that are quiet\<close>

definition calm :: "('re, 'a) nav_op \<Rightarrow> bool" where
  "calm m \<longleftrightarrow> (\<forall>p. quiet p (snd (m p)))"

lemma quiet_refl [simp]: "quiet p p"
  by (simp add: quiet_def)

lemma quiet_trans [trans]: "quiet p q \<Longrightarrow> quiet q r \<Longrightarrow> quiet p r"
  by (auto simp: quiet_def)

lemma calmD: "calm m \<Longrightarrow> m p = (r, p') \<Longrightarrow> quiet p p'"
  by (metis calm_def snd_conv)

lemma calm_basic [calm_intros]: "calm (st_return a)" "calm (st_error e)" "calm (st_lift x)" "calm (st_get f)" "calm (Pair x)"
  by (simp_all add: calm_def)

lemma calm_bind [calm_intros]:
  assumes m: "calm m" and f: "\<And>a. calm (f a)"
  shows "calm (st_bind m f)"
  unfolding calm_def
proof
  fix p
  obtain r q where r: "m p = (r, q)" by force
  have "quiet p q" by (rule calmD [OF m r])
  moreover have "quiet q (snd (f a q))" for a using f by (simp add: calm_def)
  ultimately show "quiet p (snd (st_bind m f p))" by (cases r) (auto simp: st_bind_def r intro: quiet_trans)
qed

lemma calm_seq [calm_intros]: "calm m \<Longrightarrow> calm k \<Longrightarrow> calm (st_seq m k)"
  unfolding st_seq_def by (rule calm_bind)

lemma calm_if [calm_intros]: "(b \<Longrightarrow> calm m) \<Longrightarrow> (\<not> b \<Longrightarrow> calm k) \<Longrightarrow> calm (if b then m else k)"
  by simp

lemma calm_observation [calm_intros]: "calm (on_observation f)"
  by (simp add: calm_def on_observation_def quiet_def no_grants_def page_part_def)

lemma calm_audit [calm_intros]: "calm (on_session (log_audit ev))"
  by (simp add: calm_def on_session_def quiet_def no_grants_def page_part_def log_audit_def)

lemma calm_tick [calm_intros]: "calm nav_tick"
  by (simp add: calm_def nav_tick_def quiet_def no_grants_def page_part_def)

lemma calm_now [calm_intros]: "calm (nav_now env)"
  unfolding nav_now_def by (intro calm_intros)

text \<open>The evaluation of a destination uses grants up and gives none.\<close>

definition session_part where
  "session_part s = (pg_clock s, pg_index s, pg_cache s)"

lemma evaluation_quiet:
  "session_part (snd (evaluate_navigation_destination env now ts uuid ctx url digest sig clear s)) = session_part s \<and>
   (pas_granted (se_approvals s) = [] \<longrightarrow>
    pas_granted (se_approvals (snd (evaluate_navigation_destination env now ts uuid ctx url digest sig clear s))) = [])"
  by (auto simp: evaluate_navigation_destination_def run_navigation_plugins_def consume_navigation_approval_def
      replace_pending_def log_audit_def session_part_def Let_def
      split: PolicyAction.splits prod.splits option.splits bool.splits)

lemma quiet_session:
  "session_part s = session_part (np_session p) \<Longrightarrow>
   (pas_granted (se_approvals (np_session p)) = [] \<longrightarrow> pas_granted (se_approvals s) = []) \<Longrightarrow>
   quiet p (p\<lparr>np_observation := st, np_session := s\<rparr>)"
  by (simp add: quiet_def session_part_def page_part_def no_grants_def)

lemma intercept_session:
  assumes "intercept_navigation_request env ev (st, s) = (d, st', s')"
  shows "pg_clock s \<le> pg_clock s' \<and> pg_index s' = pg_index s \<and> pg_cache s' = pg_cache s \<and>
    (pas_granted (se_approvals s) = [] \<longrightarrow> pas_granted (se_approvals s') = [])"
proof -
  let ?s = "s\<lparr>pg_clock := Suc (pg_clock s)\<rparr>"
  have e: "pg_clock s1 = Suc (pg_clock s) \<and> pg_index s1 = pg_index s \<and> pg_cache s1 = pg_cache s \<and>
      (pas_granted (se_approvals s) = [] \<longrightarrow> pas_granted (se_approvals s1) = [])"
    if "intercept_evaluate env n dest sig src ?s = (r, s1)" for n dest sig src r s1
    using that evaluation_quiet [of "nv_session env" "en_now_ms (nv_session env) n" "now_u64 (nv_session env) n"
        "en_uuid (nv_session env) n" src "vu_canonical_url dest" "vu_destination_digest dest" sig True ?s]
    by (simp add: intercept_evaluate_def session_part_def)
  show ?thesis using assms
    by (auto simp: intercept_navigation_request_def Let_def split: prod.splits intercept_step.splits dest!: e)
qed

lemma quiet_activity: "quiet p (run_activity env act p)"
proof (cases act)
  case (DocumentEvent ev)
  then show ?thesis by (simp add: run_activity_def quiet_def page_part_def no_grants_def)
next
  case (RequestIntercepted ev)
  obtain d st s where i: "intercept_navigation_request env ev (np_observation p, np_session p) = (d, st, s)"
    by (metis prod_cases3)
  from intercept_session [OF i] i RequestIntercepted show ?thesis
    by (simp add: run_activity_def quiet_def page_part_def no_grants_def)
qed

lemma quiet_activities: "quiet p (fold (run_activity env) acts p)"
  by (induction acts arbitrary: p) (auto intro: quiet_trans [OF quiet_activity])

lemma calm_meanwhile [calm_intros]: "calm (meanwhile env)"
  unfolding meanwhile_def by (intro calm_intros) (simp add: calm_def quiet_activities)

lemma calm_read_document [calm_intros]: "calm (read_document env tries)"
  by (induction tries) (auto intro!: calm_intros split: sum.splits)

lemma calm_check_rejection [calm_intros]: "calm check_navigation_rejection"
  unfolding check_navigation_rejection_def
  by (intro calm_intros) (auto intro: calm_intros split: option.splits)

lemma calm_evaluate_explicit [calm_intros]: "calm (evaluate_explicit env requested src)"
  unfolding evaluate_explicit_def
proof (rule calm_bind [OF calm_tick], unfold calm_def, rule allI)
  fix n :: nat and p :: "'a nav_page"
  obtain r s where e: "explicit_evaluate (base_env env) n requested src (np_session p) = (r, s)" by force
  have "quiet p (p\<lparr>np_session := s\<rparr>)"
    using e evaluation_quiet quiet_session [of s p "np_observation p"] unfolding explicit_evaluate_def
    by (metis nav_page.surjective nav_page.update_convs(1,2) snd_conv)
  then show "quiet p (snd (case explicit_evaluate (base_env env) n requested src (np_session p) of
      (Inl failure, s) \<Rightarrow> (Inl (NavRejected (into_error failure)), p\<lparr>np_session := s\<rparr>)
    | (Inr _, s) \<Rightarrow> (Inr (), p\<lparr>np_session := s\<rparr>)))"
    by (simp add: e split: sum.split)
qed

lemma calm_with_context [calm_intros]: "calm m \<Longrightarrow> calm (with_approval_document_context_current d m)"
  by (simp add: calm_def with_approval_document_context_current_def)

lemma calm_fallback_turn [calm_intros]: "calm (fallback_turn env started snapshot)"
  unfolding fallback_turn_def by (intro calm_intros)

lemma calm_wait_turn: "calm (wait_turn env started snapshot)"
  unfolding wait_turn_def by (intro calm_intros)

lemma wait_quiet:
  assumes "wait_for_navigation env started snapshot p = Some y"
  shows "quiet p (snd y)"
proof (rule wait_for_navigation.raw_induct [of "\<lambda>env started snapshot p y. quiet p (snd y)", OF _ assms], goal_cases)
  case (1 rec env started snapshot p y)
  obtain r p1 where t: "wait_turn env started snapshot p = (r, p1)" by force
  have "quiet p p1" by (rule calmD [OF calm_wait_turn t])
  moreover have "y = (Inl e, p1)" if "r = Inl e" for e using 1(2) t that by simp
  moreover have "y = (Inr (), p1)" if "r = Inr True" using 1(2) t that by simp
  moreover have "quiet p1 (snd y)" if "r = Inr False" using 1 t that by simp
  ultimately show ?case
  proof (cases r)
    case (Inr b)
    with \<open>quiet p p1\<close> \<open>r = Inr True \<Longrightarrow> y = (Inr (), p1)\<close> \<open>r = Inr False \<Longrightarrow> quiet p1 (snd y)\<close>
    show ?thesis by (cases b) (auto intro: quiet_trans)
  qed simp
qed

lemma nav_now_run: "nav_now env p = (Inr (nr_now env (pg_clock (np_session p))), snd (nav_tick p))"
  by (simp add: nav_now_def nav_tick_def st_bind_def)

lemma tick_clock: "pg_clock (np_session (snd (nav_tick p))) = Suc (pg_clock (np_session p))"
  by (simp add: nav_tick_def)

lemma quiet_clock: "quiet p q \<Longrightarrow> pg_clock (np_session p) \<le> pg_clock (np_session q)"
  by (simp add: quiet_def)

text \<open>A turn that goes on has read the clock before the last deadline.\<close>

definition in_time :: "('re, 'u) nav_run_env \<Rightarrow> nat \<Rightarrow> nat \<Rightarrow> bool" where
  "in_time env started from_tick \<longleftrightarrow>
     (\<exists>n\<ge>from_tick. nr_now env n < started + NAVIGATION_PRIMARY_TIMEOUT + NAVIGATION_FALLBACK_TIMEOUT)"

lemma in_time_mono: "in_time env started m \<Longrightarrow> k \<le> m \<Longrightarrow> in_time env started k"
  unfolding in_time_def by (meson le_trans)

lemma calm_Inr: "calm m \<Longrightarrow> m p = (Inr a, q) \<Longrightarrow> pg_clock (np_session p) \<le> pg_clock (np_session q)"
  by (rule quiet_clock) (rule calmD)

lemma fallback_turn_goes_on:
  assumes "fallback_turn env started snapshot p = (Inr False, p')"
  shows "in_time env started (pg_clock (np_session p))"
proof -
  obtain current q1 n q2 q3 sampled_at q4 complete where
    run: "read_document env 3 p = (Inr current, q1)" "nav_tick q1 = (Inr n, q2)" "meanwhile env q2 = (Inr (), q3)"
      "nav_now env q3 = (Inr sampled_at, q4)"
    and rest: "(if complete then st_return True else st_bind (nav_now env) (\<lambda>now.
         if now \<ge> started + NAVIGATION_PRIMARY_TIMEOUT + NAVIGATION_FALLBACK_TIMEOUT
         then st_error NavTimedOut else st_return False)) q4 = (Inr False, p')"
    using assms unfolding fallback_turn_def st_bind_Inr_iff st_seq_Inr_iff by (auto simp del: st_return_def)
  have "pg_clock (np_session p) \<le> pg_clock (np_session q4)"
    using calm_Inr [OF calm_read_document run(1)] calm_Inr [OF calm_tick run(2)] calm_Inr [OF calm_meanwhile run(3)]
      calm_Inr [OF calm_now run(4)] by linarith
  moreover have "in_time env started (pg_clock (np_session q4))"
    using rest by (auto simp: st_bind_def nav_now_run in_time_def split: if_splits)
  ultimately show ?thesis by (rule in_time_mono [rotated])
qed

lemma turn_goes_on:
  assumes "wait_turn env started snapshot p = (Inr False, p')"
  shows "pg_clock (np_session p) < pg_clock (np_session p') \<and> in_time env started (pg_clock (np_session p))"
proof -
  obtain q1 q2 q3 where
    run: "meanwhile env p = (Inr (), q1)" "check_navigation_rejection q1 = (Inr (), q2)" "meanwhile env q2 = (Inr (), q3)"
    and rest: "(if primary_navigation_complete (np_observation q3) snapshot then st_return True
       else st_bind (nav_now env) (\<lambda>now.
         if now < started + NAVIGATION_PRIMARY_TIMEOUT then st_return False
         else fallback_turn env started snapshot)) q3 = (Inr False, p')"
    using assms unfolding wait_turn_def st_bind_Inr_iff st_seq_Inr_iff by (auto simp del: st_return_def)
  have c: "pg_clock (np_session p) \<le> pg_clock (np_session q3)"
    using calm_Inr [OF calm_meanwhile run(1)] calm_Inr [OF calm_check_rejection run(2)]
      calm_Inr [OF calm_meanwhile run(3)] by linarith
  let ?q = "snd (nav_tick q3)"
  from rest have n: "nr_now env (pg_clock (np_session q3)) < started + NAVIGATION_PRIMARY_TIMEOUT \<and> p' = ?q \<or>
      fallback_turn env started snapshot ?q = (Inr False, p')"
    by (auto simp: st_bind_def nav_now_run split: if_splits)
  have "pg_clock (np_session ?q) \<le> pg_clock (np_session p') \<and> in_time env started (pg_clock (np_session q3))"
    using n
  proof
    assume "nr_now env (pg_clock (np_session q3)) < started + NAVIGATION_PRIMARY_TIMEOUT \<and> p' = ?q"
    then show ?thesis by (auto simp: in_time_def)
  next
    assume f: "fallback_turn env started snapshot ?q = (Inr False, p')"
    from fallback_turn_goes_on [OF f] calm_Inr [OF calm_fallback_turn f] show ?thesis
      by (auto simp: tick_clock intro: in_time_mono)
  qed
  with c show ?thesis by (auto simp: tick_clock intro: in_time_mono)
qed

text \<open>The loop ends if the clock passes the last deadline for good.\<close>

lemma wait_returns:
  assumes "\<And>n. n \<ge> N \<Longrightarrow> nr_now env n \<ge> started + NAVIGATION_PRIMARY_TIMEOUT + NAVIGATION_FALLBACK_TIMEOUT"
  shows "wait_for_navigation env started snapshot p \<noteq> None"
proof (induction "N - pg_clock (np_session p)" arbitrary: p rule: less_induct)
  case less
  obtain r p1 where t: "wait_turn env started snapshot p = (r, p1)" by force
  show ?case
  proof (cases "r = Inr False")
    case True
    from turn_goes_on [OF t [unfolded True]] have c: "pg_clock (np_session p) < pg_clock (np_session p1)"
      and i: "in_time env started (pg_clock (np_session p))" by auto
    from i assms have "pg_clock (np_session p) < N" unfolding in_time_def by (meson leD le_trans not_le)
    with c have "N - pg_clock (np_session p1) < N - pg_clock (np_session p)" by simp
    from less [OF this] t True show ?thesis by (simp add: wait_for_navigation.simps)
  next
    case False
    then show ?thesis using t by (cases r) (auto simp: wait_for_navigation.simps)
  qed
qed

lemma await_returns:
  assumes "\<And>n. n \<ge> N \<Longrightarrow> nr_now env n \<ge> deadline"
  shows "await_rejection env deadline p \<noteq> None"
proof (induction "N - pg_clock (np_session p)" arbitrary: p rule: less_induct)
  case less
  obtain r p1 where t: "st_seq (meanwhile env) (st_seq check_navigation_rejection (nav_now env)) p = (r, p1)" by force
  show ?case
  proof (cases r)
    case (Inr now)
    then obtain q1 q2 where run: "meanwhile env p = (Inr (), q1)" "check_navigation_rejection q1 = (Inr (), q2)"
      and n: "now = nr_now env (pg_clock (np_session q2))" "p1 = snd (nav_tick q2)"
      using t by (auto simp: st_seq_Inr_iff nav_now_run)
    have c: "pg_clock (np_session p) \<le> pg_clock (np_session q2)"
      using calm_Inr [OF calm_meanwhile run(1)] calm_Inr [OF calm_check_rejection run(2)] by linarith
    show ?thesis
    proof (cases "now \<ge> deadline")
      case True
      then show ?thesis using t Inr by (simp add: await_rejection.simps)
    next
      case False
      with assms n(1) have "pg_clock (np_session q2) < N" by (meson not_le)
      with c have "N - pg_clock (np_session p1) < N - pg_clock (np_session p)" by (simp add: n tick_clock)
      from less [OF this] t Inr False show ?thesis by (simp add: await_rejection.simps)
    qed
  qed (use t in \<open>simp add: await_rejection.simps\<close>)
qed

section \<open>What a public navigation does\<close>

definition guarded :: "'re nav_page \<Rightarrow> bool" where
  "guarded p \<longleftrightarrow> (np_guard p \<longrightarrow> np_interceptor p \<and> np_fetch p)"

definition nav_log where
  "nav_log p = (np_navigated p, np_attempts p)"

lemma calm_keeps_log: "calm m \<Longrightarrow> keeps nav_log m"
  by (simp add: calm_def keeps_def quiet_def page_part_def nav_log_def)

lemmas keeps_log_calm [keeps_intros] =
  calm_tick [THEN calm_keeps_log] calm_meanwhile [THEN calm_keeps_log] calm_observation [THEN calm_keeps_log]
  calm_read_document [THEN calm_keeps_log] calm_check_rejection [THEN calm_keeps_log] calm_audit [THEN calm_keeps_log]
  calm_evaluate_explicit [THEN calm_with_context, THEN calm_keeps_log]

lemma quiet_guard: "quiet p q \<Longrightarrow> np_guard q = np_guard p \<and> np_interceptor q = np_interceptor p \<and> np_fetch q = np_fetch p"
  by (simp add: quiet_def page_part_def)

lemma keeps_log_control [keeps_intros]:
  "(\<And>p. nav_log (effect p) = nav_log p) \<Longrightarrow> keeps nav_log (control env call effect)"
  unfolding control_def by (intro keeps_intros) (auto intro!: keeps_intros split: sum.splits)

lemma keeps_log_finish: "keeps nav_log (guard_finish env)"
proof -
  have "keeps nav_log (control env RestoreDefaultInterceptor (np_interceptor_update (\<lambda>_. False)))"
    and "keeps nav_log (control env DisableFetch (np_fetch_update (\<lambda>_. False)))"
    by (auto intro!: keeps_intros simp: nav_log_def)
  then show ?thesis by (auto simp: keeps_def guard_finish_def split: prod.splits) (metis snd_conv)
qed

lemma keeps_log_install: "keeps nav_log (guard_install env)"
proof -
  have "keeps nav_log (st_seq (control env InstallInterceptor (np_interceptor_update (\<lambda>_. True)))
      (control env EnableFetch (np_fetch_update (\<lambda>_. True))))"
    by (intro keeps_intros) (simp_all add: nav_log_def)
  with keeps_log_finish [of env] show ?thesis
    by (auto simp: keeps_def guard_install_def split: prod.splits sum.splits) (metis snd_conv)+
qed

lemma keeps_log_configure [keeps_intros]: "keeps nav_log (configure_public_navigation env allow)"
proof -
  have "keeps nav_log (install_owner env)" using keeps_log_install [of env]
    by (auto simp: keeps_def install_owner_def nav_log_def split: prod.splits sum.splits) (metis Pair_inject snd_conv)+
  then show ?thesis unfolding configure_public_navigation_def by (intro keeps_intros)
qed

lemma control_Inr: "control env call effect p = (Inr u, q) \<Longrightarrow> q = effect (snd (nav_tick p))"
  by (auto simp: control_def st_bind_def nav_tick_def split: sum.splits)

lemma configure_installs:
  assumes "configure_public_navigation env allow p = (Inr (), p')" "guarded p"
  shows "np_interceptor p' \<and> np_fetch p'"
proof -
  obtain q1 q2 where m: "meanwhile env p = (Inr (), q1)"
    and o: "on_observation (\<lambda>st. st\<lparr>ob_allow_private_network := allow\<rparr>) q1 = (Inr (), q2)"
    and rest: "(if np_guard q2 then st_return ()
       else st_seq (on_observation (\<lambda>st. st\<lparr>ob_protected := True\<rparr>)) (install_owner env)) q2 = (Inr (), p')"
    using assms(1) unfolding configure_public_navigation_def st_seq_Inr_iff st_bind_Inr_iff by (auto simp del: st_return_def)
  have q2: "np_guard q2 = np_guard p" "np_interceptor q2 = np_interceptor p" "np_fetch q2 = np_fetch p"
    using quiet_guard [OF calmD [OF calm_meanwhile m]] quiet_guard [OF calmD [OF calm_observation o]] by auto
  show ?thesis
  proof (cases "np_guard q2")
    case True
    then show ?thesis using rest q2 assms(2) by (simp add: guarded_def)
  next
    case False
    then obtain q3 where "install_owner env q3 = (Inr (), p')" using rest by (auto simp: st_seq_Inr_iff)
    then obtain p1 where "guard_install env q3 = (Inr (), p1)" "p' = p1\<lparr>np_guard := True\<rparr>"
      by (auto simp: install_owner_def split: prod.splits sum.splits)
    then show ?thesis
      by (auto simp: guard_install_def st_seq_Inr_iff nav_tick_def split: prod.splits sum.splits dest!: control_Inr)
  qed
qed

text \<open>The policy let the destination pass when it was asked.\<close>

definition was_permitted :: "('re, 'u) nav_run_env \<Rightarrow> ValidatedNavigationUrl \<Rightarrow> bool" where
  "was_permitted env requested \<longleftrightarrow>
     (\<exists>m source_url s s'. explicit_evaluate (base_env env) m requested source_url s = (Inr (), s'))"

lemma prepare_props:
  assumes "navigate_prepare env url allow p = (Inr (requested, snapshot), p')" "guarded p"
  shows "np_interceptor p' \<and> np_fetch p' \<and> was_permitted env requested \<and>
    (\<exists>n. nav_validate (base_env env) n allow url = Ret (Inr requested))"
proof -
  obtain q1 q2 n q3 q4 q5 m q6 q7 q8 where
    run: "meanwhile env p = (Inr (), q1)" "check_navigation_rejection q1 = (Inr (), q2)" "nav_tick q2 = (Inr n, q3)"
      "configure_public_navigation env allow q3 = (Inr (), q4)" "read_document env 3 q4 = (Inr snapshot, q5)"
      "nav_tick q5 = (Inr m, q6)"
      "on_session (log_audit (ToolCall ''navigate'' (JObject [(''destination'', JString (vu_sanitized_projection requested))])
         (now_u64 (nv_session env) m))) q6 = (Inr (), q7)"
      "meanwhile env q7 = (Inr (), q8)"
      "with_approval_document_context_current snapshot (evaluate_explicit env requested (ds_url snapshot)) q8 = (Inr (), p')"
    and v: "lift_nav_validate (nav_validate (base_env env) n allow url) = Inr requested"
    using assms(1) unfolding navigate_prepare_def st_seq_Inr_iff st_bind_Inr_iff by (auto simp del: st_modify_def)
  have "guarded q3"
    using quiet_guard [OF calmD [OF calm_meanwhile run(1)]] quiet_guard [OF calmD [OF calm_check_rejection run(2)]]
      quiet_guard [OF calmD [OF calm_tick run(3)]] assms(2) by (simp add: guarded_def)
  from configure_installs [OF run(4) this] have "np_interceptor p' \<and> np_fetch p'"
    using quiet_guard [OF calmD [OF calm_read_document run(5)]] quiet_guard [OF calmD [OF calm_tick run(6)]]
      quiet_guard [OF calmD [OF calm_audit run(7)]] quiet_guard [OF calmD [OF calm_meanwhile run(8)]]
      quiet_guard [OF calmD [OF calm_with_context [OF calm_evaluate_explicit] run(9)]] by simp
  moreover have "was_permitted env requested"
    using run(9) by (auto simp: with_approval_document_context_current_def evaluate_explicit_def st_bind_def nav_tick_def
        was_permitted_def split: if_splits prod.splits sum.splits)
  moreover have "nav_validate (base_env env) n allow url = Ret (Inr requested)"
    using v by (auto simp: lift_nav_validate_def split: call.splits sum.splits)
  ultimately show ?thesis by blast
qed

lemma keeps_log_prepare: "keeps nav_log (navigate_prepare env url allow)"
  unfolding navigate_prepare_def by (intro keeps_intros)

lemma meanwhile_Inr: "\<exists>q. meanwhile env p = (Inr (), q)"
  by (simp add: meanwhile_def nav_tick_def st_bind_def)

lemma begin_props:
  assumes "navigate_begin env url allow p = (r, p')" "guarded p"
  shows "case r of
      Inl e \<Rightarrow> nav_log p' = nav_log p
    | Inr (requested, snapshot) \<Rightarrow>
        np_navigated p' = np_navigated p \<and> np_attempts p' = np_attempts p + 1 \<and> np_interceptor p' \<and> np_fetch p' \<and>
        was_permitted env requested \<and> (\<exists>n. nav_validate (base_env env) n allow url = Ret (Inr requested))"
proof -
  obtain r0 q where q: "navigate_prepare env url allow p = (r0, q)" by force
  have log: "nav_log q = nav_log p" by (rule keepsD [OF keeps_log_prepare q])
  show ?thesis
  proof (cases r0)
    case (Inl e)
    then show ?thesis using assms(1) q log by (auto simp: navigate_begin_def st_bind_def)
  next
    case (Inr x)
    obtain requested snapshot where x: "x = (requested, snapshot)" by force
    from prepare_props [OF q [unfolded Inr x] assms(2)] have i: "np_interceptor q" "np_fetch q"
      "was_permitted env requested" "\<exists>n. nav_validate (base_env env) n allow url = Ret (Inr requested)" by blast+
    obtain q1 where m: "meanwhile env q = (Inr (), q1)" using meanwhile_Inr by blast
    have "r = Inr (requested, snapshot)"
      "p' = q1\<lparr>np_observation := starting_request ((np_observation q1)\<lparr>ob_attempt := Some (explicit_attempt requested (ds_url snapshot))\<rparr>),
        np_attempts := np_attempts q1 + 1\<rparr>"
      using assms(1) q m by (auto simp: navigate_begin_def Inr x st_bind_def st_seq_def on_observation_def)
    then show ?thesis using i log quiet_guard [OF calmD [OF calm_meanwhile m]]
        keepsD [OF calm_keeps_log [OF calm_meanwhile] m] by (simp add: nav_log_def)
  qed
qed

lemma settle_props:
  "\<exists>f p'. navigate_settle env initial result p = (Inr f, p') \<and> no_grants p' \<and>
     pg_index (np_session p') = Map.empty \<and> pg_cache (np_session p') = None \<and> nav_log p' = nav_log p"
proof -
  let ?p0 = "p\<lparr>np_session := leave_page (np_session p)\<rparr>"
  obtain q1 where m1: "meanwhile env ?p0 = (Inr (), q1)" using meanwhile_Inr by blast
  let ?q1 = "q1\<lparr>np_observation := (np_observation q1)\<lparr>ob_attempt := None, ob_rejection := None\<rparr>\<rparr>"
  obtain q2 where m2: "meanwhile env ?q1 = (Inr (), q2)" using meanwhile_Inr by blast
  have "navigate_settle env initial result p =
      (Inr (map_option snd (ob_rejection (np_observation q1))), q2\<lparr>np_session := (np_session q2)\<lparr>se_approvals :=
         expire_navigation_approvals (se_approvals (np_session q2)) initial
           (needs_approval (map_option snd (ob_rejection (np_observation q1))) result)\<rparr>\<rparr>)"
    using m1 m2 by (simp add: navigate_settle_def st_seq_def st_bind_def on_session_def on_observation_def)
  moreover have "page_part q2 = page_part ?p0"
    using calmD [OF calm_meanwhile m1] calmD [OF calm_meanwhile m2] by (simp add: quiet_def page_part_def)
  ultimately show ?thesis
    by (simp add: no_grants_def expire_navigation_approvals_def page_part_def leave_page_def nav_log_def)
qed

lemma calm_result: "calm (navigate_result env f result)"
  unfolding navigate_result_def by (intro calm_intros) (auto intro: calm_intros split: option.splits)

lemma result_Inr:
  assumes "navigate_result env f result p = (Inr final, p')" "url_laws (nv_lib env)"
  shows "result = Inr () \<and> (\<exists>u. clean_url (nv_lib env) u \<and> final = ul_as_str (nv_lib env) u)"
proof -
  from assms(1) have "\<exists>(d :: DocumentSnapshot) v. result = Inr () \<and> final = vu_canonical_url v \<and>
      lift_nav_validate (validate_public_navigation_url_with (nv_lib env) (en_sha (nv_session env)) (ds_url d) AllowPrivate
        (\<lambda>_ _. Some [])) = Inr v"
    unfolding navigate_result_def st_seq_Inr_iff st_bind_Inr_iff by auto
  then obtain d :: DocumentSnapshot and v where r: "result = Inr ()" "final = vu_canonical_url v"
    "lift_nav_validate (validate_public_navigation_url_with (nv_lib env) (en_sha (nv_session env)) (ds_url d) AllowPrivate
       (\<lambda>_ _. Some [])) = Inr v" by blast
  from r(3) have "validate_public_navigation_url_with (nv_lib env) (en_sha (nv_session env)) (ds_url d) AllowPrivate
      (\<lambda>_ _. Some []) = Ret (Inr v)"
    by (auto simp: lift_nav_validate_def split: call.splits sum.splits)
  from validated_public [OF assms(2) this] r show ?thesis by blast
qed

lemma end_props:
  assumes "navigate_end env initial result p = (r, p')"
  shows "no_grants p' \<and> pg_index (np_session p') = Map.empty \<and> pg_cache (np_session p') = None \<and> nav_log p' = nav_log p \<and>
    (\<forall>final. url_laws (nv_lib env) \<longrightarrow> r = Inr final \<longrightarrow>
       result = Inr () \<and> (\<exists>u. clean_url (nv_lib env) u \<and> final = ul_as_str (nv_lib env) u))"
proof -
  obtain f q where s: "navigate_settle env initial result p = (Inr f, q)" "no_grants q"
    "pg_index (np_session q) = Map.empty" "pg_cache (np_session q) = None" "nav_log q = nav_log p"
    using settle_props by blast
  have e: "navigate_result env f result q = (r, p')" using assms s(1) by (simp add: navigate_end_def st_bind_def)
  from calmD [OF calm_result e] s result_Inr [of env f result q] e show ?thesis
    by (auto simp: quiet_def page_part_def nav_log_def)
qed

lemma wait_log: "navigate_and_wait env url snapshot p = Some (result, p') \<Longrightarrow>
    np_navigated p' = np_navigated p @ [(url, np_interceptor p \<and> np_fetch p)] \<and> np_attempts p' = np_attempts p"
proof -
  assume a: "navigate_and_wait env url snapshot p = Some (result, p')"
  let ?p0 = "snd (nav_tick p)"
  let ?p1 = "?p0\<lparr>np_navigated := np_navigated ?p0 @ [(url, np_interceptor ?p0 \<and> np_fetch ?p0)]\<rparr>"
  have p0: "np_navigated ?p0 = np_navigated p" "np_attempts ?p0 = np_attempts p"
    "np_interceptor ?p0 = np_interceptor p" "np_fetch ?p0 = np_fetch p" by (simp_all add: nav_tick_def)
  have n: "snd (navigate_to env url p) = ?p1" by (simp add: navigate_to_def st_bind_def st_seq_def nav_tick_def)
  show ?thesis
  proof (cases "fst (navigate_to env url p)")
    case (Inl e)
    then have "navigate_to env url p = (Inl e, ?p1)" using n by (metis prod.collapse)
    then have "p' = ?p1" using a by (simp add: navigate_and_wait_def)
    then show ?thesis using p0 by simp
  next
    case (Inr x)
    then have "navigate_to env url p = (Inr x, ?p1)" using n by (metis prod.collapse)
    then have "wait_for_navigation env (nr_now env (pg_clock (np_session ?p1))) snapshot (snd (nav_tick ?p1)) = Some (result, p')"
      using a by (simp add: navigate_and_wait_def nav_now_run)
    from wait_quiet [OF this] show ?thesis using p0 by (simp add: quiet_def page_part_def nav_tick_def)
  qed
qed


text \<open>
  C9: A public navigation returns, with the page, a rejection or a timeout, if the clock runs on:
  if the readings pass every bound for good then the loop that waits for the page ends, and so
  does the loop that waits after an action.
\<close>

theorem public_navigation_returns:
  assumes "\<forall>bound. \<exists>N. \<forall>n\<ge>N. bound \<le> nr_now env n"
  shows "navigate_with_persistent_boundary env url allow p \<noteq> None \<and> finish_action_navigation env p \<noteq> None"
proof -
  have "wait_for_navigation env started snapshot q \<noteq> None" for started snapshot q
    using assms wait_returns by meson
  then have wait: "\<exists>result q'. navigate_and_wait env url snapshot q = Some (result, q')" for url snapshot q
    by (auto simp: navigate_and_wait_def split: prod.splits sum.splits)
  have "navigate_with_persistent_boundary env url allow p \<noteq> None"
  proof (cases "navigate_begin env url allow p")
    case (Pair r q)
    show ?thesis
    proof (cases r)
      case (Inr x)
      obtain requested snapshot where "x = (requested, snapshot)" by force
      then show ?thesis using wait [of "vu_canonical_url requested" snapshot q] Pair Inr
        by (auto simp: navigate_with_persistent_boundary_def)
    qed (use Pair in \<open>simp add: navigate_with_persistent_boundary_def\<close>)
  qed
  moreover have "await_rejection env deadline q \<noteq> None" for deadline q
    using assms await_returns by meson
  then have "finish_action_navigation env p \<noteq> None"
    by (auto simp: finish_action_navigation_def split: prod.splits sum.splits)
  ultimately show ?thesis ..
qed

section \<open>Examples\<close>

text \<open>A browser that shows the page it is sent to, and says so while the navigation waits for it.\<close>

definition shop_run :: "(string, Host) nav_run_env" where
  "shop_run = nav_env.extend shop_nav
     \<lparr>nr_meanwhile = (\<lambda>n. if n = 13 then [DocumentEvent (PageFrameNavigated (main_frame ''L2'' ''https://shop.test./x'')),
          DocumentEvent (PageLifecycleEvent ''main'' ''L2'' ''networkAlmostIdle'')] else []),
      nr_frame = (\<lambda>n. Inr (if n < 11 then main_frame ''L1'' ''https://shop.test/a'' else main_frame ''L2'' ''https://shop.test./x'')),
      nr_navigate_to = (\<lambda>_ _. Inr ()), nr_ready_state = (\<lambda>_. Inr ''complete''), nr_now = (\<lambda>n. n),
      nr_control = (\<lambda>_ _. Inr ())\<rparr>"

definition shop_nav_page :: "string nav_page" where
  "shop_nav_page = \<lparr>np_observation = first_page, np_session = demo_session [] empty_engine, np_guard = False,
     np_interceptor = False, np_fetch = False, np_attempts = 0, np_navigated = []\<rparr>"

lemma shop_navigates:
  "map_option fst (navigate_with_persistent_boundary shop_run ''https://shop.test./x'' False shop_nav_page) =
     Some (Inr ''https://shop.test/x'')"
  by code_simp


theorem public_navigation_returns_witness:
  "navigate_with_persistent_boundary shop_run ''https://shop.test./x'' True shop_nav_page \<noteq> None \<and>
   finish_action_navigation shop_run shop_nav_page \<noteq> None"
proof -
  have "\<forall>bound. \<exists>N. \<forall>n\<ge>N. bound \<le> nr_now shop_run n" by (auto simp: shop_run_def nav_env.defs)
  then show ?thesis by (rule public_navigation_returns)
qed

end
