(* ===== verification/Spec_Backend.thy ===== *)
theory Spec_Backend
  imports Mcp_Convert Speculative Nav_Public
begin

text \<open>
  The tools of the MCP server that read and change the page, as \<open>CoreRuntimeBackend\<close> implements them
  (\<open>mcp-server/src/backend.rs\<close>, \<open>backend_tools.rs\<close>, \<open>speculative_state.rs\<close>, \<open>tool_args.rs\<close>):
  \<open>get_state\<close> with its cache and its speculative path, \<open>act\<close>, the resets around navigations,
  skills and restarts. What the calls on the page return (\<open>PageSession\<close>, modelled in
  \<open>Enforce\<close>, \<open>Act\<close> and \<open>Nav_Public\<close>) is given by the number of the call; the log of the captures and
  actions is the history the theorems speak of.
\<close>

section \<open>State\<close>

record ActArguments =
  ar_target_id :: "int option"
  ar_target_stable_key :: "string option"
  ar_action :: string
  ar_value :: "string option"

definition action_signature_for_act :: "(string \<Rightarrow> string) \<Rightarrow> ActArguments \<Rightarrow> ActionSignature" where
  "action_signature_for_act sha args =
     (let target = (case ar_target_stable_key args of
                      Some key \<Rightarrow> key
                    | None \<Rightarrow> (case ar_target_id args of Some i \<Rightarrow> show_int i | None \<Rightarrow> []));
          signature = ar_action args @ '':'' @ target
      in case ar_value args of Some v \<Rightarrow> signature @ '':'' @ sha v | None \<Rightarrow> signature)"

text \<open>What the backend did with the page; \<open>Served\<close> is a state sent out without a capture.\<close>

datatype page_event =
    Captured string
  | Acted ActionSignature
  | Served string
  | PageReset
  | RestartAttempt nat

datatype ('pe, 'je) backend_error =
    ProtectionMissing string
  | PageFailure 'pe
  | JsonFailure 'je

record spec_backend =
  sb_state_cache :: "ExternalSemanticState option"
  sb_previous :: "SemanticState option"
  sb_protection_error :: "string option"
  sb_observed_revision :: u64
  sb_restarts :: u64
  sb_restart_history :: "nat list"
  sb_speculative :: SpeculativeInner
  sb_last_action :: "ActionSignature option"
  sb_pending_action :: "ActionSignature option"
  sb_hits :: u64
  sb_misses :: u64
  sb_last_served :: "SpeculativePrediction option"
  sb_chain_broken :: bool
  sb_previous_verified :: bool
  sb_source_hash :: "string option"
  sb_tick :: nat
  sb_log :: "page_event list" \<comment> \<open>most recent first\<close>

text \<open>
  The page, the sanitizer, the JSON library, the clock and the generator of identifiers. Times are
  milliseconds of the monotonic clock; \<open>bk_relaunch\<close> is the restart of the browser up to the
  protection of the new page.
\<close>

record ('pe, 'j, 'op) backend_env = convert_env +
  bk_revision :: "nat \<Rightarrow> u64"
  bk_rejection :: "nat \<Rightarrow> 'pe + unit"
  bk_synchronize :: "nat \<Rightarrow> 'pe + u64"
  bk_capture :: "nat \<Rightarrow> 'pe + SemanticState"
  bk_sanitize :: "SemanticNode \<Rightarrow> SemanticNode"
  bk_url :: "nat \<Rightarrow> 'pe + string"
  bk_bbox :: "nat \<Rightarrow> int \<Rightarrow> 'pe + f64 list option"
  bk_act :: "nat \<Rightarrow> ActArguments \<Rightarrow> act_error + unit"
  bk_relaunch :: "nat \<Rightarrow> string + u64"
  bk_uuid :: "nat \<Rightarrow> string"
  bk_now :: "nat \<Rightarrow> u64"
  bk_instant :: "nat \<Rightarrow> nat"
  bk_json :: "('j, 'op) json_env"

type_synonym ('pe, 'a) backend_op = "(spec_backend, ('pe, string) backend_error, 'a) stateful"

definition bk_tick :: "('pe, nat) backend_op" where
  "bk_tick s = (Inr (sb_tick s), s\<lparr>sb_tick := Suc (sb_tick s)\<rparr>)"

definition page_call :: "(nat \<Rightarrow> 'pe + 'a) \<Rightarrow> ('pe, 'a) backend_op" where
  "page_call f = st_bind bk_tick (\<lambda>n. st_lift (case f n of Inl e \<Rightarrow> Inl (PageFailure e) | Inr a \<Rightarrow> Inr a))"

definition note_event :: "page_event \<Rightarrow> spec_backend \<Rightarrow> spec_backend" where
  "note_event e s = s\<lparr>sb_log := e # sb_log s\<rparr>"

definition new_backend :: "u64 \<Rightarrow> string option \<Rightarrow> spec_backend" where
  "new_backend revision protection_error =
     \<lparr>sb_state_cache = None, sb_previous = None, sb_protection_error = protection_error,
      sb_observed_revision = revision, sb_restarts = 0, sb_restart_history = [],
      sb_speculative = new_inner [], sb_last_action = None, sb_pending_action = None, sb_hits = 0, sb_misses = 0,
      sb_last_served = None, sb_chain_broken = False, sb_previous_verified = True, sb_source_hash = None,
      sb_tick = 0, sb_log = []\<rparr>"

definition reset_navigation_state :: "spec_backend \<Rightarrow> spec_backend" where
  "reset_navigation_state s =
     note_event PageReset
      (s\<lparr>sb_state_cache := None, sb_previous := None, sb_pending_action := None, sb_last_action := None,
        sb_last_served := None, sb_source_hash := None, sb_chain_broken := False, sb_previous_verified := True,
        sb_speculative := clear_action_cursor (sb_speculative s)\<rparr>)"

definition invalidate_after_opaque_skill_mutation :: "spec_backend \<Rightarrow> spec_backend" where
  "invalidate_after_opaque_skill_mutation s = reset_navigation_state s"

definition ensure_navigation_protection :: "('pe, unit) backend_op" where
  "ensure_navigation_protection =
     st_bind (st_get sb_protection_error) (\<lambda>e.
       case e of Some error \<Rightarrow> st_error (ProtectionMissing error) | None \<Rightarrow> st_return ())"

definition adopt_revision :: "u64 \<Rightarrow> ('pe, unit) backend_op" where
  "adopt_revision revision =
     st_modify (\<lambda>s. if revision \<noteq> sb_observed_revision s
                    then (reset_navigation_state s)\<lparr>sb_observed_revision := revision\<rparr> else s)"

definition prepare_navigation_tool :: "('pe, 'j, 'op) backend_env \<Rightarrow> ('pe, unit) backend_op" where
  "prepare_navigation_tool env =
     st_seq ensure_navigation_protection
    (st_bind bk_tick (\<lambda>n.
     st_seq (adopt_revision (bk_revision env n))
    (st_seq (page_call (bk_rejection env))
    (st_bind (page_call (bk_synchronize env)) adopt_revision))))"

section \<open>States sent out\<close>

definition map_interactive_element ::
  "('pe, 'j, 'op) backend_env \<Rightarrow> bool \<Rightarrow> SemanticNode \<Rightarrow> ('pe, ExternalInteractiveElement) backend_op" where
  "map_interactive_element env speculative node =
     st_bind (if \<not> speculative \<and> 0 < sn_id node
              then st_bind (page_call (\<lambda>n. bk_bbox env n (sn_id node))) (\<lambda>b.
                     st_return (case b of Some bbox \<Rightarrow> bbox | None \<Rightarrow> [0, 0, 0, 0]))
              else st_return [0, 0, 0, 0]) (\<lambda>bbox.
       st_return (external_element (convert_env.truncate env) node bbox))"

fun map_elements ::
  "('pe, 'j, 'op) backend_env \<Rightarrow> bool \<Rightarrow> SemanticNode list \<Rightarrow> ('pe, ExternalInteractiveElement list) backend_op" where
  "map_elements env speculative [] = st_return []"
| "map_elements env speculative (node # nodes) =
     st_bind (map_interactive_element env speculative node) (\<lambda>e.
     st_bind (map_elements env speculative nodes) (\<lambda>es. st_return (e # es)))"

definition build_external_state ::
  "('pe, 'j, 'op) backend_env \<Rightarrow> SemanticState \<Rightarrow> bool \<Rightarrow> ('pe, ExternalSemanticState) backend_op" where
  "build_external_state env state speculative =
     st_bind (page_call (bk_url env)) (\<lambda>url.
     st_bind (map_elements env speculative (fs_interactive_elements (generate_fast_state state))) (\<lambda>elements.
       st_return \<lparr>ex_metadata = \<lparr>md_url = url, md_page_instance_id = ss_page_instance_id state,
           md_state_hash = ss_state_hash state, md_load_profile = load_profile_name (ss_load_profile state),
           md_timestamp = ss_timestamp state, md_speculative = speculative\<rparr>,
         ex_interactive_elements = elements\<rparr>))"

section \<open>The speculative path\<close>

datatype SpeculativeOutcome =
    Hit
  | MissForceRefresh
  | MissUnverifiedPriorHit
  | MissNoPendingAction
  | MissNoPrediction
  | MissPredictionMismatch
  | MissPreGenerateNone

definition resolve_speculative_state ::
  "string \<Rightarrow> u64 \<Rightarrow> SpeculativeInner \<Rightarrow> SemanticState option \<Rightarrow> ActionSignature option \<Rightarrow> ActionSignature option \<Rightarrow>
   bool \<Rightarrow> bool \<Rightarrow> SemanticState option \<times> SpeculativePrediction option \<times> SpeculativeOutcome" where
  "resolve_speculative_state uuid now speculative previous_state last_action pending_action force_refresh
     prior_hit_unverified =
     (if force_refresh then (None, None, MissForceRefresh)
      else if prior_hit_unverified then (None, None, MissUnverifiedPriorHit)
      else
        (case (previous_state, pending_action) of
           (Some previous, Some pending) \<Rightarrow>
             (let current_state_hash = ss_state_hash previous
              in case predict speculative current_state_hash last_action of
                   None \<Rightarrow> (None, None, MissNoPrediction)
                 | Some prediction \<Rightarrow>
                     if sp_predicted_action prediction \<noteq> pending then (None, Some prediction, MissPredictionMismatch)
                     else (case pre_generate uuid now speculative current_state_hash last_action of
                             Some snapshot \<Rightarrow> (Some snapshot, Some prediction, Hit)
                           | None \<Rightarrow> (None, Some prediction, MissPreGenerateNone)))
         | _ \<Rightarrow> (None, None, MissNoPendingAction)))"

definition should_record_transition :: "bool \<Rightarrow> SemanticState option \<Rightarrow> ActionSignature option \<Rightarrow> bool" where
  "should_record_transition previous_state_verified previous_state pending_action \<longleftrightarrow>
     previous_state_verified \<and> previous_state \<noteq> None \<and> pending_action \<noteq> None"

text \<open>The prediction and its source are taken whether they are verified or not.\<close>

definition reconcile_served_prediction :: "u64 \<Rightarrow> SemanticState \<Rightarrow> spec_backend \<Rightarrow> spec_backend" where
  "reconcile_served_prediction now state s =
     (case sb_last_served s of
        None \<Rightarrow> s
      | Some served \<Rightarrow>
          (let source_hash = sb_source_hash s;
               s1 = s\<lparr>sb_last_served := None, sb_source_hash := None\<rparr>
           in if sb_pending_action s \<noteq> None \<or> sb_chain_broken s then s1
              else
                (let (delta, speculative) = verify_prediction now served state (sb_speculative s1)
                 in case (delta, source_hash) of
                      (Mismatch predicted_state_hash actual_state_hash _, Some from_hash) \<Rightarrow>
                        s1\<lparr>sb_speculative := correct_transition from_hash (sp_predicted_action served)
                              predicted_state_hash actual_state_hash speculative\<rparr>
                    | _ \<Rightarrow> s1\<lparr>sb_speculative := speculative\<rparr>)))"

definition record_speculative_observation :: "u64 \<Rightarrow> SemanticState \<Rightarrow> spec_backend \<Rightarrow> spec_backend" where
  "record_speculative_observation now state s =
     (let s1 = reconcile_served_prediction now state s;
          s2 = s1\<lparr>sb_speculative := observe_state state (sb_speculative s1)\<rparr>;
          s3 = (case sb_pending_action s2 of
                  None \<Rightarrow> s2
                | Some pending \<Rightarrow>
                    (case sb_previous s2 of
                       Some previous \<Rightarrow>
                         if should_record_transition (sb_previous_verified s2) (sb_previous s2) (sb_pending_action s2) then
                           s2\<lparr>sb_speculative := record_transition (ss_state_hash previous) pending (ss_state_hash state)
                                 (sb_speculative s2)\<rparr>
                         else s2\<lparr>sb_speculative := advance_action_cursor pending (sb_speculative s2)\<rparr>
                     | None \<Rightarrow> s2\<lparr>sb_speculative := advance_action_cursor pending (sb_speculative s2)\<rparr>))
      in s3\<lparr>sb_chain_broken := False, sb_previous_verified := True\<rparr>)"

text \<open>A real capture: what the page returns, sanitized.\<close>

definition capture_page :: "('pe, 'j, 'op) backend_env \<Rightarrow> ('pe, SemanticState) backend_op" where
  "capture_page env =
     st_bind (page_call (bk_capture env)) (\<lambda>raw.
       let state = sanitized_with (cv_sha env) (bk_sanitize env) raw
       in st_seq (st_modify (note_event (Captured (ss_state_hash state)))) (st_return state))"

definition promote_action :: "bool \<Rightarrow> spec_backend \<Rightarrow> spec_backend" where
  "promote_action was_chain_broken s =
     (case sb_pending_action s of
        Some action \<Rightarrow> s\<lparr>sb_pending_action := None, sb_last_action := Some action\<rparr>
      | None \<Rightarrow> if was_chain_broken then s\<lparr>sb_last_action := None\<rparr> else s)"

text \<open>Serving a snapshot consumes the pending action and leaves the cache empty.\<close>

definition serve_snapshot ::
  "('pe, 'j, 'op) backend_env \<Rightarrow> SemanticState \<Rightarrow> SpeculativePrediction option \<Rightarrow>
   ('pe, ExternalSemanticState) backend_op" where
  "serve_snapshot env state prediction =
     st_bind (build_external_state env state True) (\<lambda>payload.
     st_seq (st_modify (\<lambda>s. note_event (Served (ss_state_hash state))
        (s\<lparr>sb_hits := sb_hits s + 1, sb_source_hash := map_option ss_state_hash (sb_previous s),
           sb_last_served := prediction, sb_last_action := sb_pending_action s, sb_pending_action := None,
           sb_previous := Some state, sb_previous_verified := False\<rparr>)))
       (st_return payload))"

definition count_miss :: "SpeculativeOutcome \<Rightarrow> spec_backend \<Rightarrow> spec_backend" where
  "count_miss outcome s =
     (if outcome \<in> {MissNoPrediction, MissPredictionMismatch, MissPreGenerateNone}
      then s\<lparr>sb_misses := sb_misses s + 1\<rparr> else s)"

definition log_missed_prediction ::
  "u64 \<Rightarrow> SemanticState \<Rightarrow> SpeculativeOutcome \<Rightarrow> SpeculativePrediction option \<Rightarrow> spec_backend \<Rightarrow> spec_backend" where
  "log_missed_prediction now state outcome prediction s =
     (case (outcome, prediction) of
        (MissPreGenerateNone, Some p) \<Rightarrow>
          s\<lparr>sb_speculative := snd (verify_prediction now p state (sb_speculative s))\<rparr>
      | _ \<Rightarrow> s)"

definition capture_and_record ::
  "('pe, 'j, 'op) backend_env \<Rightarrow> SpeculativePrediction option \<Rightarrow> SpeculativeOutcome \<Rightarrow>
   ('pe, ExternalSemanticState) backend_op" where
  "capture_and_record env prediction outcome =
     st_bind (capture_page env) (\<lambda>state.
     st_bind (st_get sb_chain_broken) (\<lambda>was_chain_broken.
     st_bind bk_tick (\<lambda>n.
     st_seq (st_modify (record_speculative_observation (bk_now env n) state))
    (st_seq (st_modify (log_missed_prediction (bk_now env n) state outcome prediction))
    (st_seq (st_modify (count_miss outcome))
    (st_bind (build_external_state env state False) (\<lambda>payload.
     st_seq (st_modify (promote_action was_chain_broken))
    (st_seq (st_modify (\<lambda>s. s\<lparr>sb_previous := Some state, sb_state_cache := Some payload\<rparr>))
       (st_return payload)))))))))"

definition fresh_state_payload ::
  "('pe, 'j, 'op) backend_env \<Rightarrow> bool \<Rightarrow> ('pe, ExternalSemanticState) backend_op" where
  "fresh_state_payload env force_refresh =
     st_bind bk_tick (\<lambda>n.
     st_bind (st_get (\<lambda>s. resolve_speculative_state (bk_uuid env n) (bk_now env n) (sb_speculative s) (sb_previous s)
               (sb_last_action s) (sb_pending_action s) force_refresh (sb_last_served s \<noteq> None)))
       (\<lambda>(snapshot, prediction, outcome).
          case (outcome, snapshot) of
            (Hit, Some state) \<Rightarrow> serve_snapshot env state prediction
          | _ \<Rightarrow> capture_and_record env prediction outcome))"

definition semantic_state_payload ::
  "('pe, 'j, 'op) backend_env \<Rightarrow> bool \<Rightarrow> ('pe, ExternalSemanticState) backend_op" where
  "semantic_state_payload env force_refresh =
     st_bind (st_get sb_state_cache) (\<lambda>cache.
       case (if force_refresh then None else cache) of
         Some cached \<Rightarrow> st_return cached
       | None \<Rightarrow> fresh_state_payload env force_refresh)"

section \<open>The tools\<close>

datatype StateFormat = JsonFormat | MarkdownFormat
datatype StateDelivery = FullDelivery | DeltaDelivery

record GetStateArguments =
  gs_format :: StateFormat
  gs_force_refresh :: bool
  gs_delivery :: StateDelivery

datatype 'op state_response =
    StateJson ExternalSemanticState
  | StateMarkdown string
  | NoChange string
  | FullState string ExternalSemanticState
  | DeltaState string string "'op list"

definition reset_baseline :: "spec_backend \<Rightarrow> spec_backend" where
  "reset_baseline s =
     s\<lparr>sb_state_cache := None, sb_previous := None, sb_previous_verified := True, sb_pending_action := None,
       sb_last_action := None, sb_last_served := None, sb_source_hash := None, sb_chain_broken := False,
       sb_speculative := clear_action_cursor (sb_speculative s)\<rparr>"

definition update_response ::
  "('pe, 'j, 'op) backend_env \<Rightarrow> 'op StateUpdate \<Rightarrow> ('pe, 'op state_response) backend_op" where
  "update_response env update =
     (case update of
        Noop state_hash \<Rightarrow> st_return (NoChange state_hash)
      | FullUpdate state \<Rightarrow>
          st_bind (build_external_state env state False) (\<lambda>ext.
          st_seq (st_modify (\<lambda>s. s\<lparr>sb_state_cache := Some ext\<rparr>))
            (st_return (FullState (ss_state_hash state) ext)))
      | Delta delta \<Rightarrow>
          st_return (DeltaState (sd_previous_state_hash delta) (sd_next_state_hash delta) (sd_patch delta)))"

definition get_state_delta :: "('pe, 'j, 'op) backend_env \<Rightarrow> bool \<Rightarrow> ('pe, 'op state_response) backend_op" where
  "get_state_delta env force_refresh =
     st_seq (st_modify (\<lambda>s. if force_refresh then reset_baseline s else s))
    (st_bind (capture_page env) (\<lambda>current.
     st_bind (st_get sb_previous) (\<lambda>previous.
     st_bind (st_lift (case select_update (bk_json env) current previous default_delta_policy of
                         Inl e \<Rightarrow> Inl (JsonFailure e) | Inr u \<Rightarrow> Inr u)) (\<lambda>update.
     st_bind (update_response env update) (\<lambda>response.
     st_bind (st_get sb_chain_broken) (\<lambda>was_chain_broken.
     st_bind bk_tick (\<lambda>n.
     st_seq (st_modify (record_speculative_observation (bk_now env n) current))
    (st_seq (st_modify (promote_action was_chain_broken))
    (st_seq (st_modify (\<lambda>s. s\<lparr>sb_previous := Some current\<rparr>))
       (st_return response))))))))))"

definition get_state ::
  "('pe, 'j, 'op) backend_env \<Rightarrow> GetStateArguments \<Rightarrow> ('pe, 'op state_response) backend_op" where
  "get_state env args =
     st_seq (prepare_navigation_tool env)
       (case gs_delivery args of
          FullDelivery \<Rightarrow>
            st_bind (semantic_state_payload env (gs_force_refresh args)) (\<lambda>payload.
              st_return (case gs_format args of
                           JsonFormat \<Rightarrow> StateJson payload
                         | MarkdownFormat \<Rightarrow> StateMarkdown (render_state_markdown payload)))
        | DeltaDelivery \<Rightarrow> get_state_delta env (gs_force_refresh args))"

text \<open>Before an action: a served state that was not verified yet is compared with the page, if it can be captured.\<close>

definition verify_before_act :: "('pe, 'j, 'op) backend_env \<Rightarrow> ('pe, unit) backend_op" where
  "verify_before_act env s =
     (if sb_last_served s \<noteq> None \<and> sb_pending_action s = None \<and> \<not> sb_chain_broken s then
        (case capture_page env s of
           (Inl _, s1) \<Rightarrow> (Inr (), s1)
         | (Inr real_pre, s1) \<Rightarrow>
             (let now = bk_now env (sb_tick s1);
                  s2 = reconcile_served_prediction now real_pre (s1\<lparr>sb_tick := Suc (sb_tick s1)\<rparr>)
              in (Inr (), s2\<lparr>sb_speculative := observe_state real_pre (sb_speculative s2),
                             sb_previous := Some real_pre, sb_previous_verified := True\<rparr>)))
      else (Inr (), s))"

datatype act_response = ActOk | ActRefused act_error | ActFailed act_error

definition is_action_error :: "act_error \<Rightarrow> bool" where
  "is_action_error e =
     (case e of Blocked _ \<Rightarrow> True | HumanApprovalRequired _ _ _ \<Rightarrow> True | VerifyRequired \<Rightarrow> True
      | AskHumanRequired \<Rightarrow> True | _ \<Rightarrow> False)"

definition after_act :: "ActionSignature \<Rightarrow> spec_backend \<Rightarrow> spec_backend" where
  "after_act signature s =
     note_event (Acted signature)
      (let s1 = s\<lparr>sb_state_cache := None\<rparr>
       in if sb_pending_action s1 \<noteq> None \<or> sb_chain_broken s1 then
            s1\<lparr>sb_pending_action := None, sb_chain_broken := True,
               sb_speculative := clear_action_cursor (sb_speculative s1)\<rparr>
          else s1\<lparr>sb_pending_action := Some signature\<rparr>)"

definition act_tool :: "('pe, 'j, 'op) backend_env \<Rightarrow> ActArguments \<Rightarrow> ('pe, act_response) backend_op" where
  "act_tool env args =
     st_seq (prepare_navigation_tool env)
    (st_seq (verify_before_act env)
    (st_bind bk_tick (\<lambda>n.
       case bk_act env n args of
         Inr _ \<Rightarrow> st_seq (st_modify (after_act (action_signature_for_act (cv_sha env) args))) (st_return ActOk)
       | Inl e \<Rightarrow> st_return (if is_action_error e then ActRefused e else ActFailed e))))"

text \<open>What a skill run leaves behind: the number of its successful actions.\<close>

definition after_skill :: "u64 \<Rightarrow> spec_backend \<Rightarrow> spec_backend" where
  "after_skill actions_executed s = (if 0 < actions_executed then invalidate_after_opaque_skill_mutation s else s)"

definition after_navigate :: "bool \<Rightarrow> bool \<Rightarrow> spec_backend \<Rightarrow> spec_backend" where
  "after_navigate browser_io_started succeeded s =
     (if browser_io_started \<or> succeeded then reset_navigation_state s else s)"

definition RESTART_RATE_LIMIT_MAX :: nat where
  "RESTART_RATE_LIMIT_MAX = 3"

definition RESTART_RATE_LIMIT_WINDOW :: nat where
  "RESTART_RATE_LIMIT_WINDOW = 60000"

text \<open>The loop that drops the attempts older than the window from the front.\<close>

definition recent_restarts :: "nat \<Rightarrow> nat list \<Rightarrow> nat list" where
  "recent_restarts now history = dropWhile (\<lambda>oldest. RESTART_RATE_LIMIT_WINDOW < now - oldest) history"

definition handle_browser_disconnect ::
  "('pe, 'j, 'op) backend_env \<Rightarrow> bool \<Rightarrow> spec_backend \<Rightarrow> (string + u64) \<times> spec_backend" where
  "handle_browser_disconnect env managed s =
     (if \<not> managed then (Inl ''browser restart unavailable: no managed BrowserClient'', s)
      else
        (let n = sb_tick s; now = bk_instant env n; history = recent_restarts now (sb_restart_history s);
             s1 = s\<lparr>sb_tick := Suc n, sb_restart_history := history\<rparr>
         in if RESTART_RATE_LIMIT_MAX \<le> length history then (Inl ''browser restart rate limit exceeded (3 restarts within 60s); the Chrome process may be crash-looping'', s1)
            else
              (let s2 = note_event (RestartAttempt now) (s1\<lparr>sb_restart_history := history @ [now]\<rparr>); restart_count = sb_restarts s2 + 1
               in case bk_relaunch env n of
                    Inl reason \<Rightarrow> (Inl reason, s2)
                  | Inr revision \<Rightarrow>
                      (Inr restart_count,
                       note_event PageReset
                        (s2\<lparr>sb_observed_revision := revision, sb_protection_error := None, sb_state_cache := None,
                           sb_previous := None, sb_previous_verified := True, sb_pending_action := None,
                           sb_last_action := None, sb_last_served := None, sb_source_hash := None,
                           sb_chain_broken := False, sb_speculative := reset_session (sb_speculative s2),
                           sb_restarts := restart_count\<rparr>)))))"

end
