(* ===== verification/Spec_History.thy ===== *)
theory Spec_History
  imports Spec_Backend
begin

text \<open>
  What holds in every run of the tools of \<open>Spec_Backend\<close>: the speculative model is trained on
  transitions that took place, served snapshots are checked in turn, restarts are limited; and the runs in which
  the bookkeeping goes wrong.
\<close>

section \<open>Runs\<close>

text \<open>The calls of the tools; \<open>PageRead\<close> stands for those that only prepare and read the page.\<close>

datatype tool_call =
    GetState GetStateArguments
  | ActTool ActArguments
  | Navigated bool bool
  | SkillRan u64
  | PageRead
  | Disconnected bool

fun tool_step :: "('pe, 'j, 'op) backend_env \<Rightarrow> spec_backend \<Rightarrow> tool_call \<Rightarrow> spec_backend" where
  "tool_step env s (GetState args) = snd (get_state env args s)"
| "tool_step env s (ActTool args) = snd (act_tool env args s)"
| "tool_step env s (Navigated io ok) = after_navigate io ok s"
| "tool_step env s (SkillRan n) = snd (st_seq (prepare_navigation_tool env) (st_modify (after_skill n)) s)"
| "tool_step env s PageRead = snd (prepare_navigation_tool env s)"
| "tool_step env s (Disconnected managed) = snd (handle_browser_disconnect env managed s)"

inductive backend_history :: "('pe, 'j, 'op) backend_env \<Rightarrow> spec_backend \<Rightarrow> bool" for env where
  start: "backend_history env (new_backend revision protection_error)"
| call: "backend_history env s \<Longrightarrow> backend_history env (tool_step env s c)"

lemma backend_historyI:
  assumes "backend_history env s" "\<And>r p. I (new_backend r p)" "\<And>s c. I s \<Longrightarrow> I (tool_step env s c)"
  shows "I s"
  using assms(1) by induction (auto intro: assms(2,3))

text \<open>The part of the state that speculation is about; the rest is the cache, the counters and the clock.\<close>

definition spec_part :: "spec_backend \<Rightarrow>
    SemanticState option \<times> TransitionModel \<times> ActionSignature option \<times> SpeculativePrediction option \<times> bool \<times> bool \<times>
    string option \<times> page_event list" where
  "spec_part s = (sb_previous s, in_model (sb_speculative s), sb_pending_action s, sb_last_served s, sb_chain_broken s,
     sb_previous_verified s, sb_source_hash s, sb_log s)"

definition books :: "spec_backend \<Rightarrow>
    SemanticState option \<times> SpeculativeInner \<times> ActionSignature option \<times> SpeculativePrediction option \<times> bool \<times> bool \<times>
    string option \<times> page_event list" where
  "books s = (sb_previous s, sb_speculative s, sb_pending_action s, sb_last_served s, sb_chain_broken s,
     sb_previous_verified s, sb_source_hash s, sb_log s)"

lemma books_part: "books s = books s' \<Longrightarrow> spec_part s = spec_part s'"
  by (simp add: books_def spec_part_def)

lemma keeps_tick [keeps_intros]: "keeps books bk_tick"
  by (simp add: keeps_def bk_tick_def books_def)

lemma keeps_page_call [keeps_intros]: "keeps books (page_call f)"
  unfolding page_call_def by (intro keeps_intros)

lemma keeps_map_elements [keeps_intros]: "keeps books (map_elements env speculative nodes)"
  by (induction nodes) (auto simp: map_interactive_element_def intro!: keeps_intros)

lemma keeps_build [keeps_intros]: "keeps books (build_external_state env state speculative)"
  unfolding build_external_state_def by (intro keeps_intros)

lemma capture_page_cases:
  assumes "capture_page env s = (r, s')"
  obtains (failed) e where "r = Inl e" "books s' = books s"
    | (captured) state where "r = Inr state" "s' = note_event (Captured (ss_state_hash state)) (s\<lparr>sb_tick := Suc (sb_tick s)\<rparr>)"
  using assms
  by (auto simp: capture_page_def page_call_def bk_tick_def st_bind_def st_seq_def Let_def books_def note_event_def
      split: sum.splits)

section \<open>What the model is trained on\<close>

definition on_page :: "page_event \<Rightarrow> bool" where
  "on_page e = (case e of Captured _ \<Rightarrow> True | Acted _ \<Rightarrow> True | PageReset \<Rightarrow> True | _ \<Rightarrow> False)"

definition page_log :: "spec_backend \<Rightarrow> page_event list" where
  "page_log s = filter on_page (sb_log s)"

text \<open>The page was captured with hash \<open>h\<close>, the next thing was \<open>a\<close>, and the next a capture with hash \<open>t\<close>.\<close>

definition took_place :: "page_event list \<Rightarrow> string \<Rightarrow> ActionSignature \<Rightarrow> string \<Rightarrow> bool" where
  "took_place evs h a t \<longleftrightarrow> (\<exists>later earlier. evs = later @ [Captured t, Acted a, Captured h] @ earlier)"

definition trained :: "page_event list \<Rightarrow> SpeculativeInner \<Rightarrow> bool" where
  "trained evs inner \<longleftrightarrow> tables_ok (in_model inner) \<and>
     (\<forall>h a t n. edge (tm_state_transitions (in_model inner)) (h, a) t = Some n \<longrightarrow> took_place evs h a t)"

text \<open>What the backend remembers of the last capture and the actions since.\<close>

definition expects :: "spec_backend \<Rightarrow> bool" where
  "expects s \<longleftrightarrow>
     (sb_pending_action s \<noteq> None \<longrightarrow> \<not> sb_chain_broken s) \<and>
     (case sb_last_served s of
        None \<Rightarrow>
          (\<forall>p. sb_previous s = Some p \<longrightarrow> \<not> sb_chain_broken s \<longrightarrow>
             (case sb_pending_action s of
                None \<Rightarrow> (\<exists>r. page_log s = Captured (ss_state_hash p) # r)
              | Some a \<Rightarrow> (\<exists>r. page_log s = Acted a # Captured (ss_state_hash p) # r)))
      | Some served \<Rightarrow>
          \<not> sb_previous_verified s \<and>
          (sb_pending_action s = None \<longrightarrow> \<not> sb_chain_broken s \<longrightarrow>
             (\<exists>h r. sb_source_hash s = Some h \<and> page_log s = Acted (sp_predicted_action served) # Captured h # r)))"

definition spec_ok :: "spec_backend \<Rightarrow> bool" where
  "spec_ok s \<longleftrightarrow> trained (page_log s) (sb_speculative s) \<and> expects s"

lemma spec_ok_part: "spec_part s' = spec_part s \<Longrightarrow> spec_ok s' = spec_ok s"
  by (simp add: spec_part_def spec_ok_def trained_def expects_def page_log_def cong: option.case_cong)

lemma expects_served:
  "expects s \<Longrightarrow> sb_last_served s = Some served \<Longrightarrow> \<not> sb_previous_verified s"
  "expects s \<Longrightarrow> sb_last_served s = Some served \<Longrightarrow> sb_pending_action s = None \<Longrightarrow> \<not> sb_chain_broken s \<Longrightarrow>
     \<exists>h r. sb_source_hash s = Some h \<and> page_log s = Acted (sp_predicted_action served) # Captured h # r"
  by (simp_all add: expects_def)

lemma expects_verified:
  "expects s \<Longrightarrow> sb_last_served s = None \<Longrightarrow> sb_previous s = Some p \<Longrightarrow> sb_pending_action s = Some a \<Longrightarrow>
     \<exists>r. page_log s = Acted a # Captured (ss_state_hash p) # r"
  "expects s \<Longrightarrow> sb_last_served s = None \<Longrightarrow> sb_previous s = Some p \<Longrightarrow> sb_pending_action s = None \<Longrightarrow>
     \<not> sb_chain_broken s \<Longrightarrow> \<exists>r. page_log s = Captured (ss_state_hash p) # r"
  by (simp_all add: expects_def)

lemma page_log_event [simp]: "page_log (note_event e s) = (if on_page e then e # page_log s else page_log s)"
  by (simp add: page_log_def note_event_def)

lemma on_page_simps [simp]:
  "on_page (Captured h)" "on_page (Acted a)" "on_page PageReset" "\<not> on_page (Served h)" "\<not> on_page (RestartAttempt t)"
  by (simp_all add: on_page_def)

lemma took_place_later: "took_place evs h a t \<Longrightarrow> took_place (e # evs) h a t"
  unfolding took_place_def by (metis append_Cons)

lemma took_place_now: "took_place (Captured t # Acted a # Captured h # r) h a t"
  unfolding took_place_def by (rule exI [of _ "[]"]) simp

lemma trained_later: "trained evs inner \<Longrightarrow> trained (e # evs) inner"
  unfolding trained_def by (blast intro: took_place_later)

lemma trained_model: "in_model inner' = in_model inner \<Longrightarrow> trained evs inner' = trained evs inner"
  by (simp add: trained_def)

lemma in_model_simps [simp]:
  "in_model (observe_state s inner) = in_model inner"
  "in_model (snd (verify_prediction now p s inner)) = in_model inner"
  "in_model (clear_action_cursor inner) = in_model inner"
  "in_model (advance_action_cursor a inner) = in_model inner"
  "in_model (reset_session inner) = in_model inner"
  by (auto simp: observe_state_def verify_prediction_def clear_action_cursor_def advance_action_cursor_def
      reset_session_def Let_def split: option.split list.split)

lemma trainedI:
  "tables_ok (in_model inner) \<Longrightarrow>
   (\<And>h a t n. edge (tm_state_transitions (in_model inner)) (h, a) t = Some n \<Longrightarrow> took_place evs h a t) \<Longrightarrow> trained evs inner"
  unfolding trained_def by blast

lemma trainedD:
  assumes "trained evs inner"
  shows "tables_ok (in_model inner)"
    and "edge (tm_state_transitions (in_model inner)) (h, a) t = Some n \<Longrightarrow> took_place evs h a t"
  using assms unfolding trained_def by blast+

lemma trained_record:
  assumes "trained evs inner" "took_place evs h a t"
  shows "trained evs (record_transition h a t inner)"
proof (rule trainedI)
  show "tables_ok (in_model (record_transition h a t inner))"
    using trainedD(1) [OF assms(1)] by (auto simp: record_transition_def)
  fix h' a' t' n assume "edge (tm_state_transitions (in_model (record_transition h a t inner))) (h', a') t' = Some n"
  then consider "(h', a', t') = (h, a, t)" | "edge (tm_state_transitions (in_model inner)) (h', a') t' = Some n"
    by (auto simp: record_transition_def record_edge_tables edge_add_edge split: if_splits)
  then show "took_place evs h' a' t'"
    by cases (use assms(2) trainedD(2) [OF assms(1)] in simp_all)
qed

lemma trained_correct:
  assumes "trained evs inner" "took_place evs h a t"
  shows "trained evs (correct_transition h a stale t inner)"
proof (rule trainedI)
  have wf: "wf_table (tm_state_transitions (in_model inner))"
    using trainedD(1) [OF assms(1)] by (simp add: tables_ok_def)
  show "tables_ok (in_model (correct_transition h a stale t inner))"
    using trainedD(1) [OF assms(1)] by (auto simp: correct_transition_def)
  fix h' a' t' n assume "edge (tm_state_transitions (in_model (correct_transition h a stale t inner))) (h', a') t' = Some n"
  then have "(h', a', t') = (h, a, t) \<or>
      edge (tm_state_transitions (forget_edge h a stale (in_model inner))) (h', a') t' = Some n"
    by (simp add: correct_transition_def correct_edge_def record_edge_tables edge_add_edge split: if_splits)
  moreover have "\<exists>m. edge (tm_state_transitions (in_model inner)) (h', a') t' = Some m"
    if "edge (tm_state_transitions (forget_edge h a stale (in_model inner))) (h', a') t' = Some n"
    using that by (simp add: edge_forget [OF wf] split: option.splits)
  ultimately consider "(h', a', t') = (h, a, t)"
    | m where "edge (tm_state_transitions (in_model inner)) (h', a') t' = Some m" by metis
  then show "took_place evs h' a' t'"
    by cases (use assms(2) trainedD(2) [OF assms(1)] in simp_all)
qed

lemma trained_observe [simp]: "trained evs (observe_state s inner) = trained evs inner"
  by (rule trained_model) simp

lemma verify_prediction_eq:
  "verify_prediction now p state inner = (Mismatch old new snapshot, inner') \<Longrightarrow>
     sp_predicted_state_hash p = Some old \<and> new = ss_state_hash state \<and> old \<noteq> new \<and> in_model inner' = in_model inner"
  by (auto simp: verify_prediction_def Let_def split: option.splits if_splits)

text \<open>
  Once a capture is made, the prediction behind a served state is dropped; what is corrected in the
  model took place.
\<close>

lemma reconcile_trained:
  assumes "spec_ok s" "sb_pending_action s1 = sb_pending_action s" "sb_chain_broken s1 = sb_chain_broken s"
    "sb_last_served s1 = sb_last_served s" "sb_source_hash s1 = sb_source_hash s" "sb_speculative s1 = sb_speculative s"
    "page_log s1 = Captured (ss_state_hash state) # page_log s"
  shows "trained (page_log s1) (sb_speculative (reconcile_served_prediction now state s1))"
proof -
  let ?evs = "page_log s1"
  have t: "trained ?evs (sb_speculative s1)" using assms by (auto simp: spec_ok_def intro: trained_later)
  show ?thesis
  proof (cases "sb_last_served s1")
    case None
    then show ?thesis using t by (simp add: reconcile_served_prediction_def)
  next
    case (Some served)
    show ?thesis
    proof (cases "sb_pending_action s1 \<noteq> None \<or> sb_chain_broken s1")
      case True
      then show ?thesis using t Some by (simp add: reconcile_served_prediction_def Let_def)
    next
      case False
      with assms Some obtain h r where h: "sb_source_hash s1 = Some h"
        "page_log s = Acted (sp_predicted_action served) # Captured h # r"
        using expects_served(2) [of s served] by (auto simp: spec_ok_def)
      have took: "took_place ?evs h (sp_predicted_action served) (ss_state_hash state)"
        using assms(7) h(2) by (simp add: took_place_now)
      obtain delta inner' where v: "verify_prediction now served state (sb_speculative s1) = (delta, inner')" by force
      then have m: "in_model inner' = in_model (sb_speculative s1)" using in_model_simps(2) by (metis snd_conv)
      have t': "trained ?evs inner'" using t trained_model [OF m] by simp
      show ?thesis
      proof (cases delta)
        case (Match x)
        then show ?thesis using t' v Some False by (simp add: reconcile_served_prediction_def Let_def)
      next
        case (Mismatch old new snapshot)
        with v verify_prediction_eq have "new = ss_state_hash state" by blast
        then show ?thesis using trained_correct [OF t' took, of old] v Some False h(1) Mismatch
          by (simp add: reconcile_served_prediction_def Let_def)
      qed
    qed
  qed
qed

lemma reconcile_keeps [simp]:
  "sb_pending_action (reconcile_served_prediction now state s) = sb_pending_action s"
  "sb_previous (reconcile_served_prediction now state s) = sb_previous s"
  "sb_chain_broken (reconcile_served_prediction now state s) = sb_chain_broken s"
  "sb_previous_verified (reconcile_served_prediction now state s) = sb_previous_verified s"
  "sb_last_served (reconcile_served_prediction now state s) = None"
  "sb_log (reconcile_served_prediction now state s) = sb_log s"
  "page_log (reconcile_served_prediction now state s) = page_log s"
  "sb_state_cache (reconcile_served_prediction now state s) = sb_state_cache s"
  by (auto simp: reconcile_served_prediction_def page_log_def Let_def split: option.splits prod.split StateDelta.split)

text \<open>A capture taken into the books, the pending action promoted and the state kept as the previous one.\<close>

definition absorbed :: "u64 \<Rightarrow> SemanticState \<Rightarrow> spec_backend \<Rightarrow> spec_backend" where
  "absorbed now state s =
     (promote_action (sb_chain_broken s) (record_speculative_observation now state s))\<lparr>sb_previous := Some state\<rparr>"

lemma observation_keeps [simp]:
  "sb_pending_action (record_speculative_observation now state s) = sb_pending_action s"
  "sb_previous (record_speculative_observation now state s) = sb_previous s"
  "\<not> sb_chain_broken (record_speculative_observation now state s)"
  "sb_previous_verified (record_speculative_observation now state s)"
  "sb_last_served (record_speculative_observation now state s) = None"
  "sb_log (record_speculative_observation now state s) = sb_log s"
  "page_log (record_speculative_observation now state s) = page_log s"
  "sb_state_cache (record_speculative_observation now state s) = sb_state_cache s"
  by (auto simp: record_speculative_observation_def page_log_def Let_def split: option.split)

lemma observation_trained:
  assumes "spec_ok s" "books s1 = books (note_event (Captured (ss_state_hash state)) s)"
  shows "trained (page_log s1) (sb_speculative (record_speculative_observation now state s1))"
proof -
  let ?s2 = "reconcile_served_prediction now state s1"
  have same: "sb_pending_action s1 = sb_pending_action s" "sb_chain_broken s1 = sb_chain_broken s"
    "sb_last_served s1 = sb_last_served s" "sb_source_hash s1 = sb_source_hash s" "sb_speculative s1 = sb_speculative s"
    "sb_previous s1 = sb_previous s" "sb_previous_verified s1 = sb_previous_verified s"
    and l: "page_log s1 = Captured (ss_state_hash state) # page_log s"
    using assms(2) by (simp_all add: books_def note_event_def page_log_def)
  have t: "trained (page_log s1) (sb_speculative ?s2)" by (rule reconcile_trained [OF assms(1) same(1-5) l])
  have took: "took_place (page_log s1) (ss_state_hash p) a (ss_state_hash state)"
    if p: "sb_previous_verified s1" "sb_previous s1 = Some p" "sb_pending_action s1 = Some a" for p a
  proof -
    have e: "expects s" using assms(1) by (simp add: spec_ok_def)
    have "sb_last_served s = None"
      using expects_served(1) [OF e] same p(1) by (cases "sb_last_served s") simp_all
    moreover have "sb_previous s = Some p" "sb_pending_action s = Some a" using same p by simp_all
    ultimately obtain r where "page_log s = Acted a # Captured (ss_state_hash p) # r"
      using expects_verified(1) [OF e] by blast
    then show ?thesis using l by (simp add: took_place_now)
  qed
  show ?thesis
  proof (cases "sb_pending_action s1")
    case None
    then show ?thesis using t by (simp add: record_speculative_observation_def Let_def)
  next
    case (Some a)
    show ?thesis
    proof (cases "sb_previous_verified s1 \<and> sb_previous s1 \<noteq> None")
      case True
      then obtain p where p: "sb_previous s1 = Some p" by auto
      with True Some trained_record [OF _ took] t show ?thesis
        by (simp add: record_speculative_observation_def should_record_transition_def Let_def)
    next
      case False
      then have "in_model (sb_speculative (record_speculative_observation now state s1)) = in_model (sb_speculative ?s2)"
        using Some by (cases "sb_previous s1") (simp_all add: record_speculative_observation_def should_record_transition_def Let_def)
      from trained_model [OF this] t show ?thesis by simp
    qed
  qed
qed

lemma promote_keeps [simp]:
  "sb_pending_action (promote_action b s) = None"
  "sb_chain_broken (promote_action b s) = sb_chain_broken s"
  "sb_last_served (promote_action b s) = sb_last_served s"
  "sb_previous_verified (promote_action b s) = sb_previous_verified s"
  "sb_source_hash (promote_action b s) = sb_source_hash s"
  "sb_speculative (promote_action b s) = sb_speculative s"
  "sb_log (promote_action b s) = sb_log s"
  "page_log (promote_action b s) = page_log s"
  "sb_state_cache (promote_action b s) = sb_state_cache s"
  by (auto simp: promote_action_def page_log_def split: option.split)

lemma expectsI:
  assumes "sb_pending_action s \<noteq> None \<Longrightarrow> \<not> sb_chain_broken s"
    and "\<And>p. sb_last_served s = None \<Longrightarrow> sb_previous s = Some p \<Longrightarrow> \<not> sb_chain_broken s \<Longrightarrow>
       sb_pending_action s = None \<Longrightarrow> \<exists>r. page_log s = Captured (ss_state_hash p) # r"
    and "\<And>p a. sb_last_served s = None \<Longrightarrow> sb_previous s = Some p \<Longrightarrow> \<not> sb_chain_broken s \<Longrightarrow>
       sb_pending_action s = Some a \<Longrightarrow> \<exists>r. page_log s = Acted a # Captured (ss_state_hash p) # r"
    and "\<And>served. sb_last_served s = Some served \<Longrightarrow> \<not> sb_previous_verified s \<and>
       (sb_pending_action s = None \<longrightarrow> \<not> sb_chain_broken s \<longrightarrow>
          (\<exists>h r. sb_source_hash s = Some h \<and> page_log s = Acted (sp_predicted_action served) # Captured h # r))"
  shows "expects s"
  unfolding expects_def using assms(1) assms(2,3) assms(4)
  by (cases "sb_last_served s"; cases "sb_pending_action s") simp_all

lemma page_log_tick [simp]: "page_log (s\<lparr>sb_tick := n\<rparr>) = page_log s"
  by (simp add: page_log_def)

text \<open>After a capture is absorbed, the state is what was captured last.\<close>

lemma absorbed_ok:
  assumes "spec_ok s" "books s1 = books (note_event (Captured (ss_state_hash state)) s)"
  shows "spec_ok (absorbed now state s1)"
proof -
  have l: "page_log (absorbed now state s1) = page_log s1" by (simp add: absorbed_def page_log_def)
  have h: "page_log s1 = Captured (ss_state_hash state) # page_log s"
    using assms(2) by (simp add: books_def note_event_def page_log_def)
  have "trained (page_log (absorbed now state s1)) (sb_speculative (absorbed now state s1))"
    using observation_trained [OF assms, of now] l by (simp add: absorbed_def)
  moreover have "expects (absorbed now state s1)" using l h by (intro expectsI) (simp_all add: absorbed_def)
  ultimately show ?thesis by (simp add: spec_ok_def)
qed

lemma spec_ok_books: "books s' = books s \<Longrightarrow> spec_ok s' = spec_ok s"
  by (rule spec_ok_part) (rule books_part)

lemma preserves_part: "keeps books m \<Longrightarrow> preserves spec_ok m"
  unfolding keeps_def preserves_def using spec_ok_books by blast

lemma reset_ok: "spec_ok s \<Longrightarrow> spec_ok (reset_navigation_state s)"
  unfolding spec_ok_def
proof (intro conjI)
  assume "trained (page_log s) (sb_speculative s) \<and> expects s"
  then have "trained (PageReset # page_log s) (clear_action_cursor (sb_speculative s))"
    using trained_model [of "clear_action_cursor (sb_speculative s)" "sb_speculative s"] trained_later by simp
  then show "trained (page_log (reset_navigation_state s)) (sb_speculative (reset_navigation_state s))"
    by (simp add: reset_navigation_state_def note_event_def page_log_def)
  show "expects (reset_navigation_state s)"
    by (intro expectsI) (simp_all add: reset_navigation_state_def note_event_def)
qed

lemma spec_ok_revision [simp]: "spec_ok (s\<lparr>sb_observed_revision := r\<rparr>) = spec_ok s"
  by (rule spec_ok_part) (simp add: spec_part_def)

lemma preserves_adopt [preserves_intros]: "preserves spec_ok (adopt_revision r)"
  unfolding adopt_revision_def by (intro preserves_intros) (auto intro: reset_ok)

lemma keeps_protection [keeps_intros]: "keeps books ensure_navigation_protection"
  unfolding ensure_navigation_protection_def by (auto intro!: keeps_intros split: option.split)

lemma preserves_prepare [preserves_intros]: "preserves spec_ok (prepare_navigation_tool env)"
  unfolding prepare_navigation_tool_def by (intro preserves_intros preserves_part keeps_intros)

section \<open>Calls that do not fail halfway\<close>

text \<open>
  After a capture, the address, the boxes and the update are computed; an error there leaves the books
  half written (\<open>a_failed_reading_trains_a_false_edge\<close> below).
\<close>

definition reads_succeed :: "('pe, 'j, 'op) backend_env \<Rightarrow> bool" where
  "reads_succeed env \<longleftrightarrow>
     (\<forall>n. \<exists>url. bk_url env n = Inr url) \<and> (\<forall>n i. \<exists>b. bk_bbox env n i = Inr b) \<and>
     (\<forall>state previous. \<exists>u. select_update (bk_json env) state previous default_delta_policy = Inr u)"

lemma page_call_total: "\<exists>a. f (sb_tick s) = Inr a \<Longrightarrow> \<exists>a s'. page_call f s = (Inr a, s')"
  by (auto simp: page_call_def bk_tick_def st_bind_def)

lemma map_elements_total:
  assumes "reads_succeed env"
  shows "\<exists>es s'. map_elements env speculative nodes s = (Inr es, s')"
proof (induction nodes arbitrary: s)
  case (Cons node nodes)
  have "\<exists>b s'. page_call (\<lambda>n. bk_bbox env n (sn_id node)) s = (Inr b, s')" for s
    by (rule page_call_total) (use assms in \<open>simp add: reads_succeed_def\<close>)
  then have "\<exists>e s'. map_interactive_element env speculative node s = (Inr e, s')"
    by (auto simp: map_interactive_element_def st_bind_def split: prod.splits sum.splits) (metis Pair_inject sum.distinct(1))
  then obtain e s1 where "map_interactive_element env speculative node s = (Inr e, s1)" by blast
  moreover obtain es s2 where "map_elements env speculative nodes s1 = (Inr es, s2)" using Cons.IH by blast
  ultimately show ?case by (simp add: st_run)
qed simp

lemma build_total:
  assumes "reads_succeed env"
  shows "\<exists>p s'. build_external_state env state speculative s = (Inr p, s')"
proof -
  obtain url s1 where "page_call (bk_url env) s = (Inr url, s1)"
    using page_call_total [of "bk_url env" s] assms by (auto simp: reads_succeed_def)
  moreover obtain es s2 where "map_elements env speculative (fs_interactive_elements (generate_fast_state state)) s1 = (Inr es, s2)"
    using map_elements_total [OF assms] by blast
  ultimately show ?thesis by (simp add: build_external_state_def st_run)
qed

lemma count_miss_part [simp]: "spec_part (count_miss outcome s) = spec_part s"
  by (simp add: count_miss_def spec_part_def)

lemma log_missed_part [simp]: "spec_part (log_missed_prediction now state outcome prediction s) = spec_part s"
  by (auto simp: log_missed_prediction_def spec_part_def split: SpeculativeOutcome.split option.split)

lemma promoted_part:
  "spec_part s = spec_part s' \<Longrightarrow>
     spec_part ((promote_action b s)\<lparr>sb_previous := p, sb_state_cache := c\<rparr>) = spec_part ((promote_action b s')\<lparr>sb_previous := p\<rparr>)"
  "spec_part s = spec_part s' \<Longrightarrow>
     spec_part ((promote_action b s)\<lparr>sb_previous := p\<rparr>) = spec_part ((promote_action b s')\<lparr>sb_previous := p\<rparr>)"
  by (simp_all add: spec_part_def)

lemma preserves_capture_and_record:
  assumes "reads_succeed env"
  shows "preserves spec_ok (capture_and_record env prediction outcome)"
  unfolding preserves_def
proof (intro allI impI)
  fix s assume ok: "spec_ok s"
  obtain r s1 where c: "capture_page env s = (r, s1)" by force
  show "spec_ok (snd (capture_and_record env prediction outcome s))"
    using c
  proof (cases rule: capture_page_cases)
    case (failed e)
    then show ?thesis using c ok spec_ok_books [OF failed(2)] by (simp add: capture_and_record_def st_run)
  next
    case (captured state)
    let ?n = "sb_tick s1" and ?s2 = "s1\<lparr>sb_tick := Suc (sb_tick s1)\<rparr>"
    let ?s3 = "record_speculative_observation (bk_now env ?n) state ?s2"
    let ?s4 = "log_missed_prediction (bk_now env ?n) state outcome prediction ?s3"
    obtain payload s5 where b: "build_external_state env state False (count_miss outcome ?s4) = (Inr payload, s5)"
      using build_total [OF assms] by blast
    have p5: "spec_part s5 = spec_part ?s3"
      using books_part [OF keepsD [OF keeps_build b]] by simp
    have "capture_and_record env prediction outcome s =
        (Inr payload, (promote_action (sb_chain_broken s1) s5)\<lparr>sb_previous := Some state, sb_state_cache := Some payload\<rparr>)"
      using c captured(1) b by (simp add: capture_and_record_def bk_tick_def st_seq_def st_bind_def)
    moreover have p: "spec_part ((promote_action (sb_chain_broken s1) s5)\<lparr>sb_previous := Some state, sb_state_cache := Some payload\<rparr>) =
        spec_part (absorbed (bk_now env ?n) state ?s2)"
      unfolding absorbed_def using promoted_part(1) [OF p5] by simp
    ultimately show ?thesis
      using absorbed_ok [OF ok, of ?s2 state] captured(2) spec_ok_part [OF p] by (simp add: books_def note_event_def)
  qed
qed

section \<open>Serving a snapshot\<close>

lemma resolve_hit:
  assumes "resolve_speculative_state uuid now inner previous last_act pending force prior = (snapshot, prediction, Hit)"
  obtains prev a p state where "\<not> force" "\<not> prior" "previous = Some prev" "pending = Some a" "prediction = Some p"
    "sp_predicted_action p = a" "snapshot = Some state" "predict inner (ss_state_hash prev) last_act = Some p"
    "pre_generate uuid now inner (ss_state_hash prev) last_act = Some state"
proof -
  from assms have f: "\<not> force" "\<not> prior" by (auto simp: resolve_speculative_state_def split: if_splits)
  from assms f obtain prev a where pa: "previous = Some prev" "pending = Some a"
    by (auto simp: resolve_speculative_state_def split: option.splits)
  from assms f pa obtain p where p: "predict inner (ss_state_hash prev) last_act = Some p"
    by (auto simp: resolve_speculative_state_def Let_def split: option.splits)
  from assms f pa p have q: "sp_predicted_action p = a"
    by (auto simp: resolve_speculative_state_def Let_def split: if_splits)
  from assms f pa p q obtain state where s: "pre_generate uuid now inner (ss_state_hash prev) last_act = Some state"
    by (auto simp: resolve_speculative_state_def Let_def split: option.splits)
  from assms f pa p q s have r: "snapshot = Some state" "prediction = Some p"
    by (simp_all add: resolve_speculative_state_def)
  show thesis by (rule that [OF f pa r(2) q r(1) p s])
qed

lemma serve_ok:
  assumes "spec_ok s" "sb_last_served s = None" "sb_previous s = Some prev" "sb_pending_action s = Some a"
    "sp_predicted_action p = a"
  shows "spec_ok (snd (serve_snapshot env state (Some p) s))"
proof -
  obtain r s1 where b: "build_external_state env state True s = (r, s1)" by force
  have part: "spec_part s1 = spec_part s" by (rule books_part [OF keepsD [OF keeps_build b]])
  show ?thesis
  proof (cases r)
    case (Inl e)
    then show ?thesis using b assms(1) spec_ok_part [OF part] by (simp add: serve_snapshot_def st_run)
  next
    case (Inr payload)
    let ?s2 = "note_event (Served (ss_state_hash state))
        (s1\<lparr>sb_hits := sb_hits s1 + 1, sb_source_hash := map_option ss_state_hash (sb_previous s1),
           sb_last_served := Some p, sb_last_action := sb_pending_action s1, sb_pending_action := None,
           sb_previous := Some state, sb_previous_verified := False\<rparr>)"
    have s2: "snd (serve_snapshot env state (Some p) s) = ?s2"
      using b Inr by (simp add: serve_snapshot_def st_run st_seq_def st_bind_def)
    have same: "page_log s1 = page_log s" "sb_previous s1 = Some prev" "sb_pending_action s1 = Some a"
      "in_model (sb_speculative s1) = in_model (sb_speculative s)"
      using part assms(3,4) by (simp_all add: spec_part_def page_log_def)
    obtain r where r: "page_log s = Acted a # Captured (ss_state_hash prev) # r"
      using expects_verified(1) [OF _ assms(2-4)] assms(1) by (auto simp: spec_ok_def)
    have l: "page_log ?s2 = page_log s" using same(1) by (simp add: page_log_def note_event_def)
    have "trained (page_log ?s2) (sb_speculative ?s2)"
      using assms(1) l trained_model [OF same(4)] by (simp add: spec_ok_def note_event_def)
    moreover have "expects ?s2"
      using same r l assms(5) by (intro expectsI) (simp_all add: note_event_def)
    ultimately show ?thesis unfolding s2 by (simp add: spec_ok_def)
  qed
qed

lemma fresh_state_cases:
  assumes "fresh_state_payload env force s = (r, s')"
  obtains (hit) prev a p state where "\<not> force" "sb_last_served s = None" "sb_previous s = Some prev"
      "sb_pending_action s = Some a" "sp_predicted_action p = a"
      "pre_generate (bk_uuid env (sb_tick s)) (bk_now env (sb_tick s)) (sb_speculative s) (ss_state_hash prev)
         (sb_last_action s) = Some state"
      "serve_snapshot env state (Some p) (s\<lparr>sb_tick := Suc (sb_tick s)\<rparr>) = (r, s')"
    | (miss) prediction outcome where "outcome \<noteq> Hit"
      "capture_and_record env prediction outcome (s\<lparr>sb_tick := Suc (sb_tick s)\<rparr>) = (r, s')"
proof -
  let ?n = "sb_tick s" and ?s1 = "s\<lparr>sb_tick := Suc (sb_tick s)\<rparr>"
  obtain snapshot prediction outcome where res: "resolve_speculative_state (bk_uuid env ?n) (bk_now env ?n)
      (sb_speculative s) (sb_previous s) (sb_last_action s) (sb_pending_action s) force (sb_last_served s \<noteq> None) =
      (snapshot, prediction, outcome)" by (metis prod_cases3)
  have run: "(case (outcome, snapshot) of (Hit, Some state) \<Rightarrow> serve_snapshot env state prediction
      | _ \<Rightarrow> capture_and_record env prediction outcome) ?s1 = (r, s')"
    using assms res by (simp add: fresh_state_payload_def bk_tick_def st_bind_def)
  show thesis
  proof (cases "outcome = Hit")
    case True
    obtain prev a p state where h: "\<not> force" "sb_last_served s = None"
      "sb_previous s = Some prev" "sb_pending_action s = Some a" "prediction = Some p" "sp_predicted_action p = a"
      "snapshot = Some state"
      "pre_generate (bk_uuid env ?n) (bk_now env ?n) (sb_speculative s) (ss_state_hash prev) (sb_last_action s) = Some state"
      by (rule resolve_hit [OF res [unfolded True]]) (rule that; simp)
    have "serve_snapshot env state (Some p) ?s1 = (r, s')" using run True h(5,7) by simp
    with h show thesis by (intro hit)
  next
    case False
    then have "capture_and_record env prediction outcome ?s1 = (r, s')" using run by (cases outcome) simp_all
    with False show thesis by (rule miss)
  qed
qed

lemma preserves_fresh:
  assumes "reads_succeed env"
  shows "preserves spec_ok (fresh_state_payload env force)"
  unfolding preserves_def
proof (intro allI impI)
  fix s assume ok: "spec_ok s"
  obtain r s' where f: "fresh_state_payload env force s = (r, s')" by force
  let ?s1 = "s\<lparr>sb_tick := Suc (sb_tick s)\<rparr>"
  have ok1: "spec_ok ?s1" using ok spec_ok_part [of ?s1 s] by (simp add: spec_part_def)
  from f have "spec_ok s'"
  proof (cases rule: fresh_state_cases)
    case (hit prev a p state)
    then show ?thesis using serve_ok [OF ok1, of prev a p env state] by simp
  next
    case (miss prediction outcome)
    then show ?thesis using preservesD [OF preserves_capture_and_record [OF assms] ok1] by blast
  qed
  then show "spec_ok (snd (fresh_state_payload env force s))" by (simp add: f)
qed

lemma preserves_payload: "reads_succeed env \<Longrightarrow> preserves spec_ok (semantic_state_payload env force)"
  unfolding semantic_state_payload_def
  by (intro preserves_intros) (auto split: option.split intro!: preserves_intros preserves_fresh)

section \<open>The other tools\<close>

lemma spec_ok_cache [simp]: "spec_ok (s\<lparr>sb_state_cache := c\<rparr>) = spec_ok s"
  by (rule spec_ok_part) (simp add: spec_part_def)

lemma keeps_update_response [keeps_intros]: "keeps books (update_response env u)"
  unfolding update_response_def
  by (cases u) (auto intro!: keeps_intros simp: books_def)

lemma baseline_ok: "spec_ok s \<Longrightarrow> spec_ok (reset_baseline s)"
  using trained_model [of "clear_action_cursor (sb_speculative s)" "sb_speculative s"]
  by (auto simp: spec_ok_def reset_baseline_def page_log_def intro!: expectsI)

lemma update_response_total:
  assumes "reads_succeed env"
  shows "\<exists>x s'. update_response env u s = (Inr x, s')"
proof (cases u)
  case (FullUpdate state)
  obtain ext s1 where "build_external_state env state False s = (Inr ext, s1)" using build_total [OF assms] by blast
  then show ?thesis by (simp add: FullUpdate update_response_def st_run st_seq_def st_bind_def)
qed (simp_all add: update_response_def)

lemma preserves_delta:
  assumes "reads_succeed env"
  shows "preserves spec_ok (get_state_delta env force)"
  unfolding preserves_def
proof (intro allI impI)
  fix s assume "spec_ok s"
  define s0 where "s0 = (if force then reset_baseline s else s)"
  have ok: "spec_ok s0" using \<open>spec_ok s\<close> baseline_ok by (simp add: s0_def)
  obtain r s1 where c: "capture_page env s0 = (r, s1)" by force
  show "spec_ok (snd (get_state_delta env force s))"
    using c
  proof (cases rule: capture_page_cases)
    case (failed e)
    then show ?thesis using c ok spec_ok_books [OF failed(2)]
      by (simp add: get_state_delta_def st_seq_def st_bind_def flip: s0_def)
  next
    case (captured state)
    obtain u where u: "select_update (bk_json env) state (sb_previous s1) default_delta_policy = Inr u"
      using assms unfolding reads_succeed_def by blast
    obtain x s2 where x: "update_response env u s1 = (Inr x, s2)" using update_response_total [OF assms] by blast
    have same: "books s2 = books s1" by (rule keepsD [OF keeps_update_response x])
    let ?n = "sb_tick s2" and ?s3 = "s2\<lparr>sb_tick := Suc (sb_tick s2)\<rparr>"
    have fin: "snd (get_state_delta env force s) = absorbed (bk_now env ?n) state ?s3"
      using c captured(1) u x by (simp add: get_state_delta_def bk_tick_def absorbed_def st_seq_def st_bind_def flip: s0_def)
    have "books ?s3 = books (note_event (Captured (ss_state_hash state)) s0)"
      using same captured(2) by (simp add: books_def note_event_def)
    from absorbed_ok [OF ok this] show ?thesis unfolding fin .
  qed
qed

lemma preserves_verify_before_act: "preserves spec_ok (verify_before_act env)"
  unfolding preserves_def
proof (intro allI impI)
  fix s assume ok: "spec_ok s"
  show "spec_ok (snd (verify_before_act env s))"
  proof (cases "sb_last_served s \<noteq> None \<and> sb_pending_action s = None \<and> \<not> sb_chain_broken s")
    case True
    obtain r s1 where c: "capture_page env s = (r, s1)" by force
    show ?thesis
      using c
    proof (cases rule: capture_page_cases)
      case (failed e)
      then show ?thesis using c True ok spec_ok_books [OF failed(2)] by (simp add: verify_before_act_def)
    next
      case (captured state)
      let ?s1 = "s1\<lparr>sb_tick := Suc (sb_tick s1)\<rparr>"
      let ?s2 = "reconcile_served_prediction (bk_now env (sb_tick s1)) state ?s1"
      let ?s3 = "?s2\<lparr>sb_speculative := observe_state state (sb_speculative ?s2), sb_previous := Some state,
          sb_previous_verified := True\<rparr>"
      have fin: "snd (verify_before_act env s) = ?s3" using c True captured(1) by (simp add: verify_before_act_def Let_def)
      have same: "sb_pending_action ?s1 = sb_pending_action s" "sb_chain_broken ?s1 = sb_chain_broken s"
        "sb_last_served ?s1 = sb_last_served s" "sb_source_hash ?s1 = sb_source_hash s" "sb_speculative ?s1 = sb_speculative s"
        and l: "page_log ?s1 = Captured (ss_state_hash state) # page_log s"
        using captured(2) by (simp_all add: note_event_def page_log_def)
      have l3: "page_log ?s3 = page_log ?s1" by (simp add: page_log_def)
      have "trained (page_log ?s3) (sb_speculative ?s3)"
        using reconcile_trained [OF ok same l] l3 by simp
      moreover have "expects ?s3" using l l3 True same by (intro expectsI) simp_all
      ultimately show ?thesis unfolding fin spec_ok_def by blast
    qed
  qed (use ok in \<open>auto simp: verify_before_act_def\<close>)
qed

lemma after_act_ok:
  assumes "spec_ok s"
  shows "spec_ok (after_act a s)"
proof -
  have l: "page_log (after_act a s) = Acted a # page_log s" by (simp add: after_act_def page_log_def note_event_def Let_def)
  have "in_model (sb_speculative (after_act a s)) = in_model (sb_speculative s)"
    by (simp add: after_act_def note_event_def Let_def)
  from trained_model [OF this] assms have "trained (page_log (after_act a s)) (sb_speculative (after_act a s))"
    by (simp add: l spec_ok_def trained_later)
  moreover have "expects (after_act a s)"
  proof (cases "sb_pending_action s \<noteq> None \<or> sb_chain_broken s")
    case True
    then show ?thesis using expects_served(1) assms
      by (intro expectsI) (auto simp: after_act_def note_event_def Let_def spec_ok_def)
  next
    case False
    have e: "expects s" using assms by (simp add: spec_ok_def)
    show ?thesis
    proof (rule expectsI)
      fix p b assume "sb_last_served (after_act a s) = None" "sb_previous (after_act a s) = Some p"
        "sb_pending_action (after_act a s) = Some b"
      then show "\<exists>r. page_log (after_act a s) = Acted b # Captured (ss_state_hash p) # r"
        using expects_verified(2) [OF e, of p] False l by (auto simp: after_act_def note_event_def Let_def)
    next
      fix served assume "sb_last_served (after_act a s) = Some served"
      then show "\<not> sb_previous_verified (after_act a s) \<and> (sb_pending_action (after_act a s) = None \<longrightarrow>
          \<not> sb_chain_broken (after_act a s) \<longrightarrow> (\<exists>h r. sb_source_hash (after_act a s) = Some h \<and>
            page_log (after_act a s) = Acted (sp_predicted_action served) # Captured h # r))"
        using expects_served(1) [OF e, of served] False by (simp add: after_act_def note_event_def Let_def)
    qed (use False in \<open>auto simp: after_act_def note_event_def Let_def\<close>)
  qed
  ultimately show ?thesis by (simp add: spec_ok_def)
qed

lemma preserves_act: "preserves spec_ok (act_tool env args)"
  unfolding act_tool_def
  by (intro preserves_intros preserves_verify_before_act preserves_part [OF keeps_tick])
    (auto split: sum.split intro!: preserves_intros after_act_ok)

lemma disconnect_ok:
  assumes "spec_ok s"
  shows "spec_ok (snd (handle_browser_disconnect env managed s))"
proof -
  let ?r = "handle_browser_disconnect env managed s"
  have attempt: "spec_ok (note_event (RestartAttempt n) s)" for n
  proof -
    have "page_log (note_event (RestartAttempt n) s) = page_log s" by (simp add: page_log_def note_event_def)
    moreover have "expects (note_event (RestartAttempt n) s) = expects s"
      by (simp add: expects_def page_log_def note_event_def cong: option.case_cong)
    ultimately show ?thesis using assms by (simp add: spec_ok_def note_event_def)
  qed
  let ?now = "bk_instant env (sb_tick s)"
  let ?h = "recent_restarts ?now (sb_restart_history s)"
  show ?thesis
  proof (cases "managed \<and> length ?h < RESTART_RATE_LIMIT_MAX")
    case False
    then have "books (snd ?r) = books s" by (auto simp: handle_browser_disconnect_def Let_def books_def)
    from spec_ok_books [OF this] assms show ?thesis by simp
  next
    case True
    show ?thesis
    proof (cases "bk_relaunch env (sb_tick s)")
      case (Inl e)
      then have "books (snd ?r) = books (note_event (RestartAttempt ?now) s)"
        using True by (simp add: handle_browser_disconnect_def Let_def books_def note_event_def)
      from spec_ok_books [OF this] attempt show ?thesis by simp
    next
      case (Inr revision)
      then have "spec_part (snd ?r) = spec_part (reset_navigation_state (note_event (RestartAttempt ?now) s))"
        using True by (simp add: handle_browser_disconnect_def Let_def spec_part_def note_event_def reset_navigation_state_def)
      from spec_ok_part [OF this] reset_ok [OF attempt] show ?thesis by simp
    qed
  qed
qed

lemma backend_history_ok:
  assumes "reads_succeed env" "backend_history env s"
  shows "spec_ok s"
  using assms(2)
proof (rule backend_historyI)
  show "spec_ok (new_backend r p)" for r p
    by (auto simp: spec_ok_def new_backend_def new_inner_def intro!: expectsI trainedI) (simp add: new_model_def edge_def)
  fix s c assume ok: "spec_ok s"
  show "spec_ok (tool_step env s c)"
  proof (cases c)
    case (GetState args)
    have "preserves spec_ok (get_state env args)"
      unfolding get_state_def
      by (intro preserves_intros)
        (auto split: StateDelivery.split intro!: preserves_intros preserves_payload preserves_delta assms(1))
    then show ?thesis using ok by (simp add: GetState preserves_def)
  next
    case (ActTool args)
    then show ?thesis using ok preserves_act [of env args] by (simp add: preserves_def)
  next
    case (Navigated io success)
    then show ?thesis using ok reset_ok by (simp add: after_navigate_def)
  next
    case (SkillRan n)
    have "preserves spec_ok (st_seq (prepare_navigation_tool env) (st_modify (after_skill n)))"
      by (intro preserves_intros) (auto simp: after_skill_def invalidate_after_opaque_skill_mutation_def reset_ok)
    then show ?thesis using ok by (simp add: SkillRan preserves_def)
  next
    case PageRead
    then show ?thesis using ok preserves_prepare [of env] by (simp add: preserves_def)
  next
    case (Disconnected managed)
    then show ?thesis using ok disconnect_ok by simp
  qed
qed


section \<open>Served snapshots are checked in turn\<close>

text \<open>A snapshot was served and the page was neither captured nor left since.\<close>

fun awaits_check :: "page_event list \<Rightarrow> bool" where
  "awaits_check [] = False"
| "awaits_check (Served h # r) = True"
| "awaits_check (Captured h # r) = False"
| "awaits_check (PageReset # r) = False"
| "awaits_check (e # r) = awaits_check r"

fun served_in_turn :: "page_event list \<Rightarrow> bool" where
  "served_in_turn [] = True"
| "served_in_turn (Served h # r) = (\<not> awaits_check r \<and> served_in_turn r)"
| "served_in_turn (e # r) = served_in_turn r"

definition serve_inv :: "spec_backend \<Rightarrow> bool" where
  "serve_inv s \<longleftrightarrow> served_in_turn (sb_log s) \<and> (awaits_check (sb_log s) \<longrightarrow> sb_last_served s \<noteq> None \<or> sb_previous s = None) \<and>
     (\<forall>p. sb_state_cache s = Some p \<longrightarrow> \<not> md_speculative (ex_metadata p))"

definition outline :: "spec_backend \<Rightarrow>
    page_event list \<times> SpeculativePrediction option \<times> SemanticState option \<times> ExternalSemanticState option" where
  "outline s = (sb_log s, sb_last_served s, sb_previous s, sb_state_cache s)"

lemma serve_inv_outline: "outline s' = outline s \<Longrightarrow> serve_inv s' = serve_inv s"
  by (simp add: outline_def serve_inv_def)

named_theorems outline_intros \<open>operations that keep the outline\<close>

lemma outline_tick [outline_intros]: "keeps outline bk_tick"
  by (simp add: keeps_def bk_tick_def outline_def)

lemma outline_call [outline_intros]: "keeps outline (page_call f)"
  unfolding page_call_def by (intro keeps_intros outline_intros)

lemma outline_elements [outline_intros]: "keeps outline (map_elements env speculative nodes)"
  by (induction nodes) (auto simp: map_interactive_element_def intro!: keeps_bind keeps_basic keeps_if outline_intros)

lemma outline_build [outline_intros]: "keeps outline (build_external_state env state speculative)"
  unfolding build_external_state_def by (intro keeps_bind keeps_basic outline_intros)

lemma outline_protection [outline_intros]: "keeps outline ensure_navigation_protection"
  unfolding ensure_navigation_protection_def by (auto intro!: keeps_bind keeps_basic split: option.split)

lemma preserves_outline: "keeps outline m \<Longrightarrow> preserves serve_inv m"
  unfolding keeps_def preserves_def using serve_inv_outline by blast

lemma serve_inv_reset [simp]: "serve_inv s \<Longrightarrow> serve_inv (reset_navigation_state s)"
  by (simp add: serve_inv_def reset_navigation_state_def note_event_def)

lemma serve_inv_revision [simp]: "serve_inv (s\<lparr>sb_observed_revision := r\<rparr>) = serve_inv s"
  by (rule serve_inv_outline) (simp add: outline_def)

lemma serve_prepare: "preserves serve_inv (prepare_navigation_tool env)"
  unfolding prepare_navigation_tool_def adopt_revision_def
  by (intro preserves_bind preserves_seq preserves_outline [OF outline_tick] preserves_outline [OF outline_call]
      preserves_outline [OF outline_protection] preserves_modify) auto

lemma build_speculative_flag:
  "build_external_state env state b s = (Inr p, s') \<Longrightarrow>
     md_speculative (ex_metadata p) = b \<and> md_state_hash (ex_metadata p) = ss_state_hash state"
  by (auto simp: build_external_state_def st_bind_def split: prod.splits sum.splits)

lemma serve_capture_and_record: "preserves serve_inv (capture_and_record env prediction outcome)"
  unfolding preserves_def
proof (intro allI impI)
  fix s assume ok: "serve_inv s"
  obtain r s1 where c: "capture_page env s = (r, s1)" by force
  show "serve_inv (snd (capture_and_record env prediction outcome s))"
    using c
  proof (cases rule: capture_page_cases)
    case (failed e)
    then have "sb_state_cache s1 = sb_state_cache s"
      using c by (auto simp: capture_page_def page_call_def bk_tick_def st_bind_def st_seq_def Let_def split: sum.splits)
    with failed have "outline s1 = outline s" by (simp add: books_def outline_def)
    from serve_inv_outline [OF this] show ?thesis using c failed(1) ok by (simp add: capture_and_record_def st_run)
  next
    case (captured state)
    let ?now = "bk_now env (sb_tick s1)"
    let ?s5 = "count_miss outcome (log_missed_prediction ?now state outcome prediction
        (record_speculative_observation ?now state (s1\<lparr>sb_tick := Suc (sb_tick s1)\<rparr>)))"
    have l5: "sb_log ?s5 = Captured (ss_state_hash state) # sb_log s" "sb_state_cache ?s5 = sb_state_cache s"
      using captured(2) by (auto simp: count_miss_def log_missed_prediction_def note_event_def
          split: SpeculativeOutcome.split option.split)
    obtain r6 s6 where b: "build_external_state env state False ?s5 = (r6, s6)" by force
    have same: "outline s6 = outline ?s5" by (rule keepsD [OF outline_build b])
    have run: "snd (capture_and_record env prediction outcome s) =
        (case r6 of Inl _ \<Rightarrow> s6
         | Inr payload \<Rightarrow> (promote_action (sb_chain_broken s1) s6)\<lparr>sb_previous := Some state, sb_state_cache := Some payload\<rparr>)"
      using c captured(1) b by (simp add: capture_and_record_def bk_tick_def st_seq_def st_bind_def split: sum.split)
    show ?thesis
    proof (cases r6)
      case (Inl e)
      then show ?thesis using ok same l5 by (simp add: run serve_inv_def outline_def)
    next
      case (Inr payload)
      then have "\<not> md_speculative (ex_metadata payload)" using build_speculative_flag [OF b [unfolded Inr]] by simp
      then show ?thesis using ok same l5 Inr by (simp add: run serve_inv_def outline_def)
    qed
  qed
qed

lemma serve_fresh: "preserves serve_inv (fresh_state_payload env force)"
  unfolding preserves_def
proof (intro allI impI)
  fix s assume ok: "serve_inv s"
  obtain r s' where f: "fresh_state_payload env force s = (r, s')" by force
  let ?s1 = "s\<lparr>sb_tick := Suc (sb_tick s)\<rparr>"
  have ok1: "serve_inv ?s1" using ok serve_inv_outline [of ?s1 s] by (simp add: outline_def)
  from f have "serve_inv s'"
  proof (cases rule: fresh_state_cases)
    case (hit prev a p state)
    obtain r2 s2 where b: "build_external_state env state True ?s1 = (r2, s2)" by force
    have same: "outline s2 = outline ?s1" by (rule keepsD [OF outline_build b])
    show ?thesis
      using hit(7) b same ok1 hit(2,3)
      by (cases r2) (auto simp: serve_snapshot_def st_run st_seq_def st_bind_def serve_inv_def outline_def note_event_def)
  next
    case (miss prediction outcome)
    then show ?thesis using preservesD [OF serve_capture_and_record ok1] by blast
  qed
  then show "serve_inv (snd (fresh_state_payload env force s))" by (simp add: f)
qed

lemma capture_outline:
  assumes "capture_page env s = (r, s')"
  shows "(\<exists>e. r = Inl e) \<and> outline s' = outline s \<or>
    (\<exists>state. r = Inr state \<and> sb_log s' = Captured (ss_state_hash state) # sb_log s \<and> sb_last_served s' = sb_last_served s \<and>
       sb_previous s' = sb_previous s \<and> sb_state_cache s' = sb_state_cache s)"
  using assms by (auto simp: capture_page_def page_call_def bk_tick_def st_bind_def st_seq_def Let_def note_event_def
      outline_def split: sum.splits)

text \<open>Once the page is captured, nothing awaits a check.\<close>

definition just_captured :: "spec_backend \<Rightarrow> bool" where
  "just_captured s \<longleftrightarrow> served_in_turn (sb_log s) \<and> \<not> awaits_check (sb_log s) \<and>
     (\<forall>p. sb_state_cache s = Some p \<longrightarrow> \<not> md_speculative (ex_metadata p))"

lemma just_captured_inv: "just_captured s \<Longrightarrow> serve_inv s"
  by (simp add: just_captured_def serve_inv_def)

lemma preserves_captured_outline: "keeps outline m \<Longrightarrow> preserves just_captured m"
  unfolding keeps_def preserves_def just_captured_def outline_def by auto

lemma just_captured_simps [simp]:
  "just_captured (record_speculative_observation now state s) = just_captured s"
  "just_captured (promote_action b s) = just_captured s"
  "just_captured (s\<lparr>sb_previous := p\<rparr>) = just_captured s"
  by (simp_all add: just_captured_def)

lemma captured_update_response: "preserves just_captured (update_response env u)"
proof (cases u)
  case (FullUpdate state)
  have "just_captured (s'\<lparr>sb_state_cache := Some ext\<rparr>)"
    if "just_captured s" "build_external_state env state False s = (Inr ext, s')" for s ext s'
    using preservesD [OF preserves_captured_outline [OF outline_build] that] build_speculative_flag [OF that(2)]
    by (simp add: just_captured_def)
  moreover have "just_captured s'" if "just_captured s" "build_external_state env state False s = (Inl e, s')" for s e s'
    using preservesD [OF preserves_captured_outline [OF outline_build] that] .
  ultimately show ?thesis
    by (auto simp: FullUpdate update_response_def preserves_def st_bind_def st_seq_def split: prod.split sum.split)
qed (simp_all add: update_response_def preserves_def)

lemma serve_delta: "preserves serve_inv (get_state_delta env force)"
  unfolding preserves_def
proof (intro allI impI)
  fix s assume "serve_inv s"
  define s0 where "s0 = (if force then reset_baseline s else s)"
  have ok: "serve_inv s0" using \<open>serve_inv s\<close> by (simp add: s0_def reset_baseline_def serve_inv_def)
  obtain r s1 where c: "capture_page env s0 = (r, s1)" by force
  from capture_outline [OF c] show "serve_inv (snd (get_state_delta env force s))"
  proof (elim disjE conjE exE)
    fix e assume "r = Inl e" "outline s1 = outline s0"
    then show ?thesis using c ok serve_inv_outline [of s1 s0]
      by (simp add: get_state_delta_def st_seq_def st_bind_def flip: s0_def)
  next
    fix state assume h: "r = Inr state" "sb_log s1 = Captured (ss_state_hash state) # sb_log s0"
      "sb_state_cache s1 = sb_state_cache s0"
    then have j: "just_captured s1" using ok by (simp add: just_captured_def serve_inv_def)
    let ?rest = "st_bind (st_get sb_previous) (\<lambda>previous.
       st_bind (st_lift (case select_update (bk_json env) state previous default_delta_policy of
                         Inl e \<Rightarrow> Inl (JsonFailure e) | Inr u \<Rightarrow> Inr u)) (\<lambda>update.
       st_bind (update_response env update) (\<lambda>response.
       st_bind (st_get sb_chain_broken) (\<lambda>was_chain_broken.
       st_bind bk_tick (\<lambda>n.
       st_seq (st_modify (record_speculative_observation (bk_now env n) state))
      (st_seq (st_modify (promote_action was_chain_broken))
      (st_seq (st_modify (\<lambda>s. s\<lparr>sb_previous := Some state\<rparr>))
         (st_return response))))))))"
    have "preserves just_captured ?rest"
      by (intro preserves_bind preserves_seq preserves_basic preserves_modify captured_update_response
          preserves_captured_outline [OF outline_tick] preserves_captured_outline [OF keeps_basic(4)]) simp_all
    then have "just_captured (snd (?rest s1))" using j by (simp add: preserves_def)
    moreover have "get_state_delta env force s = ?rest s1"
      using c h(1) by (simp add: get_state_delta_def st_seq_def st_bind_def flip: s0_def)
    ultimately show ?thesis by (simp add: just_captured_inv)
  qed
qed

lemma serve_verify_before_act: "preserves serve_inv (verify_before_act env)"
  unfolding preserves_def
proof (intro allI impI)
  fix s assume ok: "serve_inv s"
  show "serve_inv (snd (verify_before_act env s))"
  proof (cases "sb_last_served s \<noteq> None \<and> sb_pending_action s = None \<and> \<not> sb_chain_broken s")
    case True
    obtain r s1 where c: "capture_page env s = (r, s1)" by force
    from capture_outline [OF c] show ?thesis
    proof (elim disjE conjE exE)
      fix e assume "r = Inl e" "outline s1 = outline s"
      then show ?thesis using c True ok serve_inv_outline [of s1 s] by (simp add: verify_before_act_def)
    next
      fix state assume h: "r = Inr state" "sb_log s1 = Captured (ss_state_hash state) # sb_log s"
        "sb_state_cache s1 = sb_state_cache s"
      then have "just_captured s1" using ok by (simp add: just_captured_def serve_inv_def)
      then show ?thesis using c True h(1)
        by (intro just_captured_inv) (simp add: verify_before_act_def Let_def just_captured_def)
    qed
  qed (use ok in \<open>auto simp: verify_before_act_def\<close>)
qed

lemma after_act_serve_inv: "serve_inv s \<Longrightarrow> serve_inv (after_act a s)"
  by (auto simp: serve_inv_def after_act_def note_event_def Let_def)

lemma serve_act: "preserves serve_inv (act_tool env args)"
  unfolding act_tool_def
  by (intro preserves_bind preserves_seq serve_prepare serve_verify_before_act preserves_outline [OF outline_tick])
    (auto split: sum.split intro!: preserves_intros after_act_serve_inv)

lemma serve_payload: "preserves serve_inv (semantic_state_payload env force)"
  unfolding semantic_state_payload_def
  by (intro preserves_bind preserves_basic) (auto split: option.split intro!: preserves_basic serve_fresh)

lemma serve_get_state: "preserves serve_inv (get_state env args)"
  unfolding get_state_def
  by (intro preserves_seq serve_prepare)
    (auto split: StateDelivery.split intro!: preserves_bind preserves_basic serve_payload serve_delta)

lemma backend_history_served: "backend_history env s \<Longrightarrow> serve_inv s"
proof (erule backend_historyI)
  show "serve_inv (new_backend r p)" for r p by (simp add: serve_inv_def new_backend_def)
  fix s c assume ok: "serve_inv s"
  show "serve_inv (tool_step env s c)"
  proof (cases c)
    case (SkillRan n)
    have "preserves serve_inv (st_seq (prepare_navigation_tool env) (st_modify (after_skill n)))"
      by (intro preserves_seq serve_prepare preserves_modify) (simp add: after_skill_def invalidate_after_opaque_skill_mutation_def)
    then show ?thesis using ok by (simp add: SkillRan preserves_def)
  next
    case (Disconnected managed)
    then show ?thesis using ok
      by (auto simp: handle_browser_disconnect_def Let_def serve_inv_def note_event_def split: sum.split)
  qed (use ok serve_get_state [of env] serve_act [of env] serve_prepare [of env] in \<open>auto simp: preserves_def after_navigate_def\<close>)
qed

lemma awaits_checkI:
  "(\<forall>t. Captured t \<notin> set later) \<Longrightarrow> PageReset \<notin> set later \<Longrightarrow> awaits_check (later @ Served h # earlier)"
proof (induction later)
  case (Cons e later)
  then show ?case by (cases e) auto
qed simp

lemma served_in_turn_suffix: "served_in_turn (later @ evs) \<Longrightarrow> served_in_turn evs"
proof (induction later)
  case (Cons e later)
  then show ?case by (cases e) auto
qed simp


section \<open>Restarts are limited\<close>

text \<open>The attempts in a log, oldest first.\<close>

definition attempts :: "page_event list \<Rightarrow> nat list" where
  "attempts evs = rev (List.map_filter (\<lambda>e. case e of RestartAttempt t \<Rightarrow> Some t | _ \<Rightarrow> None) evs)"

lemma attempts_simps [simp]:
  "attempts [] = []" "attempts (RestartAttempt t # evs) = attempts evs @ [t]"
  "attempts (Captured h # evs) = attempts evs" "attempts (Acted a # evs) = attempts evs"
  "attempts (Served h # evs) = attempts evs" "attempts (PageReset # evs) = attempts evs"
  by (simp_all add: attempts_def map_filter_simps)

text \<open>No tool but the restart touches the attempts, and the number of the call only grows.\<close>

definition since :: "spec_backend \<Rightarrow> spec_backend \<Rightarrow> bool" where
  "since s0 s \<longleftrightarrow> sb_tick s0 \<le> sb_tick s \<and> attempts (sb_log s) = attempts (sb_log s0) \<and>
     sb_restart_history s = sb_restart_history s0"

named_theorems since_intros \<open>operations that make no attempt to restart\<close>

lemma since_tick [since_intros]: "preserves (since s0) bk_tick"
  by (simp add: preserves_def bk_tick_def since_def)

lemma since_lift [since_intros]: "preserves I (st_lift r)"
  by (simp add: preserves_def)

lemma since_call [since_intros]: "preserves (since s0) (page_call f)"
  unfolding page_call_def by (intro preserves_intros since_intros)

lemma since_elements [since_intros]: "preserves (since s0) (map_elements env speculative nodes)"
  by (induction nodes) (auto simp: map_interactive_element_def intro!: preserves_intros since_intros)

lemma since_build [since_intros]: "preserves (since s0) (build_external_state env state speculative)"
  unfolding build_external_state_def by (intro preserves_bind preserves_basic since_intros)

lemma since_capture [since_intros]: "preserves (since s0) (capture_page env)"
  unfolding capture_page_def Let_def
  by (intro preserves_bind preserves_seq preserves_basic preserves_modify since_intros) (simp add: since_def note_event_def)

lemma history_kept [simp]:
  "sb_restart_history (reconcile_served_prediction now state s) = sb_restart_history s"
  "sb_tick (reconcile_served_prediction now state s) = sb_tick s"
  by (auto simp: reconcile_served_prediction_def Let_def split: option.splits prod.split StateDelta.split)

lemma since_simps [simp]:
  "since s0 (reset_navigation_state s) = since s0 s"
  "since s0 (record_speculative_observation now state s) = since s0 s"
  "since s0 (promote_action b s) = since s0 s"
  "since s0 (log_missed_prediction now state outcome prediction s) = since s0 s"
  "since s0 (count_miss outcome s) = since s0 s"
  "since s0 (reset_baseline s) = since s0 s"
  "since s0 (after_act a s) = since s0 s"
  by (auto simp: since_def reset_navigation_state_def note_event_def record_speculative_observation_def promote_action_def
      log_missed_prediction_def count_miss_def reset_baseline_def after_act_def Let_def
      split: option.splits SpeculativeOutcome.split)

lemma since_fields [simp]:
  "since s0 (s\<lparr>sb_previous := p\<rparr>) = since s0 s" "since s0 (s\<lparr>sb_state_cache := c\<rparr>) = since s0 s"
  "since s0 (s\<lparr>sb_observed_revision := r\<rparr>) = since s0 s"
  by (simp_all add: since_def)

lemma since_prepare [since_intros]: "preserves (since s0) (prepare_navigation_tool env)"
  unfolding prepare_navigation_tool_def ensure_navigation_protection_def adopt_revision_def
  by (intro preserves_bind preserves_seq preserves_basic preserves_modify since_intros)
    (auto split: option.split intro!: preserves_basic)

lemma since_serve: "preserves (since s0) (serve_snapshot env state prediction)"
  unfolding serve_snapshot_def
  by (intro preserves_bind preserves_seq preserves_basic preserves_modify since_intros) (simp add: since_def note_event_def)

lemma since_capture_and_record: "preserves (since s0) (capture_and_record env prediction outcome)"
  unfolding capture_and_record_def
  by (intro preserves_bind preserves_seq preserves_basic preserves_modify since_intros) simp_all

lemma since_payload: "preserves (since s0) (semantic_state_payload env force)"
  unfolding semantic_state_payload_def fresh_state_payload_def
  by (intro preserves_bind preserves_basic) (auto split: option.split SpeculativeOutcome.split
      intro!: preserves_bind preserves_basic since_intros since_serve since_capture_and_record)

lemma since_delta: "preserves (since s0) (get_state_delta env force)"
  unfolding get_state_delta_def update_response_def
  by (intro preserves_bind preserves_seq preserves_basic preserves_modify since_intros)
    (auto split: StateUpdate.split intro!: preserves_intros since_intros)

lemma since_verify: "preserves (since s0) (verify_before_act env)"
  unfolding preserves_def
proof (intro allI impI)
  fix s assume ok: "since s0 s"
  obtain r s1 where c: "capture_page env s = (r, s1)" by force
  from preservesD [OF since_capture ok c] show "since s0 (snd (verify_before_act env s))"
    using ok c by (auto simp: verify_before_act_def Let_def since_def split: sum.split)
qed

lemma since_act: "preserves (since s0) (act_tool env args)"
  unfolding act_tool_def
  by (intro preserves_bind preserves_seq since_intros since_verify)
    (auto split: sum.split intro!: preserves_intros)

lemma tool_step_since:
  assumes "\<nexists>managed. c = Disconnected managed"
  shows "since s (tool_step env s c)"
proof -
  have refl: "since s s" by (simp add: since_def)
  show ?thesis
  proof (cases c)
    case (GetState args)
    have "preserves (since s) (get_state env args)"
      unfolding get_state_def
      by (intro preserves_seq since_intros)
        (auto split: StateDelivery.split intro!: preserves_bind preserves_basic since_payload since_delta)
    then show ?thesis using refl by (simp add: GetState preserves_def)
  next
    case (SkillRan n)
    have "preserves (since s) (st_seq (prepare_navigation_tool env) (st_modify (after_skill n)))"
      by (intro preserves_seq preserves_modify since_intros) (simp add: after_skill_def invalidate_after_opaque_skill_mutation_def)
    then show ?thesis using refl by (simp add: SkillRan preserves_def)
  qed (use refl assms since_act [of s env] since_prepare [of s env] in \<open>auto simp: preserves_def after_navigate_def\<close>)
qed

text \<open>The history is the end of the attempts; what was dropped is older than the window.\<close>

definition restart_inv :: "nat \<Rightarrow> spec_backend \<Rightarrow> bool" where
  "restart_inv now s \<longleftrightarrow>
     (\<exists>dropped. attempts (sb_log s) = dropped @ sb_restart_history s \<and>
        (\<forall>t\<in>set dropped. t + RESTART_RATE_LIMIT_WINDOW < now)) \<and>
     length (sb_restart_history s) \<le> RESTART_RATE_LIMIT_MAX \<and>
     (\<forall>i. i + RESTART_RATE_LIMIT_MAX < length (attempts (sb_log s)) \<longrightarrow>
        attempts (sb_log s) ! i + RESTART_RATE_LIMIT_WINDOW < attempts (sb_log s) ! (i + RESTART_RATE_LIMIT_MAX))"

lemma restart_inv_later:
  assumes "restart_inv now s" "now \<le> now'" "attempts (sb_log s') = attempts (sb_log s)"
    "sb_restart_history s' = sb_restart_history s"
  shows "restart_inv now' s'"
  using assms unfolding restart_inv_def by (metis order.strict_trans2)

lemma restart_inv_recent:
  assumes "restart_inv now s"
  shows "restart_inv now (s\<lparr>sb_restart_history := recent_restarts now (sb_restart_history s)\<rparr>)"
proof -
  let ?old = "\<lambda>t. RESTART_RATE_LIMIT_WINDOW < now - t" and ?h = "sb_restart_history s"
  from assms obtain dropped where d: "attempts (sb_log s) = dropped @ ?h" "\<forall>t\<in>set dropped. t + RESTART_RATE_LIMIT_WINDOW < now"
    by (auto simp: restart_inv_def)
  have "attempts (sb_log s) = (dropped @ takeWhile ?old ?h) @ dropWhile ?old ?h" by (simp add: d(1))
  moreover have "\<forall>t\<in>set (dropped @ takeWhile ?old ?h). t + RESTART_RATE_LIMIT_WINDOW < now"
    using d(2) by (auto dest!: set_takeWhileD)
  moreover have "length (dropWhile ?old ?h) \<le> RESTART_RATE_LIMIT_MAX"
    using assms length_dropWhile_le [of ?old ?h] by (simp add: restart_inv_def)
  ultimately have "\<exists>dropped. attempts (sb_log s) = dropped @ recent_restarts now ?h \<and>
      (\<forall>t\<in>set dropped. t + RESTART_RATE_LIMIT_WINDOW < now) \<and> length (recent_restarts now ?h) \<le> RESTART_RATE_LIMIT_MAX"
    unfolding recent_restarts_def by blast
  with assms show ?thesis unfolding restart_inv_def by auto
qed

lemma restart_inv_attempt:
  assumes "restart_inv now s" "length (sb_restart_history s) < RESTART_RATE_LIMIT_MAX"
  shows "restart_inv now (note_event (RestartAttempt now) (s\<lparr>sb_restart_history := sb_restart_history s @ [now]\<rparr>))"
proof -
  let ?a = "attempts (sb_log s)"
  from assms(1) obtain dropped where d: "?a = dropped @ sb_restart_history s" "\<forall>t\<in>set dropped. t + RESTART_RATE_LIMIT_WINDOW < now"
    by (auto simp: restart_inv_def)
  have "(?a @ [now]) ! i + RESTART_RATE_LIMIT_WINDOW < (?a @ [now]) ! (i + RESTART_RATE_LIMIT_MAX)"
    if i: "i + RESTART_RATE_LIMIT_MAX < length (?a @ [now])" for i
  proof (cases "i + RESTART_RATE_LIMIT_MAX < length ?a")
    case True
    then show ?thesis using assms(1) by (simp add: restart_inv_def nth_append)
  next
    case False
    then have l: "i + RESTART_RATE_LIMIT_MAX = length ?a" using i by simp
    then have "i < length dropped" using assms(2) d(1) by simp
    then have "?a ! i \<in> set dropped" by (simp add: d(1) nth_append)
    then show ?thesis using d(2) l \<open>i < length dropped\<close> by (auto simp: nth_append d(1))
  qed
  then show ?thesis using assms(1,2) d unfolding restart_inv_def note_event_def by auto
qed

lemma restart_inv_disconnect:
  assumes "restart_inv (bk_instant env (sb_tick s)) s"
  shows "restart_inv (bk_instant env (sb_tick s)) (snd (handle_browser_disconnect env managed s))"
proof -
  let ?now = "bk_instant env (sb_tick s)"
  let ?s1 = "s\<lparr>sb_restart_history := recent_restarts ?now (sb_restart_history s)\<rparr>"
  let ?s2 = "note_event (RestartAttempt ?now) (?s1\<lparr>sb_restart_history := sb_restart_history ?s1 @ [?now]\<rparr>)"
  have i1: "restart_inv ?now ?s1" by (rule restart_inv_recent [OF assms])
  show ?thesis
  proof (cases "managed")
    case False
    then show ?thesis using assms by (simp add: handle_browser_disconnect_def)
  next
    case m: True
    show ?thesis
    proof (cases "length (sb_restart_history ?s1) < RESTART_RATE_LIMIT_MAX")
      case True
      from restart_inv_attempt [OF i1 True] have i2: "restart_inv ?now ?s2" .
      show ?thesis
        by (rule restart_inv_later [OF i2 order_refl])
          (use m True in \<open>auto simp: handle_browser_disconnect_def Let_def note_event_def split: sum.split\<close>)
    next
      case False
      show ?thesis
        by (rule restart_inv_later [OF i1 order_refl]) (use m False in \<open>auto simp: handle_browser_disconnect_def Let_def\<close>)
    qed
  qed
qed

lemma disconnect_tick: "sb_tick s \<le> sb_tick (snd (handle_browser_disconnect env managed s))"
  by (auto simp: handle_browser_disconnect_def Let_def note_event_def split: sum.split)

text \<open>
  C25: However the tools and the failures of the browser interleave, no more than three restarts are
  attempted within sixty seconds, failed attempts included: of the attempts in a run, each is more than a minute
  after the third one before it.
\<close>

theorem restarts_are_limited:
  assumes "backend_history env s" "\<And>n. bk_instant env n \<le> bk_instant env (Suc n)"
    and "i + 3 < length (attempts (sb_log s))"
  shows "attempts (sb_log s) ! i + 60000 < attempts (sb_log s) ! (i + 3)"
proof -
  have mono: "n \<le> m \<Longrightarrow> bk_instant env n \<le> bk_instant env m" for n m
    using assms(2) by (rule lift_Suc_mono_le)
  have "restart_inv (bk_instant env (sb_tick s)) s"
    using assms(1)
  proof (rule backend_historyI)
    show "restart_inv (bk_instant env (sb_tick (new_backend r p))) (new_backend r p)" for r p
      by (simp add: restart_inv_def new_backend_def)
    fix s c assume inv: "restart_inv (bk_instant env (sb_tick s)) s"
    show "restart_inv (bk_instant env (sb_tick (tool_step env s c))) (tool_step env s c)"
    proof (cases "\<exists>managed. c = Disconnected managed")
      case True
      then obtain managed where c: "c = Disconnected managed" by blast
      from restart_inv_later [OF restart_inv_disconnect [OF inv, of managed] mono [OF disconnect_tick [of s env managed]] refl refl]
      show ?thesis by (simp add: c)
    next
      case False
      from tool_step_since [OF this] have "since s (tool_step env s c)" .
      then show ?thesis using restart_inv_later [OF inv mono] by (simp add: since_def)
    qed
  qed
  with assms(3) show ?thesis by (simp add: restart_inv_def RESTART_RATE_LIMIT_MAX_def RESTART_RATE_LIMIT_WINDOW_def)
qed

section \<open>Examples\<close>

text \<open>
  Pages of one element, whose hash is the role; the page that call \<open>n\<close> finds is the last of a schedule
  that has begun by then, and the address cannot be read in some calls.
\<close>

definition plain_page :: "string \<Rightarrow> SemanticState" where
  "plain_page r = \<lparr>ss_page_instance_id = ''p'', ss_state_hash = r, ss_timestamp = 0, ss_load_profile = Interactive,
     ss_root = leaf r ''x'' None 0\<rparr>"

fun scheduled :: "(nat \<times> string) list \<Rightarrow> nat \<Rightarrow> string" where
  "scheduled [] n = ''0''"
| "scheduled ((from_call, r) # rest) n = (if from_call \<le> n then r else scheduled rest n)"

definition demo_backend_env :: "(nat \<times> string) list \<Rightarrow> nat list \<Rightarrow> (unit, SemanticNode, SemanticNode) backend_env" where
  "demo_backend_env schedule unreadable =
     \<lparr>cv_sha = (\<lambda>s. take 1 (drop 5 s)), cv_lower = (\<lambda>s. s), cv_show_f64 = (\<lambda>_. ''0''),
      bk_revision = (\<lambda>_. 0), bk_rejection = (\<lambda>_. Inr ()), bk_synchronize = (\<lambda>_. Inr 0),
      bk_capture = (\<lambda>n. Inr (plain_page (scheduled schedule n))), bk_sanitize = (\<lambda>node. node),
      bk_url = (\<lambda>n. if n \<in> set unreadable then Inl () else Inr ''https://shop.test/''),
      bk_bbox = (\<lambda>_ _. Inr None), bk_act = (\<lambda>_ _. Inr ()), bk_relaunch = (\<lambda>_. Inr 0),
      bk_uuid = (\<lambda>_. ''u''), bk_now = (\<lambda>_. 0), bk_instant = (\<lambda>n. 1000 * n), bk_json = replace_json\<rparr>"

definition full_state :: tool_call where
  "full_state = GetState \<lparr>gs_format = JsonFormat, gs_force_refresh = False, gs_delivery = FullDelivery\<rparr>"

definition delta_arguments :: GetStateArguments where
  "delta_arguments = \<lparr>gs_format = JsonFormat, gs_force_refresh = False, gs_delivery = DeltaDelivery\<rparr>"

definition click :: "string \<Rightarrow> tool_call" where
  "click key = ActTool \<lparr>ar_target_id = None, ar_target_stable_key = Some key, ar_action = ''click'', ar_value = None\<rparr>"

definition backend_run :: "('pe, 'j, 'op) backend_env \<Rightarrow> tool_call list \<Rightarrow> spec_backend" where
  "backend_run env calls = foldl (tool_step env) (new_backend 0 None) calls"

lemma backend_run_history: "backend_history env (backend_run env calls)"
proof -
  have "backend_history env s \<Longrightarrow> backend_history env (foldl (tool_step env) s calls)" for s
    by (induction calls arbitrary: s) (auto intro: backend_history.call)
  then show ?thesis unfolding backend_run_def by (blast intro: backend_history.start)
qed

lemma demo_reads_succeed: "reads_succeed (demo_backend_env schedule [])"
proof -
  have "\<exists>u. select_update replace_json state previous policy = Inr u" for state previous policy
    by (auto simp: select_update_def build_delta_def replace_json_def Let_def split: option.split)
  then show ?thesis by (simp add: reads_succeed_def demo_backend_env_def)
qed


text \<open>Two round trips between two pages; the second is served in advance.\<close>

definition round_trips :: "tool_call list" where
  "round_trips = [full_state, click ''x'', full_state, click ''a'', full_state, click ''x'', full_state, click ''a'', full_state]"


definition four_crashes :: "tool_call list" where
  "four_crashes = [Disconnected True, Disconnected True, Disconnected True, Disconnected True]"

theorem restarts_are_limited_witness:
  "attempts (sb_log (backend_run ((demo_backend_env [] [])\<lparr>bk_instant := \<lambda>n. 30000 * n\<rparr>) four_crashes)) =
     [0, 30000, 60000, 90000] \<and> (0::nat) + 60000 < 90000"
proof -
  let ?env = "(demo_backend_env [] [])\<lparr>bk_instant := \<lambda>n. 30000 * n\<rparr>"
  have a: "attempts (sb_log (backend_run ?env four_crashes)) = [0, 30000, 60000, 90000]"
    by (simp add: four_crashes_def backend_run_def handle_browser_disconnect_def new_backend_def recent_restarts_def
        RESTART_RATE_LIMIT_MAX_def RESTART_RATE_LIMIT_WINDOW_def note_event_def demo_backend_env_def)
  have m: "bk_instant ?env n \<le> bk_instant ?env (Suc n)" for n by simp
  from restarts_are_limited [OF backend_run_history [of ?env four_crashes] m, of 0] a show ?thesis by simp
qed

subsection \<open>Where the books do not match the page\<close>

text \<open>
  After the second capture the address cannot be read. The call fails, but the transition is recorded
  and the action stays pending; the third capture then trains the same action again, with a page it did not
  lead to.
\<close>

lemma a_failed_reading_trains_a_false_edge:
  "let s = backend_run (demo_backend_env [(18, ''2''), (7, ''1'')] [17]) [full_state, click ''a'', full_state, full_state]
   in edge (tm_state_transitions (in_model (sb_speculative s))) (''0'', ''click:a'') ''2'' = Some 1 \<and>
      page_log s = [Captured ''2'', Captured ''1'', Acted ''click:a'', Captured ''0'']"
  by code_simp

text \<open>
  A served snapshot that turns out right leaves the cursor of the engine at the action before: the model
  learns that \<open>b\<close> follows \<open>x\<close>, which it never did.
\<close>

lemma a_confirmed_hit_trains_a_false_sequence:
  "let s = backend_run (demo_backend_env [] []) (round_trips @ [full_state, click ''b'', full_state])
   in edge (tm_action_sequences (in_model (sb_speculative s))) ''click:x'' ''click:b'' = Some 1 \<and>
      edge (tm_action_sequences (in_model (sb_speculative s))) ''click:a'' ''click:b'' = None \<and>
      take 3 (filter (\<lambda>e. case e of Acted _ \<Rightarrow> True | _ \<Rightarrow> False) (sb_log s)) =
        [Acted ''click:b'', Acted ''click:a'', Acted ''click:x'']"
  by code_simp

text \<open>A delta does not replace the cached state: the next plain reading returns the state before it.\<close>

definition full_hash :: "(unit, string) backend_error + SemanticNode state_response \<Rightarrow> string option" where
  "full_hash r = (case r of Inr (StateJson p) \<Rightarrow> Some (md_state_hash (ex_metadata p)) | _ \<Rightarrow> None)"

lemma a_delta_leaves_a_stale_cache:
  "let env = demo_backend_env [(7, ''1'')] []; s = backend_run env [full_state];
       (delta, s1) = get_state env delta_arguments s;
       (full, s2) = get_state env (delta_arguments\<lparr>gs_delivery := FullDelivery\<rparr>) s1
   in delta = Inr (DeltaState ''0'' ''1'' [leaf ''1'' ''x'' None 0]) \<and> full_hash full = Some ''0''"
  by code_simp

text \<open>
  The page is compared with a served snapshot before the next action; a delta is then relative to a state
  that was captured but never sent out.
\<close>

lemma a_delta_against_a_state_never_sent:
  "let env = demo_backend_env [(47, ''9''), (29, ''1''), (18, ''2''), (7, ''1'')] [];
       s = backend_run env (round_trips @ [click ''b''])
   in hd (sb_log (backend_run env round_trips)) = Served ''2'' \<and>
      fst (get_state env delta_arguments s) = Inr (NoChange ''9'')"
  by code_simp

end
