(* ===== verification/Mcp_Server.thy ===== *)
theory Mcp_Server
  imports Skill_Runtime Metering Spec_History
begin

text \<open>
  The MCP server (\<open>mcp-server/src/server.rs\<close>, \<open>protocol.rs\<close>, the trait \<open>McpBackend\<close> of
  \<open>lib.rs\<close>) over any backend: a tool call is validated, gated by the plan, dispatched, retried once if it
  only reads, and followed by a restart of the browser if the browser is gone; what succeeded is metered. The
  contract of a backend that counts what it served in advance is a locale, interpreted on \<open>Spec_Backend\<close>.
\<close>

section \<open>Errors\<close>

text \<open>
  An \<open>anyhow::Error\<close>: the messages of its chain, the outermost first, and what the code asks of it by
  \<open>downcast_ref\<close>.
\<close>

record anyhow_error =
  ae_chain :: "string list"
  ae_connection_closed :: bool
  ae_human_approval :: "(string \<times> ApprovalScope \<times> OutcomeProjection option) option"
  ae_invalid_arguments :: bool

definition plain_error :: "string \<Rightarrow> anyhow_error" where
  "plain_error message = \<lparr>ae_chain = [message], ae_connection_closed = False, ae_human_approval = None,
     ae_invalid_arguments = False\<rparr>"

definition error_text :: "anyhow_error \<Rightarrow> string" where
  "error_text e = (case ae_chain e of m # _ \<Rightarrow> m | [] \<Rightarrow> [])"

definition TRANSPORT_ERROR_MARKERS :: "string list" where
  "TRANSPORT_ERROR_MARKERS = [''broken pipe'', ''connection reset'']"

definition is_transport_error :: "(string \<Rightarrow> string) \<Rightarrow> anyhow_error \<Rightarrow> bool" where
  "is_transport_error lower e \<longleftrightarrow> error_chain_contains_any lower (ae_chain e) TRANSPORT_ERROR_MARKERS"

definition is_browser_disconnected :: "(string \<Rightarrow> string) \<Rightarrow> anyhow_error \<Rightarrow> bool" where
  "is_browser_disconnected lower e \<longleftrightarrow>
     (if ae_connection_closed e then True
      else if error_chain_contains_any lower (ae_chain e) [''connection is closed'', ''broken pipe'', ''connection reset''] then True
      else if error_chain_contains_any lower (ae_chain e) [''not connected''] then
        error_chain_contains_any lower (ae_chain e) [''connection is closed'', ''broken pipe'', ''connection reset'', ''connectionclosed'']
      else False)"

section \<open>Backend and server\<close>

type_synonym 'b tool_op = "Json \<Rightarrow> ('b, anyhow_error, Json) stateful"

record 'b mcp_backend =
  mb_navigate :: "'b tool_op"
  mb_get_state :: "'b tool_op"
  mb_act :: "'b tool_op"
  mb_verify :: "'b tool_op"
  mb_get_visual :: "'b tool_op"
  mb_ask_human :: "'b tool_op"
  mb_run_skill :: "'b tool_op"
  mb_extract :: "'b tool_op"
  mb_take_visual_image :: "'b \<Rightarrow> string option \<times> 'b"
  mb_audit_retention_snapshot :: "'b \<Rightarrow> AuditRetentionSnapshot option"
  mb_take_skill_usage_delta :: "'b \<Rightarrow> SkillUsageDelta \<times> 'b"
  mb_handle_browser_disconnect :: "'b \<Rightarrow> (string + u64) \<times> 'b"
  mb_confirm_browser_disconnected :: "'b \<Rightarrow> bool \<times> 'b"
  mb_browser_restart_count :: "'b \<Rightarrow> u64"
  mb_is_chrome_process_alive :: "'b \<Rightarrow> bool option \<times> 'b"
  mb_speculative_usage :: "'b \<Rightarrow> u64 \<times> u64"

text \<open>
  The backend, the JSON schema engine (the message for arguments it refuses), the derived reader of the
  arguments of \<open>get_state\<close>, and the libraries for text and encodings.
\<close>

record 'b server_env =
  me_backend :: "'b mcp_backend"
  me_validate :: "string \<Rightarrow> Json \<Rightarrow> string option"
  me_parse_get_state :: "Json \<Rightarrow> GetStateArguments option"
  me_lower :: "string \<Rightarrow> string"
  me_projection :: "OutcomeProjection \<Rightarrow> Json option"
  me_sha :: "string \<Rightarrow> string"
  me_base64 :: "string \<Rightarrow> string"
  me_json_text :: "Json \<Rightarrow> string"

record 'b mcp_server =
  sv_backend :: 'b
  sv_plan_tier :: PlanTier
  sv_usage_meters :: UsageMeters
  sv_consecutive_alive_skips :: u32

definition MAX_ALIVE_SKIPS_BEFORE_RESTART :: u32 where
  "MAX_ALIVE_SKIPS_BEFORE_RESTART = 2"

definition new_with_plan :: "'b \<Rightarrow> PlanTier \<Rightarrow> 'b mcp_server" where
  "new_with_plan backend plan_tier = \<lparr>sv_backend = backend, sv_plan_tier = plan_tier, sv_usage_meters = no_usage,
     sv_consecutive_alive_skips = 0\<rparr>"

text \<open>An operation of the backend inside the server.\<close>

definition on_backend :: "('b \<Rightarrow> 'a \<times> 'b) \<Rightarrow> 'b mcp_server \<Rightarrow> 'a \<times> 'b mcp_server" where
  "on_backend f sv = (let (a, b) = f (sv_backend sv) in (a, sv\<lparr>sv_backend := b\<rparr>))"

definition is_known_tool :: "string \<Rightarrow> bool" where
  "is_known_tool name \<longleftrightarrow> name \<in> {''navigate'', ''get_state'', ''act'', ''verify'', ''get_visual'', ''ask_human'',
     ''run_skill'', ''get_usage_report'', ''extract''}"

definition is_retry_safe_tool :: "string \<Rightarrow> bool" where
  "is_retry_safe_tool name \<longleftrightarrow> name \<in> {''get_state'', ''verify'', ''get_visual'', ''extract''}"

definition validate_tool_arguments :: "'b server_env \<Rightarrow> string \<Rightarrow> Json \<Rightarrow> anyhow_error + unit" where
  "validate_tool_arguments env name arguments =
     (case me_validate env name arguments of
        None \<Rightarrow> Inr ()
      | Some detail \<Rightarrow>
          Inl ((plain_error (''invalid arguments for tool `'' @ name @ ''`: '' @ detail))\<lparr>ae_invalid_arguments := True\<rparr>))"

section \<open>The plan gate\<close>

definition ensure_plan_feature :: "'b mcp_server \<Rightarrow> PlanFeature \<Rightarrow> PlanTier option" where
  "ensure_plan_feature sv feature =
     (if required_plan feature \<le> sv_plan_tier sv then None else Some (required_plan feature))"

definition plan_upgrade_required_payload :: "'b mcp_server \<Rightarrow> PlanFeature \<Rightarrow> PlanTier \<Rightarrow> Json" where
  "plan_upgrade_required_payload sv feature required =
     JObject [(''status'', JString ''plan_upgrade_required''), (''feature'', JString (feature_name feature)),
       (''required_plan'', JString (plan_name required)), (''current_plan'', JString (plan_name (sv_plan_tier sv)))]"

definition gate_feature :: "'b mcp_server \<Rightarrow> PlanFeature \<Rightarrow> Json option" where
  "gate_feature sv feature =
     map_option (plan_upgrade_required_payload sv feature) (ensure_plan_feature sv feature)"

definition visual_mode :: "Json \<Rightarrow> string" where
  "visual_mode arguments = (case Option.bind (json_get ''mode'' arguments) as_str of Some m \<Rightarrow> m | None \<Rightarrow> ''som'')"

text \<open>The arguments were validated, or the server panics.\<close>

definition check_plan_gate :: "'b server_env \<Rightarrow> 'b mcp_server \<Rightarrow> string \<Rightarrow> Json \<Rightarrow> Json option call" where
  "check_plan_gate env sv name arguments =
     (if name = ''get_state'' then
        (case me_parse_get_state env arguments of
           None \<Rightarrow> Panic
         | Some args \<Rightarrow> Ret (if gs_delivery args = DeltaDelivery then gate_feature sv SemanticDelta else None))
      else if name = ''get_visual'' then
        Ret (if \<not> eq_ignore_ascii_case (visual_mode arguments) ''clean'' then gate_feature sv SomVisualCapture else None)
      else if name = ''ask_human'' then Ret (gate_feature sv PolicyHumanApproval)
      else Ret None)"

section \<open>Metering\<close>

definition status_of :: "Json \<Rightarrow> string option" where
  "status_of payload = Option.bind (json_get ''status'' payload) as_str"

definition count_state :: "GetStateArguments \<Rightarrow> bool \<Rightarrow> StateGenerationUsage \<Rightarrow> StateGenerationUsage" where
  "count_state args speculative_hit g =
     (case gs_delivery args of
        DeltaDelivery \<Rightarrow> g\<lparr>sg_delta := sg_delta g + 1\<rparr>
      | FullDelivery \<Rightarrow>
          if speculative_hit then g\<lparr>sg_speculative := sg_speculative g + 1\<rparr>
          else g\<lparr>sg_fast := sg_fast g + 1, sg_full := sg_full g + 1\<rparr>)"

definition on_meters :: "(UsageMeters \<Rightarrow> UsageMeters) \<Rightarrow> 'b mcp_server \<Rightarrow> 'b mcp_server" where
  "on_meters f sv = sv\<lparr>sv_usage_meters := f (sv_usage_meters sv)\<rparr>"

definition count_hitl_event :: "'b mcp_server \<Rightarrow> 'b mcp_server" where
  "count_hitl_event = on_meters (\<lambda>m. m\<lparr>um_hitl_events := um_hitl_events m + 1\<rparr>)"

definition fold_skill_delta :: "SkillUsageDelta \<Rightarrow> UsageMeters \<Rightarrow> UsageMeters" where
  "fold_skill_delta d m = m\<lparr>um_actions_executed := um_actions_executed m + ud_actions_executed d,
     um_visual_captures := um_visual_captures m + ud_visual_captures d,
     um_hitl_events := um_hitl_events m + ud_hitl_events d\<rparr>"

definition record_usage ::
  "'b server_env \<Rightarrow> string \<Rightarrow> Json \<Rightarrow> Json \<Rightarrow> bool \<Rightarrow> 'b mcp_server \<Rightarrow> 'b mcp_server call" where
  "record_usage env name arguments payload speculative_hit sv =
     (if status_of payload = Some ''requires_human_approval'' then Ret (count_hitl_event sv)
      else if name = ''get_state'' then
        (case me_parse_get_state env arguments of
           None \<Rightarrow> Panic
         | Some args \<Rightarrow>
             Ret (on_meters (\<lambda>m. m\<lparr>um_state_generations := count_state args speculative_hit (um_state_generations m)\<rparr>) sv))
      else if name = ''get_visual'' then
        Ret (if \<not> eq_ignore_ascii_case (visual_mode arguments) ''clean'' \<and>
                Option.bind (json_get ''image_sha256'' payload) as_str \<noteq> None
             then on_meters (\<lambda>m. m\<lparr>um_visual_captures := um_visual_captures m + 1\<rparr>) sv else sv)
      else if name \<in> {''act'', ''navigate''} \<and> status_of payload = Some ''ok'' then
        Ret (on_meters (\<lambda>m. m\<lparr>um_actions_executed := um_actions_executed m + 1\<rparr>) sv)
      else if name = ''ask_human'' \<and> Option.bind (json_get ''approved'' payload) as_bool = Some True then
        Ret (count_hitl_event sv)
      else if name = ''run_skill'' then
        (let (delta, sv1) = on_backend (mb_take_skill_usage_delta (me_backend env)) sv
         in Ret (on_meters (fold_skill_delta delta) sv1))
      else Ret sv)"

definition json_u64 :: "u64 \<Rightarrow> Json" where
  "json_u64 w = JNumber (show_int (uint w))"

definition usage_report_json :: "UsageReport \<Rightarrow> Json" where
  "usage_report_json r = JObject
     [(''plan_tier'', JString (plan_name (ur_plan_tier r))),
      (''state_generations'', JObject
         [(''fast'', json_u64 (sg_fast (ur_state_generations r))), (''full'', json_u64 (sg_full (ur_state_generations r))),
          (''delta'', json_u64 (sg_delta (ur_state_generations r))),
          (''speculative'', json_u64 (sg_speculative (ur_state_generations r)))]),
      (''visual_captures'', json_u64 (ur_visual_captures r)),
      (''actions_executed'', json_u64 (ur_actions_executed r)),
      (''hitl_events'', json_u64 (ur_hitl_events r)),
      (''audit_retention'', JObject
         [(''retained_events'', json_u64 (retained_events (ur_audit_retention r))),
          (''retained_bytes'', json_u64 (retained_bytes (ur_audit_retention r)))]),
      (''cost_microusd'', JObject
         [(''state_generations'', json_u64 (cb_state_generations (ur_cost_microusd r))),
          (''visual_captures'', json_u64 (cb_visual_captures (ur_cost_microusd r))),
          (''actions_executed'', json_u64 (cb_actions_executed (ur_cost_microusd r))),
          (''hitl_events'', json_u64 (cb_hitl_events (ur_cost_microusd r))),
          (''audit_retention'', json_u64 (cb_audit_retention (ur_cost_microusd r))),
          (''total'', json_u64 (cb_total (ur_cost_microusd r)))]),
      (''browser_restarts'', json_u64 (ur_browser_restarts r)),
      (''speculative_misses'', json_u64 (ur_speculative_misses r))]"

definition get_usage_report_payload :: "'b server_env \<Rightarrow> 'b mcp_server \<Rightarrow> Json" where
  "get_usage_report_payload env sv =
     (let backend = me_backend env; b = sv_backend sv;
          retention = (case mb_audit_retention_snapshot backend b of
                         Some r \<Rightarrow> r | None \<Rightarrow> \<lparr>retained_events = 0, retained_bytes = 0\<rparr>)
      in usage_report_json (to_report (sv_usage_meters sv) (sv_plan_tier sv) retention
           (mb_browser_restart_count backend b) (snd (mb_speculative_usage backend b))))"

section \<open>A tool call\<close>

definition approval_scope_name :: "ApprovalScope \<Rightarrow> string" where
  "approval_scope_name scope =
     (case scope of ActionOnly \<Rightarrow> ''action_only'' | UntilNavigation \<Rightarrow> ''until_navigation'' | Timeboxed _ \<Rightarrow> ''timeboxed'')"

definition approval_required_payload ::
  "(OutcomeProjection \<Rightarrow> Json option) \<Rightarrow> string \<times> ApprovalScope \<times> OutcomeProjection option \<Rightarrow> Json" where
  "approval_required_payload projection = (\<lambda>(rule_id, scope, outcome).
     JObject ([(''status'', JString ''requires_human_approval''), (''rule_id'', JString rule_id),
               (''scope'', JString (approval_scope_name scope))] @
              (case Option.bind outcome projection of Some v \<Rightarrow> [(''outcome_projection'', v)] | None \<Rightarrow> [])))"

definition backend_tool :: "'b mcp_backend \<Rightarrow> string \<Rightarrow> 'b tool_op option" where
  "backend_tool be name =
     (if name = ''navigate'' then Some (mb_navigate be) else if name = ''get_state'' then Some (mb_get_state be)
      else if name = ''act'' then Some (mb_act be) else if name = ''verify'' then Some (mb_verify be)
      else if name = ''get_visual'' then Some (mb_get_visual be) else if name = ''ask_human'' then Some (mb_ask_human be)
      else if name = ''run_skill'' then Some (mb_run_skill be) else if name = ''extract'' then Some (mb_extract be)
      else None)"

definition dispatch_tool :: "'b server_env \<Rightarrow> string \<Rightarrow> Json \<Rightarrow> ('b mcp_server, anyhow_error, Json) stateful" where
  "dispatch_tool env name arguments sv =
     (case backend_tool (me_backend env) name of
        None \<Rightarrow> (Inl (plain_error (''unknown MCP tool: '' @ name)), sv)
      | Some tool \<Rightarrow>
          (case on_backend (tool arguments) sv of
             (Inl err, sv1) \<Rightarrow>
               (case ae_human_approval err of
                  Some approval \<Rightarrow> (Inr (approval_required_payload (me_projection env) approval), sv1)
                | None \<Rightarrow> (Inl err, sv1))
           | (Inr payload, sv1) \<Rightarrow> (Inr payload, sv1)))"

definition dispatch_with_retry :: "'b server_env \<Rightarrow> string \<Rightarrow> Json \<Rightarrow> ('b mcp_server, anyhow_error, Json) stateful" where
  "dispatch_with_retry env name arguments sv =
     (case dispatch_tool env name arguments sv of
        (Inl err, sv1) \<Rightarrow>
          if is_retry_safe_tool name \<and> is_transport_error (me_lower env) err
          then dispatch_tool env name arguments sv1 else (Inl err, sv1)
      | (Inr payload, sv1) \<Rightarrow> (Inr payload, sv1))"

definition restarted_error :: "u64 \<Rightarrow> anyhow_error" where
  "restarted_error restart_count = plain_error
     (''Chrome process disconnected; the session was automatically restarted (restart #'' @ show_int (uint restart_count) @
      ''). Navigation state, in-page cookies, and unsaved form data were reset, and any pending or previously granted '' @
      ''human-approval requests were discarded'' @ em_dash @ ''retry the request and re-request approval if needed.'')"

definition restart_failed_error :: "string \<Rightarrow> anyhow_error" where
  "restart_failed_error reason =
     plain_error (''Chrome process disconnected and automatic restart failed: '' @ reason)"

definition set_skips :: "u32 \<Rightarrow> 'b mcp_server \<Rightarrow> 'b mcp_server" where
  "set_skips n sv = sv\<lparr>sv_consecutive_alive_skips := n\<rparr>"

text \<open>The count of skips is compared only if the process is known to be alive.\<close>

definition recover_browser :: "'b server_env \<Rightarrow> anyhow_error + Json \<Rightarrow> ('b mcp_server, anyhow_error, Json) stateful" where
  "recover_browser env result sv =
     (case result of
        Inr payload \<Rightarrow> (Inr payload, set_skips 0 sv)
      | Inl err \<Rightarrow>
          if \<not> is_browser_disconnected (me_lower env) err then (Inl err, sv)
          else
            (let (alive, sv1) = on_backend (mb_is_chrome_process_alive (me_backend env)) sv
             in if alive = Some True \<and> sv_consecutive_alive_skips sv1 < MAX_ALIVE_SKIPS_BEFORE_RESTART
                then (Inl err, set_skips (sv_consecutive_alive_skips sv1 + 1) sv1)
                else
                  (let (confirmed, sv2) = on_backend (mb_confirm_browser_disconnected (me_backend env)) sv1;
                       sv3 = set_skips 0 sv2
                   in if confirmed then
                        (case on_backend (mb_handle_browser_disconnect (me_backend env)) sv3 of
                           (Inr restart_count, sv4) \<Rightarrow> (Inl (restarted_error restart_count), sv4)
                         | (Inl reason, sv4) \<Rightarrow> (Inl (restart_failed_error reason), sv4))
                      else (Inl err, sv3))))"

record ToolCallOutput =
  to_structured_content :: Json
  to_visual_image :: "string option"

definition take_image :: "'b server_env \<Rightarrow> string \<Rightarrow> Json \<Rightarrow> 'b mcp_server \<Rightarrow> string option \<times> 'b mcp_server" where
  "take_image env name payload sv =
     (if name = ''get_visual'' then
        (let (image, sv1) = on_backend (mb_take_visual_image (me_backend env)) sv
         in (if status_of payload = Some ''requires_human_approval'' then None else image, sv1))
      else (None, sv))"

definition is_object :: "Json \<Rightarrow> bool" where
  "is_object v = (case v of JObject _ \<Rightarrow> True | _ \<Rightarrow> False)"

text \<open>What follows the validation and the plan gate.\<close>

definition perform_tool ::
  "'b server_env \<Rightarrow> string \<Rightarrow> Json \<Rightarrow> 'b mcp_server \<Rightarrow> ((anyhow_error + ToolCallOutput) \<times> 'b mcp_server) call" where
  "perform_tool env name arguments sv =
     (let hits_before = fst (mb_speculative_usage (me_backend env) (sv_backend sv));
          (dispatched, sv1) = dispatch_with_retry env name arguments sv;
          (result, sv2) = recover_browser env dispatched sv1
      in case result of
           Inl err \<Rightarrow> Ret (Inl err, sv2)
         | Inr payload \<Rightarrow>
             if \<not> is_object payload then Ret (Inl (plain_error ''MCP structuredContent must be a JSON object''), sv2)
             else
               (let (image, sv3) = take_image env name payload sv2;
                    speculative_hit = hits_before < fst (mb_speculative_usage (me_backend env) (sv_backend sv3))
                in call_map (\<lambda>sv4. (Inr \<lparr>to_structured_content = payload, to_visual_image = image\<rparr>, sv4))
                     (record_usage env name arguments payload speculative_hit sv3)))"

definition call_tool_output ::
  "'b server_env \<Rightarrow> string \<Rightarrow> Json \<Rightarrow> 'b mcp_server \<Rightarrow> ((anyhow_error + ToolCallOutput) \<times> 'b mcp_server) call" where
  "call_tool_output env name arguments sv =
     (if \<not> is_known_tool name then Ret (Inl (plain_error (''unknown MCP tool: '' @ name)), sv)
      else case validate_tool_arguments env name arguments of
        Inl err \<Rightarrow> Ret (Inl err, sv)
      | Inr _ \<Rightarrow>
          if name = ''get_usage_report'' then
            Ret (Inr \<lparr>to_structured_content = get_usage_report_payload env sv, to_visual_image = None\<rparr>, sv)
          else call_bind (check_plan_gate env sv name arguments) (\<lambda>gate.
            case gate of
              Some payload \<Rightarrow> Ret (Inr \<lparr>to_structured_content = payload, to_visual_image = None\<rparr>, sv)
            | None \<Rightarrow> perform_tool env name arguments sv))"

section \<open>Images\<close>

definition MAX_VISUAL_IMAGE_BYTES :: nat where
  "MAX_VISUAL_IMAGE_BYTES = 8388608"

definition PNG_SIGNATURE :: string where
  "PNG_SIGNATURE = [CHR 0x89, CHR 0x50, CHR 0x4E, CHR 0x47, CHR 0x0D, CHR 0x0A, CHR 0x1A, CHR 0x0A]"

definition validate_visual_image :: "string \<Rightarrow> nat \<Rightarrow> anyhow_error + unit" where
  "validate_visual_image img max_bytes =
     (if max_bytes < length img then
        Inl (plain_error (''get_visual image exceeds maximum size of '' @ show_int (int max_bytes) @
          '' bytes (received '' @ show_int (int (length img)) @ '' bytes)''))
      else if \<not> starts_with img PNG_SIGNATURE then Inl (plain_error ''get_visual capture is not a valid PNG image'')
      else Inr ())"

definition image_content_block :: "'b server_env \<Rightarrow> string \<Rightarrow> Json \<Rightarrow> anyhow_error + Json" where
  "image_content_block env img structured_content =
     res_then (validate_visual_image img MAX_VISUAL_IMAGE_BYTES)
       (case Option.bind (json_get ''image_sha256'' structured_content) as_str of
          None \<Rightarrow> Inl (plain_error ''get_visual metadata is missing image_sha256'')
        | Some reported_hash \<Rightarrow>
            if reported_hash \<noteq> me_sha env img then
              Inl (plain_error ''get_visual image_sha256 does not match captured image bytes'')
            else Inr (JObject [(''type'', JString ''image''), (''data'', JString (me_base64 env img)),
                               (''mimeType'', JString ''image/png'')]))"

section \<open>The protocol\<close>

definition LATEST_PROTOCOL_VERSION :: string where
  "LATEST_PROTOCOL_VERSION = ''2025-11-25''"

definition SUPPORTED_PROTOCOL_VERSIONS :: "string list" where
  "SUPPORTED_PROTOCOL_VERSIONS = [''2025-11-25'', ''2025-06-18'']"

definition negotiate_protocol_version :: "string option \<Rightarrow> string" where
  "negotiate_protocol_version requested =
     (case Option.bind requested (\<lambda>version. find (\<lambda>supported. supported = version) SUPPORTED_PROTOCOL_VERSIONS) of
        Some v \<Rightarrow> v | None \<Rightarrow> LATEST_PROTOCOL_VERSION)"

record JsonRpcRequest =
  rq_id :: Json
  rq_method :: string
  rq_params :: Json

datatype rpc_result = RpcResult Json | RpcError int string

record JsonRpcResponse =
  rs_id :: Json
  rs_result :: rpc_result

text \<open>The version of the package and the schemas of the tools (\<open>schemas.rs\<close>) are constants of the build.\<close>

record server_info =
  si_version :: string
  si_schema :: "string \<Rightarrow> Json"

definition tool_descriptions :: "(string \<times> string) list" where
  "tool_descriptions =
     [(''navigate'', ''Navigate the current page to an HTTP(S) URL''),
      (''get_state'', ''Retrieve the semantic page state''),
      (''act'', ''Execute an interaction action''),
      (''verify'', ''Verify precondition text before acting''),
      (''get_visual'', ''Capture visual context with optional marks''),
      (''ask_human'', ''Resolve pending HITL request''),
      (''run_skill'', ''Execute a declarative skill workflow''),
      (''get_usage_report'', ''Retrieve usage meters and plan tier summary''),
      (''extract'', ''Extract structured data using Deep Lens DSL rule'')]"

definition tools_json :: "server_info \<Rightarrow> Json" where
  "tools_json info = JObject [(''tools'', JArray (map (\<lambda>(name, description).
     JObject [(''name'', JString name), (''description'', JString description), (''inputSchema'', si_schema info name)])
     tool_descriptions))]"

definition initialize_result :: "server_info \<Rightarrow> Json \<Rightarrow> Json" where
  "initialize_result info params = JObject
     [(''protocolVersion'', JString (negotiate_protocol_version (Option.bind (json_get ''protocolVersion'' params) as_str))),
      (''capabilities'', JObject [(''tools'', JObject [])]),
      (''serverInfo'', JObject [(''name'', JString ''dragon-head-mcp''), (''version'', JString (si_version info))])]"

definition tool_content :: "'b server_env \<Rightarrow> ToolCallOutput \<Rightarrow> anyhow_error + Json" where
  "tool_content env out =
     (let text_block = JObject [(''type'', JString ''text''), (''text'', JString (me_json_text env (to_structured_content out)))]
      in res_bind (case to_visual_image out of
                     None \<Rightarrow> Inr [text_block]
                   | Some img \<Rightarrow> res_bind (image_content_block env img (to_structured_content out))
                                      (\<lambda>block. Inr [text_block, block]))
           (\<lambda>content. Inr (JObject [(''content'', JArray content), (''structuredContent'', to_structured_content out)])))"

definition rpc_of :: "anyhow_error + Json \<Rightarrow> rpc_result" where
  "rpc_of r = (case r of Inr v \<Rightarrow> RpcResult v
     | Inl err \<Rightarrow> RpcError (if ae_invalid_arguments err then - 32602 else - 32000) (error_text err))"

definition tools_call :: "'b server_env \<Rightarrow> Json \<Rightarrow> 'b mcp_server \<Rightarrow> (rpc_result \<times> 'b mcp_server) call" where
  "tools_call env params sv =
     (case Option.bind (json_get ''name'' params) as_str of
        Some name \<Rightarrow>
          if is_known_tool name then
            call_map (\<lambda>(output, sv1). (rpc_of (res_bind output (tool_content env)), sv1))
              (call_tool_output env name (case json_get ''arguments'' params of Some a \<Rightarrow> a | None \<Rightarrow> JObject []) sv)
          else Ret (RpcError (- 32601) (''unknown tool: '' @ name), sv)
      | None \<Rightarrow> Ret (RpcError (- 32602) ''tools/call params.name must be a string'', sv))"

text \<open>\<open>notifications/initialized\<close> returns at once, other requests answer unless they have no id.\<close>

definition handle_request ::
  "server_info \<Rightarrow> 'b server_env \<Rightarrow> JsonRpcRequest \<Rightarrow> 'b mcp_server \<Rightarrow> (JsonRpcResponse option \<times> 'b mcp_server) call" where
  "handle_request info env req sv =
     (if rq_method req = ''notifications/initialized'' then Ret (None, sv)
      else call_map (\<lambda>(result, sv1).
             (if rq_id req = JNull then None else Some \<lparr>rs_id = rq_id req, rs_result = result\<rparr>, sv1))
           (if rq_method req = ''initialize'' then Ret (RpcResult (initialize_result info (rq_params req)), sv)
            else if rq_method req = ''tools/list'' then Ret (RpcResult (tools_json info), sv)
            else if rq_method req = ''tools/call'' then tools_call env (rq_params req) sv
            else Ret (RpcError (- 32601) (''unsupported method: '' @ rq_method req), sv)))"

definition handle_jsonrpc ::
  "server_info \<Rightarrow> (string \<Rightarrow> string + JsonRpcRequest) \<Rightarrow> 'b server_env \<Rightarrow> string \<Rightarrow> 'b mcp_server \<Rightarrow>
     (JsonRpcResponse option \<times> 'b mcp_server) call" where
  "handle_jsonrpc info parse env request sv =
     (case parse request of
        Inl err \<Rightarrow> Ret (Some \<lparr>rs_id = JNull, rs_result = RpcError (- 32700) (''parse error: '' @ err)\<rparr>, sv)
      | Inr req \<Rightarrow> handle_request info env req sv)"

section \<open>What the backend is asked\<close>

text \<open>The backend with a log of its calls.\<close>

datatype backend_event = Called string Json | AliveProbed "bool option" | HealthProbed bool | RestartAsked

type_synonym 'b logged_backend = "'b \<times> backend_event list"

definition with_log :: "('b \<Rightarrow> 'a \<times> 'b) \<Rightarrow> ('a \<Rightarrow> backend_event list) \<Rightarrow> 'b logged_backend \<Rightarrow> 'a \<times> 'b logged_backend" where
  "with_log f e = (\<lambda>(b, evs). let (a, b') = f b in (a, (b', evs @ e a)))"

definition logged :: "'b mcp_backend \<Rightarrow> 'b logged_backend mcp_backend" where
  "logged be = \<lparr>
     mb_navigate = (\<lambda>args. with_log (mb_navigate be args) (\<lambda>_. [Called ''navigate'' args])),
     mb_get_state = (\<lambda>args. with_log (mb_get_state be args) (\<lambda>_. [Called ''get_state'' args])),
     mb_act = (\<lambda>args. with_log (mb_act be args) (\<lambda>_. [Called ''act'' args])),
     mb_verify = (\<lambda>args. with_log (mb_verify be args) (\<lambda>_. [Called ''verify'' args])),
     mb_get_visual = (\<lambda>args. with_log (mb_get_visual be args) (\<lambda>_. [Called ''get_visual'' args])),
     mb_ask_human = (\<lambda>args. with_log (mb_ask_human be args) (\<lambda>_. [Called ''ask_human'' args])),
     mb_run_skill = (\<lambda>args. with_log (mb_run_skill be args) (\<lambda>_. [Called ''run_skill'' args])),
     mb_extract = (\<lambda>args. with_log (mb_extract be args) (\<lambda>_. [Called ''extract'' args])),
     mb_take_visual_image = with_log (mb_take_visual_image be) (\<lambda>_. []),
     mb_audit_retention_snapshot = (\<lambda>(b, _). mb_audit_retention_snapshot be b),
     mb_take_skill_usage_delta = with_log (mb_take_skill_usage_delta be) (\<lambda>_. []),
     mb_handle_browser_disconnect = with_log (mb_handle_browser_disconnect be) (\<lambda>_. [RestartAsked]),
     mb_confirm_browser_disconnected = with_log (mb_confirm_browser_disconnected be) (\<lambda>c. [HealthProbed c]),
     mb_browser_restart_count = (\<lambda>(b, _). mb_browser_restart_count be b),
     mb_is_chrome_process_alive = with_log (mb_is_chrome_process_alive be) (\<lambda>a. [AliveProbed a]),
     mb_speculative_usage = (\<lambda>(b, _). mb_speculative_usage be b)\<rparr>"

abbreviation log_of :: "'b logged_backend mcp_server \<Rightarrow> backend_event list" where
  "log_of sv \<equiv> snd (sv_backend sv)"

lemma on_logged:
  assumes "on_backend (with_log f e) sv = (a, sv')"
  shows "\<exists>b. sv' = sv\<lparr>sv_backend := (b, log_of sv @ e a)\<rparr>"
  using assms by (auto simp: on_backend_def with_log_def split_beta)

lemma backend_tool_logged:
  "backend_tool (logged be) name = map_option (\<lambda>tool args. with_log (tool args) (\<lambda>_. [Called name args])) (backend_tool be name)"
  by (simp add: backend_tool_def logged_def)

lemma dispatch_logged:
  assumes "me_backend env = logged be" "dispatch_tool env name args sv = (res, sv')" "backend_tool be name \<noteq> None"
  shows "\<exists>b. sv' = sv\<lparr>sv_backend := (b, log_of sv @ [Called name args])\<rparr>"
  using assms
  by (auto simp: dispatch_tool_def backend_tool_logged split: prod.splits sum.splits option.splits dest!: on_logged)

text \<open>The fields of the server beside its backend, and what a call adds to the log.\<close>

definition adds :: "backend_event list \<Rightarrow> 'b logged_backend mcp_server \<Rightarrow> 'b logged_backend mcp_server \<Rightarrow> bool" where
  "adds evs sv sv' \<longleftrightarrow> log_of sv' = log_of sv @ evs \<and> sv_plan_tier sv' = sv_plan_tier sv"

lemma adds_refl: "adds [] sv sv" and adds_trans: "adds e1 sv sv1 \<Longrightarrow> adds e2 sv1 sv2 \<Longrightarrow> adds (e1 @ e2) sv sv2"
  and adds_skips: "adds e sv sv1 \<Longrightarrow> adds e sv (set_skips n sv1)"
  by (simp_all add: adds_def set_skips_def)

lemma on_logged_adds: "on_backend (with_log f e) sv = (a, sv') \<Longrightarrow>
    adds (e a) sv sv' \<and> sv_consecutive_alive_skips sv' = sv_consecutive_alive_skips sv"
  by (auto dest!: on_logged simp: adds_def)

definition dispatches :: "string \<Rightarrow> Json \<Rightarrow> backend_event list \<Rightarrow> bool" where
  "dispatches name args evs \<longleftrightarrow>
     evs = [Called name args] \<or>
     name \<notin> {''navigate'', ''act'', ''ask_human'', ''run_skill''} \<and> evs = [Called name args, Called name args]"

lemma dispatch_with_retry_logged:
  assumes "me_backend env = logged be" "dispatch_with_retry env name args sv = (res, sv')" "backend_tool be name \<noteq> None"
  shows "\<exists>evs. dispatches name args evs \<and> adds evs sv sv' \<and> sv_consecutive_alive_skips sv' = sv_consecutive_alive_skips sv"
proof -
  obtain r1 sv1 where d1: "dispatch_tool env name args sv = (r1, sv1)" by force
  from dispatch_logged [OF assms(1) d1 assms(3)]
  have a1: "adds [Called name args] sv sv1" "sv_consecutive_alive_skips sv1 = sv_consecutive_alive_skips sv" by (auto simp: adds_def)
  show ?thesis
  proof (cases "sv' = sv1")
    case True
    with a1 show ?thesis by (intro exI [of _ "[Called name args]"]) (simp add: dispatches_def)
  next
    case False
    with assms(2) d1 have d2: "dispatch_tool env name args sv1 = (res, sv')" "is_retry_safe_tool name"
      by (auto simp: dispatch_with_retry_def split: sum.splits if_splits)
    from dispatch_logged [OF assms(1) d2(1) assms(3)]
    have "adds [Called name args] sv1 sv'" "sv_consecutive_alive_skips sv' = sv_consecutive_alive_skips sv1" by (auto simp: adds_def)
    with adds_trans [OF a1(1)] d2(2) a1(2) show ?thesis
      by (intro exI [of _ "[Called name args, Called name args]"]) (auto simp: dispatches_def is_retry_safe_tool_def)
  qed
qed

text \<open>What is asked after a call, given the number of errors that were passed over before it.\<close>

definition recovers :: "u32 \<Rightarrow> backend_event list \<Rightarrow> bool" where
  "recovers skips evs \<longleftrightarrow> evs = [] \<or>
     (\<exists>alive. evs = [AliveProbed alive] \<and> alive = Some True \<and> skips < MAX_ALIVE_SKIPS_BEFORE_RESTART \<or>
        (alive \<noteq> Some True \<or> MAX_ALIVE_SKIPS_BEFORE_RESTART \<le> skips) \<and>
        (evs = [AliveProbed alive, HealthProbed False] \<or> evs = [AliveProbed alive, HealthProbed True, RestartAsked]))"

definition lost_browser :: "'b server_env \<Rightarrow> anyhow_error + Json \<Rightarrow> bool" where
  "lost_browser env res \<longleftrightarrow> (\<exists>err. res = Inl err \<and> is_browser_disconnected (me_lower env) err)"

lemma recover_browser_logged:
  assumes "me_backend env = logged be" "recover_browser env res sv = (res', sv')"
  shows "\<exists>evs. recovers (sv_consecutive_alive_skips sv) evs \<and> adds evs sv sv' \<and> (evs \<noteq> [] \<longleftrightarrow> lost_browser env res) \<and>
    (\<forall>payload. res' = Inr payload \<longrightarrow> res = Inr payload) \<and>
    sv_consecutive_alive_skips sv' =
      (if evs = [] then (case res of Inr _ \<Rightarrow> 0 | Inl _ \<Rightarrow> sv_consecutive_alive_skips sv)
       else if evs = [AliveProbed (Some True)] then sv_consecutive_alive_skips sv + 1 else 0)"
proof (cases "lost_browser env res")
  case False
  with assms(2) show ?thesis
    by (intro exI [of _ "[]"]) (auto simp: recover_browser_def lost_browser_def recovers_def adds_def set_skips_def split: sum.splits)
next
  case True
  then obtain err where err: "res = Inl err" "is_browser_disconnected (me_lower env) err" by (auto simp: lost_browser_def)
  obtain alive sv1 where p1: "on_backend (mb_is_chrome_process_alive (me_backend env)) sv = (alive, sv1)" by force
  with assms(1) on_logged_adds [of _ "\<lambda>a. [AliveProbed a]" sv alive sv1]
  have a1: "adds [AliveProbed alive] sv sv1" "sv_consecutive_alive_skips sv1 = sv_consecutive_alive_skips sv"
    by (auto simp: logged_def)
  show ?thesis
  proof (cases "alive = Some True \<and> sv_consecutive_alive_skips sv < MAX_ALIVE_SKIPS_BEFORE_RESTART")
    case skip: True
    with assms(2) err p1 a1 have "res' = Inl err" "sv' = set_skips (sv_consecutive_alive_skips sv + 1) sv1"
      by (auto simp: recover_browser_def)
    with skip a1 True show ?thesis
      by (intro exI [of _ "[AliveProbed alive]"]) (auto simp: recovers_def adds_def set_skips_def)
  next
    case no_skip: False
    obtain confirmed sv2 where p2: "on_backend (mb_confirm_browser_disconnected (me_backend env)) sv1 = (confirmed, sv2)" by force
    with assms(1) on_logged_adds [of _ "\<lambda>c. [HealthProbed c]" sv1 confirmed sv2]
    have a2: "adds [AliveProbed alive, HealthProbed confirmed] sv (set_skips 0 sv2)"
      using adds_trans [OF a1(1)] by (auto simp: logged_def intro!: adds_skips)
    show ?thesis
    proof (cases confirmed)
      case False
      with no_skip assms(2) err p1 p2 a1 have "res' = Inl err" "sv' = set_skips 0 sv2" by (auto simp: recover_browser_def)
      with no_skip a2 True False show ?thesis
        by (intro exI [of _ "[AliveProbed alive, HealthProbed False]"]) (auto simp: recovers_def set_skips_def)
    next
      case yes: True
      obtain r sv4 where p3: "on_backend (mb_handle_browser_disconnect (me_backend env)) (set_skips 0 sv2) = (r, sv4)" by force
      with assms(1) on_logged_adds [of _ "\<lambda>_. [RestartAsked]" "set_skips 0 sv2" r sv4]
      have a3: "adds [AliveProbed alive, HealthProbed True, RestartAsked] sv sv4" "sv_consecutive_alive_skips sv4 = 0"
        using adds_trans [OF a2] yes by (auto simp: logged_def set_skips_def)
      from no_skip assms(2) err p1 p2 p3 yes a1 have "sv' = sv4" "\<exists>e. res' = Inl e"
        by (auto simp: recover_browser_def split: sum.splits)
      with no_skip a3 True show ?thesis
        by (intro exI [of _ "[AliveProbed alive, HealthProbed True, RestartAsked]"]) (auto simp: recovers_def)
    qed
  qed
qed

lemma take_image_logged: "me_backend env = logged be \<Longrightarrow> take_image env name payload sv = (img, sv') \<Longrightarrow>
    adds [] sv sv' \<and> sv_consecutive_alive_skips sv' = sv_consecutive_alive_skips sv"
  using on_logged_adds [of "mb_take_visual_image be" "\<lambda>_. []" sv]
  by (auto simp: take_image_def adds_refl logged_def split: if_splits prod.splits)

lemma record_usage_logged:
  assumes "me_backend env = logged be" "record_usage env name args payload hit sv = Ret sv'"
  shows "adds [] sv sv' \<and> sv_consecutive_alive_skips sv' = sv_consecutive_alive_skips sv"
proof -
  have m: "adds [] sv (on_meters f sv) \<and> sv_consecutive_alive_skips (on_meters f sv) = sv_consecutive_alive_skips sv" for f
    by (simp add: on_meters_def adds_def)
  consider "sv' = sv" | f where "sv' = on_meters f sv"
    | d sv1 f where "on_backend (mb_take_skill_usage_delta (logged be)) sv = (d, sv1)" "sv' = on_meters f sv1"
    using assms unfolding record_usage_def count_hitl_event_def
    by (auto split: if_splits option.splits prod.splits)
  then show ?thesis
  proof cases
    case (3 d sv1 f)
    with on_logged_adds [of "mb_take_skill_usage_delta be" "\<lambda>_. []" sv d sv1]
    have "adds [] sv sv1 \<and> sv_consecutive_alive_skips sv1 = sv_consecutive_alive_skips sv" by (simp add: logged_def)
    with 3(2) show ?thesis by (simp add: on_meters_def adds_def)
  qed (use m in \<open>auto simp: adds_refl\<close>)
qed

lemma perform_tool_logged:
  assumes "me_backend env = logged be" "perform_tool env name args sv = Ret (res, sv')" "backend_tool be name \<noteq> None"
  shows "\<exists>calls recovery. dispatches name args calls \<and> recovers (sv_consecutive_alive_skips sv) recovery \<and>
    adds (calls @ recovery) sv sv' \<and> (recovery \<noteq> [] \<longrightarrow> (\<exists>e. res = Inl e)) \<and>
    (recovery = [AliveProbed (Some True)] \<longrightarrow> sv_consecutive_alive_skips sv' = sv_consecutive_alive_skips sv + 1)"
proof -
  obtain r1 sv1 where d: "dispatch_with_retry env name args sv = (r1, sv1)" by force
  obtain r2 sv2 where r: "recover_browser env r1 sv1 = (r2, sv2)" by force
  from dispatch_with_retry_logged [OF assms(1) d assms(3)] obtain calls where
    c: "dispatches name args calls" "adds calls sv sv1" "sv_consecutive_alive_skips sv1 = sv_consecutive_alive_skips sv" by blast
  from recover_browser_logged [OF assms(1) r] obtain recovery where
    v: "recovers (sv_consecutive_alive_skips sv) recovery" "adds recovery sv1 sv2" "recovery \<noteq> [] \<longleftrightarrow> lost_browser env r1"
    "\<And>payload. r2 = Inr payload \<Longrightarrow> r1 = Inr payload"
    "recovery = [AliveProbed (Some True)] \<Longrightarrow> sv_consecutive_alive_skips sv2 = sv_consecutive_alive_skips sv + 1"
    unfolding c(3) by auto
  have ad: "adds (calls @ recovery) sv sv2" by (rule adds_trans [OF c(2) v(2)])
  show ?thesis
  proof (cases r2)
    case (Inl e)
    with assms(2) d r have "res = Inl e" "sv' = sv2" by (auto simp: perform_tool_def)
    with c(1) v ad show ?thesis by blast
  next
    case (Inr payload)
    with v(3,4) have none: "recovery = []" by (auto simp: lost_browser_def)
    obtain img sv3 where i: "take_image env name payload sv2 = (img, sv3)" by force
    have "adds [] sv2 sv'"
    proof (cases "is_object payload")
      case False
      with assms(2) d r Inr show ?thesis by (simp add: perform_tool_def adds_refl)
    next
      case True
      with assms(2) d r Inr i obtain hit where u: "record_usage env name args payload hit sv3 = Ret sv'"
        by (auto simp: perform_tool_def Let_def call_map_def split: call.splits)
      from adds_trans [of "[]" sv2 sv3 "[]" sv'] take_image_logged [OF assms(1) i] record_usage_logged [OF assms(1) u]
      show ?thesis by simp
    qed
    with c(1) v(1) none adds_trans [OF ad this] show ?thesis by (intro exI [of _ calls] exI [of _ recovery]) simp
  qed
qed

text \<open>What a call does to the log, whichever way it goes.\<close>

lemma call_tool_cases:
  assumes "me_backend env = logged be" "call_tool_output env name args sv = Ret (res, sv')"
  obtains (answered) "sv' = sv"
    | (performed) calls recovery where "dispatches name args calls" "recovers (sv_consecutive_alive_skips sv) recovery"
      "adds (calls @ recovery) sv sv'" "recovery \<noteq> [] \<Longrightarrow> \<exists>e. res = Inl e"
      "recovery = [AliveProbed (Some True)] \<Longrightarrow> sv_consecutive_alive_skips sv' = sv_consecutive_alive_skips sv + 1"
      "check_plan_gate env sv name args = Ret None"
proof (cases "is_known_tool name \<and> validate_tool_arguments env name args = Inr () \<and> name \<noteq> ''get_usage_report'' \<and>
    check_plan_gate env sv name args = Ret None")
  case True
  then have "backend_tool be name \<noteq> None" by (auto simp: is_known_tool_def backend_tool_def)
  with True assms perform_tool_logged [OF assms(1), of name args sv res sv'] show ?thesis
    using performed by (auto simp: call_tool_output_def)
next
  case False
  with assms(2) have "sv' = sv"
    by (auto simp: call_tool_output_def call_bind_def split: if_splits sum.splits call.splits option.splits)
  then show ?thesis by (rule answered)
qed


lemma u32_below_2: "x < 2 \<Longrightarrow> x = 0 \<or> x = (1 :: u32)"
proof -
  assume "x < 2"
  then have "unat x < 2" by (simp add: word_less_nat_alt)
  then have "unat x = unat (0 :: u32) \<or> unat x = unat (1 :: u32)" by auto
  then show ?thesis by (simp only: word_unat_eq_iff [symmetric])
qed

text \<open>The log of three calls, each of which found the browser gone.\<close>

definition loses_browser :: "'b logged_backend server_env \<Rightarrow> string \<times> Json \<Rightarrow> 'b logged_backend mcp_server \<Rightarrow>
    'b logged_backend mcp_server \<Rightarrow> bool" where
  "loses_browser env c sv sv' \<longleftrightarrow> (\<exists>res evs alive. call_tool_output env (fst c) (snd c) sv = Ret (res, sv') \<and>
     log_of sv' = log_of sv @ evs \<and> AliveProbed alive \<in> set evs)"

lemma loses_browser_skip:
  assumes "me_backend env = logged be" "loses_browser env c sv sv'"
  obtains evs health where "log_of sv' = log_of sv @ evs" "HealthProbed health \<in> set evs"
    | "sv_consecutive_alive_skips sv < 2" "sv_consecutive_alive_skips sv' = sv_consecutive_alive_skips sv + 1"
      "\<exists>evs. log_of sv' = log_of sv @ evs"
proof -
  from assms(2) obtain res evs alive where c: "call_tool_output env (fst c) (snd c) sv = Ret (res, sv')"
    "log_of sv' = log_of sv @ evs" "AliveProbed alive \<in> set evs" by (auto simp: loses_browser_def)
  from assms(1) c(1) show ?thesis
  proof (cases rule: call_tool_cases)
    case answered
    with c(2,3) show ?thesis by simp
  next
    case (performed calls recovery)
    then have "evs = calls @ recovery" using c(2) by (simp add: adds_def)
    with c(3) performed(1) have "recovery \<noteq> []" by (auto simp: dispatches_def)
    with performed(2) have "recovery = [AliveProbed (Some True)] \<and> sv_consecutive_alive_skips sv < 2 \<or>
        (\<exists>health. HealthProbed health \<in> set recovery)"
      by (fastforce simp: recovers_def MAX_ALIVE_SKIPS_BEFORE_RESTART_def)
    then consider "recovery = [AliveProbed (Some True)]" "sv_consecutive_alive_skips sv < 2"
      | health where "HealthProbed health \<in> set recovery" by blast
    then show ?thesis
    proof cases
      case 1
      with performed(5) c(2) that(2) show ?thesis by blast
    next
      case (2 health)
      with c(2) \<open>evs = calls @ recovery\<close> that(1) [of evs health] show ?thesis by simp
    qed
  qed
qed

text \<open>
  C31: A session that stays broken is not passed over for ever because its process is alive: of three calls in a
  row that find the browser gone, at least one runs the health check that decides about a restart.
\<close>

theorem lost_browser_is_probed:
  assumes "me_backend env = logged be"
    and "loses_browser env c1 sv sv1" "loses_browser env c2 sv1 sv2" "loses_browser env c3 sv2 sv3"
  shows "\<exists>evs health. log_of sv3 = log_of sv @ evs \<and> HealthProbed health \<in> set evs"
proof -
  obtain e1 e2 e3 where e: "log_of sv1 = log_of sv @ e1" "log_of sv2 = log_of sv1 @ e2" "log_of sv3 = log_of sv2 @ e3"
    using assms(2-4) by (auto simp: loses_browser_def)
  have "\<exists>health. HealthProbed health \<in> set (e1 @ e2 @ e3)"
  proof (rule ccontr)
    assume no: "\<not> ?thesis"
    from loses_browser_skip [OF assms(1,2)] no e(1)
    have "sv_consecutive_alive_skips sv < 2" "sv_consecutive_alive_skips sv1 = sv_consecutive_alive_skips sv + 1" by auto
    moreover from loses_browser_skip [OF assms(1,3)] no e(2)
    have "sv_consecutive_alive_skips sv1 < 2" "sv_consecutive_alive_skips sv2 = sv_consecutive_alive_skips sv1 + 1" by auto
    moreover from loses_browser_skip [OF assms(1,4)] no e(3) have "sv_consecutive_alive_skips sv2 < 2" by auto
    ultimately show False by (auto dest!: u32_below_2)
  qed
  with e show ?thesis by (intro exI [of _ "e1 @ e2 @ e3"]) auto
qed

section \<open>Plans\<close>

text \<open>A session of \<open>n\<close> calls.\<close>

inductive server_history :: "'b server_env \<Rightarrow> 'b \<Rightarrow> PlanTier \<Rightarrow> nat \<Rightarrow> 'b mcp_server \<Rightarrow> bool" for env b tier where
  start: "server_history env b tier 0 (new_with_plan b tier)"
| call: "server_history env b tier n sv \<Longrightarrow> call_tool_output env name args sv = Ret (res, sv') \<Longrightarrow>
    server_history env b tier (Suc n) sv'"

definition plan_allows :: "'b server_env \<Rightarrow> PlanTier \<Rightarrow> backend_event \<Rightarrow> bool" where
  "plan_allows env tier ev = (case ev of
     Called name args \<Rightarrow>
       (name = ''get_state'' \<longrightarrow> (\<exists>a. me_parse_get_state env args = Some a \<and> (gs_delivery a = DeltaDelivery \<longrightarrow> Pro \<le> tier))) \<and>
       (name = ''get_visual'' \<longrightarrow> \<not> eq_ignore_ascii_case (visual_mode args) ''clean'' \<longrightarrow> Pro \<le> tier) \<and>
       (name = ''ask_human'' \<longrightarrow> Enterprise \<le> tier)
   | _ \<Rightarrow> True)"

lemma gate_feature_None: "gate_feature sv feature = None \<longleftrightarrow> required_plan feature \<le> sv_plan_tier sv"
  by (simp add: gate_feature_def ensure_plan_feature_def)

lemma check_plan_gate_allows:
  "check_plan_gate env sv name args = Ret None \<Longrightarrow> sv_plan_tier sv = tier \<Longrightarrow> plan_allows env tier (Called name args)"
  by (auto simp: check_plan_gate_def plan_allows_def gate_feature_None split: if_splits option.splits)

text \<open>
  C30: The features of a plan cannot be had without it. Whatever a client sends, the backend is never asked for a delta
  or a marked screenshot in a session below the plan Pro, nor for the approval of a pending action in a
  session below Enterprise; such calls are answered without it.
\<close>

theorem plan_gates_hold:
  assumes "server_history env (b, []) tier n sv" "me_backend env = logged be" "ev \<in> set (log_of sv)"
  shows "plan_allows env tier ev"
proof -
  from assms(1) have "sv_plan_tier sv = tier \<and> (\<forall>ev \<in> set (log_of sv). plan_allows env tier ev)"
  proof induction
    case start
    then show ?case by (simp add: new_with_plan_def)
  next
    case (call n sv name args res sv')
    from assms(2) call(2) show ?case
    proof (cases rule: call_tool_cases)
      case answered
      with call(3) show ?thesis by simp
    next
      case (performed calls recovery)
      have "\<forall>ev \<in> set calls. plan_allows env tier ev"
        using performed(1) check_plan_gate_allows [OF performed(6)] call(3) by (auto simp: dispatches_def)
      moreover have "\<forall>ev \<in> set recovery. plan_allows env tier ev"
        using performed(2) by (auto simp: recovers_def plan_allows_def)
      ultimately show ?thesis using performed(3) call(3) by (auto simp: adds_def)
    qed
  qed
  with assms(3) show ?thesis by blast
qed

section \<open>Answers of the protocol\<close>

lemma perform_tool_returns:
  assumes "name = ''get_state'' \<Longrightarrow> me_parse_get_state env args \<noteq> None"
  shows "perform_tool env name args sv \<noteq> Panic"
proof -
  have u: "record_usage env name args payload hit sv' \<noteq> Panic" for payload hit sv'
  proof (cases "name = ''get_state''")
    case True
    with assms obtain a where "me_parse_get_state env args = Some a" by blast
    with True show ?thesis by (simp add: record_usage_def)
  next
    case False
    then show ?thesis by (simp add: record_usage_def split_beta)
  qed
  obtain r1 sv1 where d: "dispatch_with_retry env name args sv = (r1, sv1)" by force
  obtain r2 sv2 where r: "recover_browser env r1 sv1 = (r2, sv2)" by force
  show ?thesis
  proof (cases r2)
    case (Inr payload)
    obtain img sv3 where "take_image env name payload sv2 = (img, sv3)" by force
    with d r Inr u [of payload] show ?thesis by (simp add: perform_tool_def Let_def call_map_def split: call.split)
  qed (use d r in \<open>simp add: perform_tool_def\<close>)
qed

text \<open>The reader of the arguments accepts what the schema accepts, as the calls of \<open>expect\<close> rely on.\<close>

definition schema_sound :: "'b server_env \<Rightarrow> bool" where
  "schema_sound env \<longleftrightarrow> (\<forall>args. me_validate env ''get_state'' args = None \<longrightarrow> me_parse_get_state env args \<noteq> None)"

lemma call_tool_returns:
  assumes "schema_sound env"
  shows "call_tool_output env name args sv \<noteq> Panic"
proof -
  have r: "me_parse_get_state env args \<noteq> None" if "validate_tool_arguments env name args = Inr ()" "name = ''get_state''"
    using assms that by (auto simp: schema_sound_def validate_tool_arguments_def split: option.splits)
  have "check_plan_gate env sv name args \<noteq> Panic \<and> perform_tool env name args sv \<noteq> Panic"
    if "validate_tool_arguments env name args = Inr ()"
    using r [OF that] perform_tool_returns [of name env args sv] by (auto simp: check_plan_gate_def split: option.split)
  then show ?thesis
    by (auto simp: call_tool_output_def call_bind_def split: sum.split call.split option.split)
qed

definition rpc_methods :: "string list" where
  "rpc_methods = [''initialize'', ''notifications/initialized'', ''tools/list'', ''tools/call'']"

definition unknown_request :: "JsonRpcRequest \<Rightarrow> bool" where
  "unknown_request req \<longleftrightarrow> rq_method req \<notin> set rpc_methods \<or>
     rq_method req = ''tools/call'' \<and>
       (\<exists>name. Option.bind (json_get ''name'' (rq_params req)) as_str = Some name \<and> \<not> is_known_tool name)"


section \<open>Backends that count what they serve in advance\<close>

definition metered :: "'b mcp_server \<Rightarrow> u64" where
  "metered sv = sg_speculative (um_state_generations (sv_usage_meters sv))"

text \<open>The contract of the counter of hits: a reading of the full state adds one or nothing to it, nothing else does.\<close>

locale counting_backend =
  fixes be :: "'b mcp_backend" and reads :: "Json \<Rightarrow> GetStateArguments option" and hits :: "'b \<Rightarrow> u64"
  assumes usage: "fst (mb_speculative_usage be b) = hits b"
    and state_failed: "mb_get_state be args b = (Inl e, b') \<Longrightarrow> hits b' = hits b"
    and state_served: "mb_get_state be args b = (Inr payload, b') \<Longrightarrow> hits b' = hits b \<or>
      hits b' = hits b + 1 \<and> (\<exists>a. reads args = Some a \<and> gs_delivery a = FullDelivery)"
    and state_answers: "mb_get_state be args b = (Inr payload, b') \<Longrightarrow>
      is_object payload \<and> status_of payload \<noteq> Some ''requires_human_approval''"
    and others: "backend_tool be name = Some tool \<Longrightarrow> name \<noteq> ''get_state'' \<Longrightarrow> tool args b = (r, b') \<Longrightarrow> hits b' = hits b"
    and images: "mb_take_visual_image be b = (img, b') \<Longrightarrow> hits b' = hits b"
    and deltas: "mb_take_skill_usage_delta be b = (d, b') \<Longrightarrow> hits b' = hits b"
    and probes: "mb_is_chrome_process_alive be b = (alive, b') \<Longrightarrow> hits b' = hits b"
      "mb_confirm_browser_disconnected be b = (confirmed, b') \<Longrightarrow> hits b' = hits b"
    and restarts: "mb_handle_browser_disconnect be b = (q, b') \<Longrightarrow> hits b' = hits b"
begin

lemma on_backend_counted:
  assumes "on_backend f sv = (a, sv')" "\<And>a b b'. f b = (a, b') \<Longrightarrow> hits b' = hits b"
  shows "hits (sv_backend sv') = hits (sv_backend sv) \<and> metered sv' = metered sv"
  using assms by (auto simp: on_backend_def metered_def split: prod.splits)

lemma dispatch_counted:
  assumes "me_backend env = be" "dispatch_tool env name args sv = (res, sv')" "is_known_tool name" "name \<noteq> ''get_usage_report''"
  shows "metered sv' = metered sv \<and> (hits (sv_backend sv') = hits (sv_backend sv) \<or>
     hits (sv_backend sv') = hits (sv_backend sv) + 1 \<and> name = ''get_state'' \<and> (\<exists>a. reads args = Some a \<and> gs_delivery a = FullDelivery) \<and>
     (\<exists>payload. res = Inr payload \<and> is_object payload \<and> status_of payload \<noteq> Some ''requires_human_approval''))"
proof -
  obtain tool where tool: "backend_tool be name = Some tool" using assms(3,4) by (auto simp: is_known_tool_def backend_tool_def)
  obtain r b' where b': "tool args (sv_backend sv) = (r, b')" by force
  have res: "sv' = sv\<lparr>sv_backend := b'\<rparr>" "\<And>payload. r = Inr payload \<Longrightarrow> res = Inr payload"
    using assms(1,2) tool b' by (auto simp: dispatch_tool_def on_backend_def split: sum.splits option.splits)
  show ?thesis
  proof (cases "name = ''get_state''")
    case False
    with others [OF tool False b'] res show ?thesis by (simp add: metered_def)
  next
    case True
    then have t: "tool = mb_get_state be" using tool by (simp add: backend_tool_def)
    show ?thesis
    proof (cases r)
      case (Inl e)
      with state_failed b' t res show ?thesis by (simp add: metered_def)
    next
      case (Inr payload)
      with state_served [of args "sv_backend sv" payload b'] state_answers [of args "sv_backend sv" payload b'] b' t res True
      show ?thesis by (simp add: metered_def)
    qed
  qed
qed

lemma retry_counted:
  assumes "me_backend env = be" "dispatch_with_retry env name args sv = (res, sv')" "is_known_tool name" "name \<noteq> ''get_usage_report''"
  shows "metered sv' = metered sv \<and> (hits (sv_backend sv') = hits (sv_backend sv) \<or>
     hits (sv_backend sv') = hits (sv_backend sv) + 1 \<and> name = ''get_state'' \<and> (\<exists>a. reads args = Some a \<and> gs_delivery a = FullDelivery) \<and>
     (\<exists>payload. res = Inr payload \<and> is_object payload \<and> status_of payload \<noteq> Some ''requires_human_approval''))"
proof -
  obtain r1 sv1 where d1: "dispatch_tool env name args sv = (r1, sv1)" by force
  note c1 = dispatch_counted [OF assms(1) d1 assms(3,4)]
  show ?thesis
  proof (cases "res = r1 \<and> sv' = sv1")
    case True
    with c1 show ?thesis by simp
  next
    case False
    with assms(2) d1 obtain e where "r1 = Inl e" "dispatch_tool env name args sv1 = (res, sv')"
      by (auto simp: dispatch_with_retry_def split: sum.splits if_splits)
    with c1 dispatch_counted [OF assms(1) this(2) assms(3,4)] show ?thesis by auto
  qed
qed

lemma recover_counted:
  assumes "me_backend env = be" "recover_browser env res sv = (res', sv')"
  shows "metered sv' = metered sv \<and> hits (sv_backend sv') = hits (sv_backend sv)"
  using assms(2) unfolding recover_browser_def assms(1)
  by (auto simp: on_backend_def set_skips_def metered_def Let_def
      split: sum.splits if_splits prod.splits dest!: probes restarts)

lemma image_counted:
  assumes "me_backend env = be" "take_image env name payload sv = (img, sv')"
  shows "metered sv' = metered sv \<and> hits (sv_backend sv') = hits (sv_backend sv)"
  using assms(2) unfolding take_image_def assms(1)
  by (auto simp: on_backend_def metered_def split: if_splits prod.splits dest!: images)

lemma usage_counted:
  assumes "me_backend env = be" "me_parse_get_state env = reads" "record_usage env name args payload hit sv = Ret sv'"
  shows "hits (sv_backend sv') = hits (sv_backend sv) \<and>
    metered sv' = metered sv + (if hit \<and> name = ''get_state'' \<and> status_of payload \<noteq> Some ''requires_human_approval'' \<and>
        (\<exists>a. reads args = Some a \<and> gs_delivery a = FullDelivery) then 1 else 0)"
proof (cases "name = ''get_state''")
  case True
  with assms show ?thesis
    by (auto simp: record_usage_def count_hitl_event_def on_meters_def metered_def count_state_def
        split: if_splits option.splits StateDelivery.splits)
next
  case False
  obtain d sv1 where d: "on_backend (mb_take_skill_usage_delta be) sv = (d, sv1)" by force
  then have "hits (sv_backend sv1) = hits (sv_backend sv) \<and> metered sv1 = metered sv"
    by (auto simp: on_backend_def metered_def split: prod.splits dest!: deltas)
  with False assms d show ?thesis unfolding record_usage_def
    by (auto simp: count_hitl_event_def on_meters_def metered_def fold_skill_delta_def split: if_splits)
qed

lemma perform_counted:
  assumes "me_backend env = be" "me_parse_get_state env = reads" "perform_tool env name args sv = Ret (res, sv')"
    "is_known_tool name" "name \<noteq> ''get_usage_report''" "hits (sv_backend sv) < hits (sv_backend sv) + 1"
  shows "hits (sv_backend sv') - hits (sv_backend sv) = metered sv' - metered sv \<and>
    (hits (sv_backend sv') = hits (sv_backend sv) \<or> hits (sv_backend sv') = hits (sv_backend sv) + 1)"
proof -
  obtain r1 sv1 where d: "dispatch_with_retry env name args sv = (r1, sv1)" by force
  obtain r2 sv2 where r: "recover_browser env r1 sv1 = (r2, sv2)" by force
  note c1 = retry_counted [OF assms(1) d assms(4,5)] and c2 = recover_counted [OF assms(1) r]
  show ?thesis
  proof (cases r2)
    case (Inl e)
    have "r1 = r2 \<or> (\<exists>e. r1 = Inl e)" using r Inl by (auto simp: recover_browser_def split: sum.splits)
    with Inl c1 have "hits (sv_backend sv1) = hits (sv_backend sv)" "metered sv1 = metered sv" by auto
    with assms(3) d r Inl c2 show ?thesis by (auto simp: perform_tool_def)
  next
    case (Inr payload)
    have r1: "r1 = Inr payload" using r Inr by (auto simp: recover_browser_def Let_def split: sum.splits if_splits prod.splits)
    obtain img sv3 where i: "take_image env name payload sv2 = (img, sv3)" by force
    note c3 = image_counted [OF assms(1) i]
    show ?thesis
    proof (cases "is_object payload")
      case False
      with r1 c1 have "hits (sv_backend sv1) = hits (sv_backend sv)" "metered sv1 = metered sv" by auto
      with False assms(3) d r Inr c2 show ?thesis by (auto simp: perform_tool_def)
    next
      case True
      let ?hit = "hits (sv_backend sv) < hits (sv_backend sv3)"
      from True assms(1,3) d r Inr i usage have "record_usage env name args payload ?hit sv3 = Ret sv'"
        by (auto simp: perform_tool_def Let_def call_map_def split: call.splits)
      note c4 = usage_counted [OF assms(1,2) this]
      show ?thesis
      proof (cases "hits (sv_backend sv1) = hits (sv_backend sv)")
        case True
        then show ?thesis using c1 c2 c3 c4 by simp
      next
        case False
        then show ?thesis using c1 c2 c3 c4 r1 assms(6) by simp
      qed
    qed
  qed
qed

lemma history_counted:
  assumes "server_history env b tier n sv" "me_backend env = be" "me_parse_get_state env = reads" "hits b = 0" "n < 2 ^ 64"
  shows "metered sv = hits (sv_backend sv) \<and> unat (hits (sv_backend sv)) \<le> n"
  using assms(1,5)
proof induction
  case start
  then show ?case using assms(4) by (simp add: new_with_plan_def metered_def no_usage_def)
next
  case (call n sv name args res sv')
  then have IH: "metered sv = hits (sv_backend sv)" "unat (hits (sv_backend sv)) \<le> n" by simp_all
  with call.prems have "unat (hits (sv_backend sv)) + 1 < 2 ^ 64" by simp
  then have next_hit: "unat (hits (sv_backend sv) + 1) = unat (hits (sv_backend sv)) + 1" by (simp add: unat_plus_if_size word_size)
  show ?case
  proof (cases "sv' = sv")
    case True
    with IH show ?thesis by simp
  next
    case False
    with call.hyps(2) have "perform_tool env name args sv = Ret (res, sv')" "is_known_tool name" "name \<noteq> ''get_usage_report''"
      by (auto simp: call_tool_output_def call_bind_def split: if_splits sum.splits call.splits option.splits)
    from perform_counted [OF assms(2,3) this] next_hit IH show ?thesis by (auto simp: word_less_nat_alt)
  qed
qed

end

end
