(* ===== verification/Mcp_Core.thy ===== *)
theory Mcp_Core
  imports Mcp_Server
begin

text \<open>
  The backend of the product, \<open>CoreRuntimeBackend\<close> (\<open>mcp-server/src/backend_tools.rs\<close>), as a backend of the
  server: the tools of \<open>Spec_Backend\<close> with their arguments, answers and errors as JSON, the skills of
  \<open>Skill_Runtime\<close> on its page, and screenshots. What the page answers to a tool that only reads it
  (\<open>verify\<close>, \<open>extract\<close>, \<open>ask_human\<close>) is given by the number of the call.
\<close>

section \<open>Answers as JSON\<close>

datatype nav_failure = NavAction act_error | NavInvalid string | NavOther anyhow_error

text \<open>
  The readers of the arguments are derived code; \<open>ce_act_error\<close> and \<open>ce_page_error\<close> turn the errors of the
  model into those of the page, with their text.
\<close>

record ('pe, 'j, 'op) core_env =
  ce_backend :: "('pe, 'j, 'op) backend_env"
  ce_reads :: "Json \<Rightarrow> GetStateArguments option"
  ce_reads_act :: "Json \<Rightarrow> ActArguments option"
  ce_reads_url :: "Json \<Rightarrow> string option"
  ce_reads_skill :: "Json \<Rightarrow> (string \<times> Json) option"
  ce_reads_visual :: "Json \<Rightarrow> (string \<times> string) option"
  ce_canonical :: "string \<Rightarrow> string + string"
  ce_navigate :: "nat \<Rightarrow> string \<Rightarrow> bool \<times> (nav_failure + string)"
  ce_visual :: "nat \<Rightarrow> anyhow_error + string \<times> (int \<times> string option \<times> f64 list) list"
  ce_answer :: "nat \<Rightarrow> string \<Rightarrow> Json \<Rightarrow> anyhow_error + Json"
  ce_skill_page :: "nat \<Rightarrow> skill_page"
  ce_skills :: "(string \<times> SkillDefinition) list"
  ce_operation_limit :: nat
  ce_page_error :: "('pe, string) backend_error \<Rightarrow> anyhow_error"
  ce_act_error :: "act_error \<Rightarrow> anyhow_error"
  ce_skill_error :: "SkillEngineError \<Rightarrow> anyhow_error"
  ce_reason :: "act_error \<Rightarrow> string"
  ce_projection :: "OutcomeProjection \<Rightarrow> Json option"
  ce_float :: "f64 \<Rightarrow> Json"
  ce_patch :: "'op list \<Rightarrow> Json"
  ce_sha :: "string \<Rightarrow> string"
  ce_managed :: bool
  ce_alive :: "nat \<Rightarrow> bool option"
  ce_responds :: "nat \<Rightarrow> bool"
  ce_retention :: "spec_backend \<Rightarrow> AuditRetentionSnapshot"

record core_state =
  cs_backend :: spec_backend
  cs_skill_delta :: SkillUsageDelta
  cs_visual_image :: "string option"

definition strings_json :: "string list \<Rightarrow> Json" where
  "strings_json ss = JArray (map JString ss)"

definition opt_string_json :: "string option \<Rightarrow> Json" where
  "opt_string_json s = (case s of None \<Rightarrow> JNull | Some v \<Rightarrow> JString v)"

definition metadata_json :: "StateMetadata \<Rightarrow> Json" where
  "metadata_json m = JObject
     [(''url'', JString (md_url m)), (''page_instance_id'', JString (md_page_instance_id m)),
      (''state_hash'', JString (md_state_hash m)), (''load_profile'', JString (md_load_profile m)),
      (''timestamp'', JNumber (show_int (uint (md_timestamp m)))), (''speculative'', JBool (md_speculative m))]"

definition element_json :: "(f64 \<Rightarrow> Json) \<Rightarrow> ExternalInteractiveElement \<Rightarrow> Json" where
  "element_json float e = JObject
     ([(''id'', JNumber (show_int (ei_id e))), (''stable_key'', JString (ei_stable_key e)), (''alias'', JString (ei_alias e)),
       (''role'', JString (ei_role e)), (''name'', JString (ei_name e)), (''attributes'', JObject (ei_attributes e)),
       (''bbox'', JArray (map float (ei_bbox e))), (''policy_flags'', strings_json (ei_policy_flags e))] @
      (if ei_security_flags e = [] then [] else [(''security_flags'', strings_json (ei_security_flags e))]))"

definition external_state_json :: "(f64 \<Rightarrow> Json) \<Rightarrow> ExternalSemanticState \<Rightarrow> Json" where
  "external_state_json float x = JObject
     [(''metadata'', metadata_json (ex_metadata x)),
      (''interactive_elements'', JArray (map (element_json float) (ex_interactive_elements x)))]"

definition state_response_json :: "('pe, 'j, 'op) core_env \<Rightarrow> 'op state_response \<Rightarrow> Json" where
  "state_response_json env r =
     (case r of
        StateJson payload \<Rightarrow> external_state_json (ce_float env) payload
      | StateMarkdown markdown \<Rightarrow> JObject [(''markdown'', JString markdown)]
      | NoChange state_hash \<Rightarrow> JObject [(''type'', JString ''no_change''), (''hash'', JString state_hash)]
      | FullState state_hash ext \<Rightarrow>
          JObject [(''type'', JString ''full''), (''hash'', JString state_hash), (''state'', external_state_json (ce_float env) ext)]
      | DeltaState base_hash next_hash patch \<Rightarrow>
          JObject [(''type'', JString ''delta''), (''base_hash'', JString base_hash), (''next_hash'', JString next_hash),
                   (''patch'', ce_patch env patch)])"

definition action_error_payload :: "('pe, 'j, 'op) core_env \<Rightarrow> act_error \<Rightarrow> Json" where
  "action_error_payload env e =
     (case e of
        Blocked rule_id \<Rightarrow> JObject [(''status'', JString ''blocked''), (''rule_id'', JString rule_id)]
      | HumanApprovalRequired rule_id scope outcome \<Rightarrow> approval_required_payload (ce_projection env) (rule_id, scope, outcome)
      | AskHumanRequired \<Rightarrow> JObject [(''status'', JString ''ask_human_required''), (''reason'', JString (ce_reason env e))]
      | _ \<Rightarrow> JObject [(''status'', JString ''verify_required'')])"

section \<open>The tools\<close>

type_synonym 'a core_op = "(core_state, anyhow_error, 'a) stateful"

definition on_core :: "('pe, 'j, 'op) core_env \<Rightarrow> ('pe, 'a) backend_op \<Rightarrow> 'a core_op" where
  "on_core env m cs =
     (case m (cs_backend cs) of
        (Inl e, s) \<Rightarrow> (Inl (ce_page_error env e), cs\<lparr>cs_backend := s\<rparr>)
      | (Inr a, s) \<Rightarrow> (Inr a, cs\<lparr>cs_backend := s\<rparr>))"

definition invalid_arguments :: "string \<Rightarrow> anyhow_error" where
  "invalid_arguments tool = plain_error (''invalid '' @ tool @ '' arguments'')"

definition read_arguments :: "string \<Rightarrow> 'a option \<Rightarrow> 'a core_op" where
  "read_arguments tool args = (case args of None \<Rightarrow> st_error (invalid_arguments tool) | Some a \<Rightarrow> st_return a)"

text \<open>A reading prepares the page before it looks at its arguments, which the schema has accepted.\<close>

definition core_get_state :: "('pe, 'j, 'op) core_env \<Rightarrow> Json \<Rightarrow> Json core_op" where
  "core_get_state env arguments =
     (case ce_reads env arguments of
        None \<Rightarrow> st_seq (on_core env (prepare_navigation_tool (ce_backend env))) (st_error (invalid_arguments ''get_state''))
      | Some args \<Rightarrow>
          st_bind (on_core env (get_state (ce_backend env) args)) (\<lambda>r. st_return (state_response_json env r)))"

definition core_act :: "('pe, 'j, 'op) core_env \<Rightarrow> Json \<Rightarrow> Json core_op" where
  "core_act env arguments =
     (case ce_reads_act env arguments of
        None \<Rightarrow> st_seq (on_core env (prepare_navigation_tool (ce_backend env))) (st_error (invalid_arguments ''act''))
      | Some args \<Rightarrow>
          st_bind (on_core env (act_tool (ce_backend env) args)) (\<lambda>r.
            case r of
              ActOk \<Rightarrow> st_return (JObject [(''status'', JString ''ok'')])
            | ActRefused e \<Rightarrow> st_return (action_error_payload env e)
            | ActFailed e \<Rightarrow> st_error (ce_act_error env e)))"

definition core_navigate :: "('pe, 'j, 'op) core_env \<Rightarrow> Json \<Rightarrow> Json core_op" where
  "core_navigate env arguments =
     st_bind (read_arguments ''navigate'' (ce_reads_url env arguments)) (\<lambda>url.
     st_bind (st_lift (case ce_canonical env url of Inl e \<Rightarrow> Inl (plain_error e) | Inr c \<Rightarrow> Inr c)) (\<lambda>requested_url.
     st_seq (on_core env ensure_navigation_protection)
    (st_bind (on_core env bk_tick) (\<lambda>n.
       let (browser_io_started, result) = ce_navigate env n requested_url;
           succeeded = (case result of Inr _ \<Rightarrow> True | Inl _ \<Rightarrow> False)
       in st_seq (on_core env (st_modify (after_navigate browser_io_started succeeded)))
            (case result of
               Inr final_url \<Rightarrow> st_return (JObject [(''status'', JString ''ok''), (''requested_url'', JString requested_url),
                                                   (''final_url'', JString final_url)])
             | Inl (NavAction e) \<Rightarrow> st_return (action_error_payload env e)
             | Inl (NavInvalid reason) \<Rightarrow> st_error (plain_error (''navigate tool failed: '' @ reason))
             | Inl (NavOther e) \<Rightarrow> st_error (e\<lparr>ae_chain := ''navigate tool failed'' # ae_chain e\<rparr>))))))"

definition core_read :: "('pe, 'j, 'op) core_env \<Rightarrow> string \<Rightarrow> Json \<Rightarrow> Json core_op" where
  "core_read env tool arguments =
     st_seq (on_core env (prepare_navigation_tool (ce_backend env)))
    (st_bind (on_core env bk_tick) (\<lambda>n. st_lift (ce_answer env n tool arguments)))"

definition mark_json :: "(f64 \<Rightarrow> Json) \<Rightarrow> int \<times> string option \<times> f64 list \<Rightarrow> Json" where
  "mark_json float = (\<lambda>(i, key, bbox). JObject [(''id'', JNumber (show_int i)),
     (''stable_key'', opt_string_json (map_option shorten_key key)), (''bbox'', JArray (map float bbox))])"

definition set_image :: "string option \<Rightarrow> core_state \<Rightarrow> core_state" where
  "set_image img cs = cs\<lparr>cs_visual_image := img\<rparr>"

definition core_get_visual :: "('pe, 'j, 'op) core_env \<Rightarrow> Json \<Rightarrow> Json core_op" where
  "core_get_visual env arguments =
     st_seq (on_core env (prepare_navigation_tool (ce_backend env)))
    (st_seq (st_modify (set_image None))
    (st_bind (read_arguments ''get_visual'' (ce_reads_visual env arguments)) (\<lambda>(mode, viewport).
     st_bind (on_core env bk_tick) (\<lambda>n.
     st_bind (st_lift (ce_visual env n)) (\<lambda>(png, marks).
     st_seq (st_modify (set_image (Some png)))
       (st_return (JObject [(''mode'', JString mode), (''viewport'', JString viewport),
          (''image_sha256'', JString (ce_sha env png)),
          (''marks'', JArray (if mode = ''clean'' then [] else map (mark_json (ce_float env)) marks))])))))))"

definition trace_json :: "OperationTrace \<Rightarrow> Json" where
  "trace_json t = JObject [(''step_id'', opt_string_json (tr_step_id t)), (''step_kind'', JString (tr_step_kind t)),
     (''operation'', JString (tr_operation t)), (''outcome'', JString (tr_outcome t))]"

definition skill_response_json :: "SkillResponse \<Rightarrow> Json" where
  "skill_response_json r = JObject [(''status'', JString (kr_status r)), (''message'', opt_string_json (kr_message r)),
     (''outputs'', JObject (kr_outputs r)), (''security_flags'', strings_json (kr_security_flags r)),
     (''trace'', JArray (map trace_json (kr_trace r)))]"

definition no_skill_usage :: SkillUsageDelta where
  "no_skill_usage = \<lparr>ud_actions_executed = 0, ud_visual_captures = 0, ud_hitl_events = 0\<rparr>"

text \<open>
  The usage of the run is kept before its error is returned; an unknown skill keeps the usage that is there. The run
  never panics (\<open>run_ends\<close>).
\<close>

definition core_run_skill :: "('pe, 'j, 'op) core_env \<Rightarrow> Json \<Rightarrow> Json core_op" where
  "core_run_skill env arguments =
     st_seq (on_core env (prepare_navigation_tool (ce_backend env)))
    (st_bind (read_arguments ''run_skill'' (ce_reads_skill env arguments)) (\<lambda>(skill_name, params).
     st_bind (on_core env bk_tick) (\<lambda>n.
       case run_skill (ce_skill_page env n) (ce_operation_limit env) (ce_skills env) skill_name params of
         Panic \<Rightarrow> st_error (plain_error ''panic'')
       | Ret (result, delta) \<Rightarrow>
           st_seq (case delta of
                     None \<Rightarrow> st_return ()
                   | Some d \<Rightarrow> st_seq (st_modify (\<lambda>cs. cs\<lparr>cs_skill_delta := d\<rparr>))
                                 (on_core env (st_modify (after_skill (ud_actions_executed d)))))
             (case result of
                SkillNotFound name \<Rightarrow> st_return (JObject [(''status'', JString ''not_found''), (''skill_name'', JString name)])
              | SkillFailed e \<Rightarrow> st_error (ce_skill_error env e)
              | skill_result.SkillRan r \<Rightarrow> st_return (skill_response_json r)))))"

definition probe :: "('pe, 'j, 'op) core_env \<Rightarrow> (nat \<Rightarrow> 'a) \<Rightarrow> core_state \<Rightarrow> 'a \<times> core_state" where
  "probe env f cs = (f (sb_tick (cs_backend cs)), cs\<lparr>cs_backend := (cs_backend cs)\<lparr>sb_tick := Suc (sb_tick (cs_backend cs))\<rparr>\<rparr>)"

definition core_backend :: "('pe, 'j, 'op) core_env \<Rightarrow> core_state mcp_backend" where
  "core_backend env = \<lparr>
     mb_navigate = core_navigate env,
     mb_get_state = core_get_state env,
     mb_act = core_act env,
     mb_verify = core_read env ''verify'',
     mb_get_visual = core_get_visual env,
     mb_ask_human = core_read env ''ask_human'',
     mb_run_skill = core_run_skill env,
     mb_extract = core_read env ''extract'',
     mb_take_visual_image = (\<lambda>cs. (cs_visual_image cs, set_image None cs)),
     mb_audit_retention_snapshot = (\<lambda>cs. Some (ce_retention env (cs_backend cs))),
     mb_take_skill_usage_delta = (\<lambda>cs. (cs_skill_delta cs, cs\<lparr>cs_skill_delta := no_skill_usage\<rparr>)),
     mb_handle_browser_disconnect = (\<lambda>cs.
       let (r, s) = handle_browser_disconnect (ce_backend env) (ce_managed env) (cs_backend cs)
       in (r, cs\<lparr>cs_backend := s\<rparr>)),
     mb_confirm_browser_disconnected = (\<lambda>cs.
       if \<not> ce_managed env then (True, cs) else probe env (\<lambda>n. \<not> ce_responds env n) cs),
     mb_browser_restart_count = (\<lambda>cs. sb_restarts (cs_backend cs)),
     mb_is_chrome_process_alive = (\<lambda>cs.
       if \<not> ce_managed env then (None, cs) else probe env (ce_alive env) cs),
     mb_speculative_usage = (\<lambda>cs. (sb_hits (cs_backend cs), sb_misses (cs_backend cs)))\<rparr>"

definition new_core :: "u64 \<Rightarrow> string option \<Rightarrow> core_state" where
  "new_core revision protection_error =
     \<lparr>cs_backend = new_backend revision protection_error, cs_skill_delta = no_skill_usage, cs_visual_image = None\<rparr>"

section \<open>The counter of hits\<close>

named_theorems hit_intros \<open>operations that keep the counter of hits\<close>

lemma hits_tick [hit_intros]: "keeps sb_hits bk_tick"
  by (simp add: keeps_def bk_tick_def)

lemma hits_page_call [hit_intros]: "keeps sb_hits (page_call f)"
  unfolding page_call_def by (intro keeps_intros hit_intros)

lemma hits_note [simp]: "sb_hits (note_event e s) = sb_hits s"
  by (simp add: note_event_def)

lemma hits_reset [simp]: "sb_hits (reset_navigation_state s) = sb_hits s"
  by (simp add: reset_navigation_state_def)

lemma hits_elements [hit_intros]: "keeps sb_hits (map_elements env speculative nodes)"
  by (induction nodes) (auto simp: map_interactive_element_def intro!: keeps_intros hit_intros)

lemma hits_build [hit_intros]: "keeps sb_hits (build_external_state env state speculative)"
  unfolding build_external_state_def by (intro keeps_intros hit_intros)

lemma hits_capture [hit_intros]: "keeps sb_hits (capture_page env)"
  unfolding capture_page_def Let_def by (intro keeps_intros hit_intros) simp

lemma hits_protection [hit_intros]: "keeps sb_hits ensure_navigation_protection"
  unfolding ensure_navigation_protection_def by (auto intro!: keeps_intros split: option.split)

lemma hits_prepare [hit_intros]: "keeps sb_hits (prepare_navigation_tool env)"
  unfolding prepare_navigation_tool_def adopt_revision_def by (intro keeps_intros hit_intros) (simp_all)

lemma hits_reconcile [simp]: "sb_hits (reconcile_served_prediction now state s) = sb_hits s"
  by (auto simp: reconcile_served_prediction_def Let_def split: option.split prod.split StateDelta.split)

lemma hits_observation [simp]: "sb_hits (record_speculative_observation now state s) = sb_hits s"
  by (simp add: record_speculative_observation_def Let_def split: option.split)

lemma hits_updates [simp]:
  "sb_hits (count_miss outcome s) = sb_hits s" "sb_hits (promote_action b s) = sb_hits s"
  "sb_hits (log_missed_prediction now state outcome p s) = sb_hits s" "sb_hits (reset_baseline s) = sb_hits s"
  "sb_hits (after_act signature s) = sb_hits s" "sb_hits (after_skill k s) = sb_hits s" "sb_hits (after_navigate io ok s) = sb_hits s"
  by (auto simp: count_miss_def promote_action_def log_missed_prediction_def reset_baseline_def after_act_def Let_def
      after_skill_def after_navigate_def invalidate_after_opaque_skill_mutation_def
      split: option.split SpeculativeOutcome.split)

lemma hits_record [hit_intros]: "keeps sb_hits (capture_and_record env prediction outcome)"
  unfolding capture_and_record_def by (intro keeps_intros hit_intros) simp_all

lemma hits_verify [hit_intros]: "keeps sb_hits (verify_before_act env)"
  unfolding keeps_def
proof
  fix s
  obtain r s1 where c: "capture_page env s = (r, s1)" by force
  from keepsD [OF hits_capture c] c show "sb_hits (snd (verify_before_act env s)) = sb_hits s"
    by (simp add: verify_before_act_def Let_def split: sum.split)
qed

lemma hits_act [hit_intros]: "keeps sb_hits (act_tool env args)"
  unfolding act_tool_def by (auto intro!: keeps_intros hit_intros split: sum.split)

lemma hits_delta [hit_intros]: "keeps sb_hits (get_state_delta env force_refresh)"
proof -
  have u: "keeps sb_hits (update_response env u)" for u
    unfolding update_response_def by (cases u) (auto intro!: keeps_intros hit_intros)
  show ?thesis unfolding get_state_delta_def by (intro keeps_intros hit_intros u) simp_all
qed

text \<open>A full reading adds one hit exactly if it serves a snapshot, and then it succeeds.\<close>

lemma serve_hits:
  assumes "serve_snapshot env state prediction s = (r, s')"
  shows "sb_hits s' = sb_hits s \<or> sb_hits s' = sb_hits s + 1 \<and> (\<exists>payload. r = Inr payload)"
proof -
  obtain b s1 where b: "build_external_state env state True s = (b, s1)" by force
  from keepsD [OF hits_build b] assms b show ?thesis
    by (auto simp: serve_snapshot_def st_bind_def st_seq_def st_modify_def st_return_def split: sum.splits)
qed

lemma full_state_hits:
  assumes "semantic_state_payload env force_refresh s = (r, s')"
  shows "sb_hits s' = sb_hits s \<or> sb_hits s' = sb_hits s + 1 \<and> (\<exists>payload. r = Inr payload)"
proof (cases "if force_refresh then None else sb_state_cache s")
  case (Some cached)
  with assms show ?thesis by (auto simp: semantic_state_payload_def st_bind_def st_get_def st_return_def)
next
  case None
  let ?s = "s\<lparr>sb_tick := Suc (sb_tick s)\<rparr>"
  obtain snapshot prediction outcome where o: "resolve_speculative_state (bk_uuid env (sb_tick s)) (bk_now env (sb_tick s))
      (sb_speculative ?s) (sb_previous ?s) (sb_last_action ?s) (sb_pending_action ?s) force_refresh (sb_last_served ?s \<noteq> None)
    = (snapshot, prediction, outcome)" by (metis prod_cases3)
  from None assms o have m: "(case (outcome, snapshot) of
      (Hit, Some state) \<Rightarrow> serve_snapshot env state prediction
    | _ \<Rightarrow> capture_and_record env prediction outcome) ?s = (r, s')"
    by (simp add: semantic_state_payload_def fresh_state_payload_def st_bind_def st_get_def bk_tick_def)
  show ?thesis
  proof (cases "outcome = Hit \<and> snapshot \<noteq> None")
    case True
    with m serve_hits [of env _ prediction ?s r s'] show ?thesis by auto
  next
    case False
    with m have "capture_and_record env prediction outcome ?s = (r, s')"
      by (auto split: SpeculativeOutcome.splits option.splits)
    from keepsD [OF hits_record this] show ?thesis by simp
  qed
qed

lemma get_state_hits:
  assumes "get_state env args s = (r, s')"
  shows "sb_hits s' = sb_hits s \<or> sb_hits s' = sb_hits s + 1 \<and> gs_delivery args = FullDelivery \<and> (\<exists>a. r = Inr a)"
proof -
  obtain p s1 where p: "prepare_navigation_tool env s = (p, s1)" by force
  have s1: "sb_hits s1 = sb_hits s" by (rule keepsD [OF hits_prepare p])
  show ?thesis
  proof (cases p)
    case (Inl e)
    with assms p s1 show ?thesis by (simp add: get_state_def st_seq_def st_bind_def)
  next
    case (Inr u)
    show ?thesis
    proof (cases "gs_delivery args")
      case FullDelivery
      obtain q s2 where q: "semantic_state_payload env (gs_force_refresh args) s1 = (q, s2)" by force
      from full_state_hits [OF q] FullDelivery Inr assms p q s1 show ?thesis
        by (auto simp: get_state_def st_seq_def st_bind_def st_return_def split: sum.splits)
    next
      case DeltaDelivery
      with Inr assms p have "get_state_delta env (gs_force_refresh args) s1 = (r, s')"
        by (simp add: get_state_def st_seq_def st_bind_def)
      from keepsD [OF hits_delta this] s1 show ?thesis by simp
    qed
  qed
qed

abbreviation core_hits :: "core_state \<Rightarrow> u64" where
  "core_hits cs \<equiv> sb_hits (cs_backend cs)"

lemma hits_on_core [hit_intros]: "keeps sb_hits m \<Longrightarrow> keeps core_hits (on_core env m)"
  by (auto simp: keeps_def on_core_def split: prod.split sum.split) (metis snd_conv)+

lemma hits_core_tools [hit_intros]:
  "keeps core_hits (core_act env args)" "keeps core_hits (core_navigate env args)" "keeps core_hits (core_read env tool args)"
  "keeps core_hits (core_get_visual env args)" "keeps core_hits (core_run_skill env args)"
proof -
  note more = keeps_intros hit_intros
  have read: "keeps core_hits (read_arguments tool x)" for tool and x :: "'x option"
    by (cases x) (auto simp: read_arguments_def intro!: keeps_intros)
  have lift: "keeps core_hits (st_lift x)" for x :: "anyhow_error + 'x"
    by (simp add: keeps_def st_lift_def)
  show "keeps core_hits (core_act env args)"
    unfolding core_act_def by (auto intro!: more split: option.split act_response.split)
  show "keeps core_hits (core_read env tool args)"
    unfolding core_read_def by (intro more lift)
  show "keeps core_hits (core_navigate env args)"
    unfolding core_navigate_def Let_def
    by (auto intro!: more read lift split: prod.split sum.split nav_failure.split)
  show "keeps core_hits (core_get_visual env args)"
    unfolding core_get_visual_def by (auto intro!: more read lift simp: set_image_def split: prod.split)
  show "keeps core_hits (core_run_skill env args)"
    unfolding core_run_skill_def
    by (auto intro!: more read split: prod.split call.split option.split skill_result.split)
qed

lemma core_state_answers: "is_object (state_response_json env r) \<and> status_of (state_response_json env r) \<noteq> Some ''requires_human_approval''"
  by (cases r) (auto simp: state_response_json_def external_state_json_def is_object_def status_of_def json_get_def)

lemma core_get_state_cases:
  assumes "core_get_state env args cs = (r, cs')"
  shows "core_hits cs' = core_hits cs \<or> core_hits cs' = core_hits cs + 1 \<and>
      (\<exists>a. ce_reads env args = Some a \<and> gs_delivery a = FullDelivery) \<and> (\<exists>v. r = Inr v)"
    "r = Inr payload \<Longrightarrow> is_object payload \<and> status_of payload \<noteq> Some ''requires_human_approval''"
proof -
  have "(core_hits cs' = core_hits cs \<or> core_hits cs' = core_hits cs + 1 \<and>
      (\<exists>a. ce_reads env args = Some a \<and> gs_delivery a = FullDelivery) \<and> (\<exists>v. r = Inr v)) \<and>
    (r = Inr payload \<longrightarrow> is_object payload \<and> status_of payload \<noteq> Some ''requires_human_approval'')"
  proof (cases "ce_reads env args")
    case None
    obtain p s1 where p: "prepare_navigation_tool (ce_backend env) (cs_backend cs) = (p, s1)" by force
    from keepsD [OF hits_prepare p] p None assms show ?thesis
      by (auto simp: core_get_state_def st_seq_def st_bind_def on_core_def st_error_def split: sum.splits)
  next
    case (Some a)
    obtain q s1 where q: "get_state (ce_backend env) a (cs_backend cs) = (q, s1)" by force
    from get_state_hits [OF q] q Some assms show ?thesis
      by (auto simp: core_get_state_def st_bind_def on_core_def st_return_def core_state_answers split: sum.splits)
  qed
  then show "core_hits cs' = core_hits cs \<or> core_hits cs' = core_hits cs + 1 \<and>
      (\<exists>a. ce_reads env args = Some a \<and> gs_delivery a = FullDelivery) \<and> (\<exists>v. r = Inr v)"
    "r = Inr payload \<Longrightarrow> is_object payload \<and> status_of payload \<noteq> Some ''requires_human_approval''" by blast+
qed

lemma disconnect_hits: "handle_browser_disconnect env managed s = (r, s') \<Longrightarrow> sb_hits s' = sb_hits s"
  by (auto simp: handle_browser_disconnect_def Let_def split: if_splits sum.splits)

interpretation core: counting_backend "core_backend env" "ce_reads env" core_hits for env
proof unfold_locales
  show "fst (mb_speculative_usage (core_backend env) b) = core_hits b" for b
    by (simp add: core_backend_def)
  show "core_hits b' = core_hits b" if "mb_get_state (core_backend env) args b = (Inl e, b')" for args b e b'
    using that core_get_state_cases(1) [of env args b "Inl e" b'] by (simp add: core_backend_def)
  show "core_hits b' = core_hits b \<or> core_hits b' = core_hits b + 1 \<and> (\<exists>a. ce_reads env args = Some a \<and> gs_delivery a = FullDelivery)"
    if "mb_get_state (core_backend env) args b = (Inr payload, b')" for args b payload b'
    using that core_get_state_cases(1) [of env args b "Inr payload" b'] by (auto simp: core_backend_def)
  show "is_object payload \<and> status_of payload \<noteq> Some ''requires_human_approval''"
    if "mb_get_state (core_backend env) args b = (Inr payload, b')" for args b payload b'
    using that core_get_state_cases(2) [of env args b "Inr payload" b' payload] by (simp add: core_backend_def)
  show "core_hits b' = core_hits b"
    if "backend_tool (core_backend env) name = Some tool" "name \<noteq> ''get_state''" "tool args b = (r, b')" for name tool args b r b'
  proof -
    have "keeps core_hits (tool args)"
      using that(1,2) by (auto simp: backend_tool_def core_backend_def split: if_splits intro: hits_core_tools)
    from keepsD [OF this that(3)] show ?thesis .
  qed
qed (auto simp: core_backend_def set_image_def probe_def Let_def split: if_splits prod.splits dest: disconnect_hits)

text \<open>
  C27: Every state that is served in advance is billed as one, and nothing else is: in every session with fewer than
  2^64 calls, whatever the tools do and the browser answers, the meter of speculative states is the
  counter of the snapshots the backend has served.
\<close>

theorem served_snapshots_are_billed:
  assumes "server_history env (new_core revision protection_error) tier n sv" "n < 2 ^ 64"
    and "me_backend env = core_backend cenv" "me_parse_get_state env = ce_reads cenv"
  shows "sg_speculative (um_state_generations (sv_usage_meters sv)) = sb_hits (cs_backend (sv_backend sv))"
  using core.history_counted [OF assms(1,3,4) _ assms(2)]
  by (simp add: metered_def new_core_def new_backend_def)

section \<open>Skills are billed\<close>

text \<open>What a run of a skill leaves: its usage, and the meter of the server grows by it.\<close>

lemma core_run_skill_cases:
  assumes "core_run_skill env args cs = (Inr payload, cs')" "status_of payload \<noteq> Some ''not_found''"
  obtains n skill_name params skill result r where "ce_reads_skill env args = Some (skill_name, params)"
    "map_of (ce_skills env) skill_name = Some skill"
    "run (ce_operation_limit env) skill (page_skill_runtime (ce_skill_page env n) params) new_page_runtime = Ret (result, r)"
    "cs_skill_delta cs' = into_usage_delta r" "\<exists>rep. payload = skill_response_json rep"
proof -
  obtain p s1 where p: "on_core env (prepare_navigation_tool (ce_backend env)) cs = (p, s1)" by force
  with assms(1) obtain u where "p = Inr u" by (cases p) (auto simp: core_run_skill_def st_seq_def st_bind_def)
  moreover from this p assms(1) obtain skill_name params where a: "ce_reads_skill env args = Some (skill_name, params)"
    by (cases "ce_reads_skill env args") (auto simp: core_run_skill_def st_seq_def st_bind_def read_arguments_def st_error_def)
  moreover obtain n s2 where n: "on_core env bk_tick s1 = (Inr n, s2)" by (simp add: on_core_def bk_tick_def)
  ultimately have m: "(case run_skill (ce_skill_page env n) (ce_operation_limit env) (ce_skills env) skill_name params of
         Panic \<Rightarrow> st_error (plain_error ''panic'')
       | Ret (result, delta) \<Rightarrow>
           st_seq (case delta of
                     None \<Rightarrow> st_return ()
                   | Some d \<Rightarrow> st_seq (st_modify (\<lambda>cs. cs\<lparr>cs_skill_delta := d\<rparr>))
                                 (on_core env (st_modify (after_skill (ud_actions_executed d)))))
             (case result of
                SkillNotFound name \<Rightarrow> st_return (JObject [(''status'', JString ''not_found''), (''skill_name'', JString name)])
              | SkillFailed e \<Rightarrow> st_error (ce_skill_error env e)
              | skill_result.SkillRan r \<Rightarrow> st_return (skill_response_json r))) s2 = (Inr payload, cs')"
    using assms(1) p by (simp add: core_run_skill_def st_seq_def st_bind_def read_arguments_def st_return_def)
  show ?thesis
  proof (cases "map_of (ce_skills env) skill_name")
    case None
    with m have "status_of payload = Some ''not_found''"
      by (auto simp: run_skill_def st_seq_def st_bind_def st_return_def status_of_def json_get_def as_str_def)
    with assms(2) show ?thesis by simp
  next
    case (Some skill)
    show ?thesis
    proof (cases "run (ce_operation_limit env) skill (page_skill_runtime (ce_skill_page env n) params) new_page_runtime")
      case Panic
      with m Some show ?thesis by (simp add: run_skill_def st_error_def)
    next
      case (Ret v)
      obtain result r where v: "v = (result, r)" by force
      from m Some Ret v have "cs_skill_delta cs' = into_usage_delta r \<and> (\<exists>rep. payload = skill_response_json rep)"
        by (auto simp: run_skill_def st_seq_def st_bind_def st_modify_def st_return_def st_error_def on_core_def split: sum.splits)
      with that [OF a Some] Ret v show ?thesis by blast
    qed
  qed
qed

lemma skill_status: "status_of (skill_response_json rep) = Some (kr_status rep)" "is_object (skill_response_json rep)"
  by (simp_all add: skill_response_json_def status_of_def json_get_def as_str_def is_object_def)

lemma approval_status: "status_of (approval_required_payload projection a) = Some ''requires_human_approval''"
  by (simp add: approval_required_payload_def status_of_def json_get_def as_str_def split: prod.split)

text \<open>
  C28: When a skill has run and its report is returned, the server bills exactly the actions that succeeded
  on the page in this run, whether the skill completed, failed or was handed off.
\<close>

theorem skill_actions_are_billed:
  assumes "me_backend env = core_backend cenv" "call_tool_output env ''run_skill'' args sv = Ret (Inr out, sv')"
    and "status_of (to_structured_content out) \<notin> {Some ''not_found'', Some ''requires_human_approval''}"
  shows "\<exists>n skill_name params skill result r. ce_reads_skill cenv args = Some (skill_name, params) \<and>
    map_of (ce_skills cenv) skill_name = Some skill \<and>
    run (ce_operation_limit cenv) skill (page_skill_runtime (ce_skill_page cenv n) params) new_page_runtime = Ret (result, r) \<and>
    um_actions_executed (sv_usage_meters sv') = um_actions_executed (sv_usage_meters sv) + of_nat (length (filter acted_ok (pr_calls r)))"
proof -
  have "perform_tool env ''run_skill'' args sv = Ret (Inr out, sv')"
    using assms(2) by (auto simp: call_tool_output_def check_plan_gate_def split: if_splits sum.splits)
  moreover obtain r1 sv1 where d: "dispatch_tool env ''run_skill'' args sv = (r1, sv1)" by force
  then have "dispatch_with_retry env ''run_skill'' args sv = (r1, sv1)"
    by (auto simp: dispatch_with_retry_def is_retry_safe_tool_def split: sum.split)
  moreover obtain r2 sv2 where r: "recover_browser env r1 sv1 = (r2, sv2)" by force
  ultimately obtain payload hit where p: "r2 = Inr payload" "to_structured_content out = payload"
    "record_usage env ''run_skill'' args payload hit sv2 = Ret sv'"
    by (auto simp: perform_tool_def take_image_def Let_def call_map_def split: sum.splits if_splits call.splits)
  from r p(1) have r1: "r1 = Inr payload" and sv2: "sv2 = set_skips 0 sv1"
    by (auto simp: recover_browser_def Let_def split: sum.splits if_splits prod.splits)
  have tool: "backend_tool (core_backend cenv) ''run_skill'' = Some (core_run_skill cenv)"
    by (simp add: backend_tool_def core_backend_def)
  obtain q cs where q: "core_run_skill cenv args (sv_backend sv) = (q, cs)" by force
  have sv1: "sv1 = sv\<lparr>sv_backend := cs\<rparr>" and "q = Inr payload"
    using d r1 q tool assms(1,3) p(2) approval_status [of "me_projection env"] unfolding dispatch_tool_def on_backend_def
    by (auto split: sum.splits option.splits) metis
  from q \<open>q = Inr payload\<close> have q': "core_run_skill cenv args (sv_backend sv) = (Inr payload, cs)" by simp
  have "status_of payload \<noteq> Some ''not_found''" using assms(3) p(2) by simp
  from core_run_skill_cases [OF q' this] obtain n skill_name params skill result r where s: "ce_reads_skill cenv args = Some (skill_name, params)"
    "map_of (ce_skills cenv) skill_name = Some skill"
    "run (ce_operation_limit cenv) skill (page_skill_runtime (ce_skill_page cenv n) params) new_page_runtime = Ret (result, r)"
    "cs_skill_delta cs = into_usage_delta r"
    by metis
  have "run_inv (ce_skill_page cenv n) params (steps skill) \<lparr>extracted = []\<rparr> new_page_runtime"
    by (simp add: about_calls_def run_ok_def sanitized_values_def new_page_runtime_def)
  from run_keeps [OF step_inv this s(3)]
  have "ud_actions_executed (into_usage_delta r) = of_nat (length (filter acted_ok (pr_calls r)))"
    by (auto simp: about_calls_def run_ok_def into_usage_delta_def)
  moreover have "um_actions_executed (sv_usage_meters sv') = um_actions_executed (sv_usage_meters sv) + ud_actions_executed (cs_skill_delta cs)"
    using p(2,3) assms(1,3) sv1 sv2
    by (auto simp: record_usage_def on_backend_def core_backend_def on_meters_def fold_skill_delta_def set_skips_def)
  ultimately have "um_actions_executed (sv_usage_meters sv') =
      um_actions_executed (sv_usage_meters sv) + of_nat (length (filter acted_ok (pr_calls r)))" using s(4) by simp
  with s(1-3) show ?thesis by blast
qed

section \<open>Closed examples\<close>

text \<open>A page that is never reached, and one that answers.\<close>

definition down_backend :: "nat mcp_backend" where
  "down_backend = (let broken = (\<lambda>_ b. (Inl (plain_error ''Broken pipe''), Suc b)) in \<lparr>
     mb_navigate = broken, mb_get_state = broken, mb_act = broken, mb_verify = broken, mb_get_visual = broken,
     mb_ask_human = broken, mb_run_skill = broken, mb_extract = broken,
     mb_take_visual_image = (\<lambda>b. (None, b)), mb_audit_retention_snapshot = (\<lambda>_. None),
     mb_take_skill_usage_delta = (\<lambda>b. (no_skill_usage, b)),
     mb_handle_browser_disconnect = (\<lambda>b. (Inr 1, b)), mb_confirm_browser_disconnected = (\<lambda>b. (True, b)),
     mb_browser_restart_count = (\<lambda>_. 0), mb_is_chrome_process_alive = (\<lambda>b. (Some True, b)),
     mb_speculative_usage = (\<lambda>_. (0, 0))\<rparr>)"

definition full_arguments :: GetStateArguments where
  "full_arguments = \<lparr>gs_format = JsonFormat, gs_force_refresh = False, gs_delivery = FullDelivery\<rparr>"

definition plain_server :: "'b mcp_backend \<Rightarrow> (Json \<Rightarrow> GetStateArguments option) \<Rightarrow> 'b server_env" where
  "plain_server be reads = \<lparr>me_backend = be, me_validate = (\<lambda>_ _. None), me_parse_get_state = reads,
     me_lower = ascii_lower, me_projection = (\<lambda>_. None), me_sha = (\<lambda>s. s), me_base64 = (\<lambda>s. s), me_json_text = (\<lambda>_. [])\<rparr>"

abbreviation down_server :: "nat logged_backend server_env" where
  "down_server \<equiv> plain_server (logged down_backend) (\<lambda>_. Some full_arguments)"

text \<open>The state of a server after some calls, and the history this is.\<close>

definition after_calls :: "'b server_env \<Rightarrow> 'b mcp_server \<Rightarrow> (string \<times> Json) list \<Rightarrow> 'b mcp_server" where
  "after_calls env sv cs =
     foldl (\<lambda>sv (name, args). case call_tool_output env name args sv of Ret (_, sv') \<Rightarrow> sv' | Panic \<Rightarrow> sv) sv cs"

lemma after_calls_step:
  assumes "schema_sound env"
  shows "\<exists>res. call_tool_output env name args (after_calls env sv cs) = Ret (res, after_calls env sv (cs @ [(name, args)]))"
proof -
  obtain res sv' where "call_tool_output env name args (after_calls env sv cs) = Ret (res, sv')"
    using call_tool_returns [OF assms] by (metis call.exhaust prod.exhaust)
  then show ?thesis by (simp add: after_calls_def)
qed

lemma after_calls_history:
  assumes "schema_sound env"
  shows "server_history env b tier (length cs) (after_calls env (new_with_plan b tier) cs)"
proof (induction cs rule: rev_induct)
  case Nil
  then show ?case by (simp add: after_calls_def server_history.start)
next
  case (snoc c cs)
  obtain name args where c: "c = (name, args)" by force
  from after_calls_step [OF assms] obtain res where
    "call_tool_output env name args (after_calls env (new_with_plan b tier) cs) = Ret (res, after_calls env (new_with_plan b tier) (cs @ [c]))"
    unfolding c by blast
  from server_history.call [OF snoc this] show ?case by simp
qed

lemma plain_server_simps [simp]: "me_backend (plain_server be reads) = be" "me_parse_get_state (plain_server be reads) = reads"
  by (simp_all add: plain_server_def)

lemma plain_server_sound: "(\<And>args. reads args \<noteq> None) \<Longrightarrow> schema_sound (plain_server be reads)"
  by (simp add: schema_sound_def)

definition no_arguments :: Json where
  "no_arguments = JObject []"

abbreviation acts :: "nat \<Rightarrow> nat logged_backend mcp_server" where
  "acts n \<equiv> after_calls down_server (new_with_plan (0, []) Developer) (replicate n (''act'', no_arguments))"

lemma acts_log:
  "log_of (acts 0) = []"
  "log_of (acts 1) = [Called ''act'' no_arguments, AliveProbed (Some True)]"
  "log_of (acts 2) = [Called ''act'' no_arguments, AliveProbed (Some True), Called ''act'' no_arguments, AliveProbed (Some True)]"
  "log_of (acts 3) =
     [Called ''act'' no_arguments, AliveProbed (Some True), Called ''act'' no_arguments, AliveProbed (Some True),
      Called ''act'' no_arguments, AliveProbed (Some True), HealthProbed True, RestartAsked]"
  by code_simp+

lemma acts_step: "\<exists>res. call_tool_output down_server ''act'' no_arguments (acts n) = Ret (res, acts (Suc n))"
proof -
  have "replicate (Suc n) (''act'', no_arguments) = replicate n (''act'', no_arguments) @ [(''act'', no_arguments)]"
    by (simp add: replicate_append_same)
  with after_calls_step [OF plain_server_sound] show ?thesis by (metis option.distinct(1))
qed


theorem lost_browser_is_probed_witness:
  "(\<exists>health. HealthProbed health \<in> set (log_of (acts 3))) \<and> RestartAsked \<in> set (log_of (acts 3))"
proof -
  have l: "loses_browser down_server (''act'', no_arguments) (acts n) (acts (Suc n))"
    if "log_of (acts (Suc n)) = log_of (acts n) @ evs" "AliveProbed alive \<in> set evs" for n evs alive
    using acts_step [of n] that by (auto simp: loses_browser_def)
  have "\<exists>evs health. log_of (acts 3) = log_of (acts 0) @ evs \<and> HealthProbed health \<in> set evs"
  proof (rule lost_browser_is_probed [OF plain_server_simps(1)])
    show "loses_browser down_server (''act'', no_arguments) (acts 0) (acts 1)"
      using l [of 0 "[Called ''act'' no_arguments, AliveProbed (Some True)]" "Some True"] acts_log by simp
    show "loses_browser down_server (''act'', no_arguments) (acts 1) (acts 2)"
      using l [of 1 "[Called ''act'' no_arguments, AliveProbed (Some True)]" "Some True"] acts_log by (simp add: numeral_2_eq_2)
    show "loses_browser down_server (''act'', no_arguments) (acts 2) (acts 3)"
      using l [of 2 "[Called ''act'' no_arguments, AliveProbed (Some True), HealthProbed True, RestartAsked]" "Some True"] acts_log
      by (simp add: numeral_3_eq_3 numeral_2_eq_2)
  qed
  then show ?thesis using acts_log by auto
qed

theorem plan_gates_hold_witness:
  "plan_allows down_server Developer (Called ''act'' no_arguments) \<and> \<not> plan_allows down_server Developer (Called ''ask_human'' no_arguments)"
proof -
  have "server_history down_server (0, []) Developer (length (replicate 1 (''act'', no_arguments))) (acts 1)"
    by (rule after_calls_history, rule plain_server_sound) simp
  from plan_gates_hold [OF this plain_server_simps(1), of "Called ''act'' no_arguments"] acts_log
  show ?thesis by (simp add: plan_allows_def less_eq_PlanTier_def)
qed


text \<open>A session of the product: two round trips between two pages, then a skill.\<close>

definition demo_core :: "(unit, SemanticNode, SemanticNode) core_env" where
  "demo_core = \<lparr>ce_backend = demo_backend_env [] [], ce_reads = (\<lambda>_. Some full_arguments),
     ce_reads_act = (\<lambda>j. case json_get ''k'' j of
        Some (JString k) \<Rightarrow> Some \<lparr>ar_target_id = None, ar_target_stable_key = Some k, ar_action = ''click'', ar_value = None\<rparr>
      | _ \<Rightarrow> None),
     ce_reads_url = (\<lambda>_. None), ce_reads_skill = (\<lambda>_. Some (''type'', JObject [(''field'', JString ''#name'')])),
     ce_reads_visual = (\<lambda>_. None), ce_canonical = Inr, ce_navigate = (\<lambda>_ url. (True, Inr url)),
     ce_visual = (\<lambda>_. Inl (plain_error ''no'')), ce_answer = (\<lambda>_ _ _. Inr (JObject [])),
     ce_skill_page = (\<lambda>_. hostile_page), ce_skills = [(''type'', typing_skill)], ce_operation_limit = 1024,
     ce_page_error = (\<lambda>_. plain_error ''page''), ce_act_error = (\<lambda>_. plain_error ''act''),
     ce_skill_error = (\<lambda>_. plain_error ''skill''), ce_reason = (\<lambda>_. []), ce_projection = (\<lambda>_. None),
     ce_float = (\<lambda>_. JNumber ''0''), ce_patch = (\<lambda>_. JNull), ce_sha = (\<lambda>s. s), ce_managed = False,
     ce_alive = (\<lambda>_. None), ce_responds = (\<lambda>_. True), ce_retention = (\<lambda>_. \<lparr>retained_events = 0, retained_bytes = 0\<rparr>)\<rparr>"

definition click_on :: "string \<Rightarrow> string \<times> Json" where
  "click_on key = (''act'', JObject [(''k'', JString key)])"

definition demo_calls :: "(string \<times> Json) list" where
  "demo_calls = (let look = (''get_state'', no_arguments)
     in [look, click_on ''x'', look, click_on ''a'', look, click_on ''x'', look, click_on ''a'', look, click_on ''x'', look])"

abbreviation demo_server :: "core_state server_env" where
  "demo_server \<equiv> plain_server (core_backend demo_core) (ce_reads demo_core)"

definition demo_session :: "(string \<times> Json) list \<Rightarrow> core_state mcp_server" where
  "demo_session cs = after_calls demo_server (new_with_plan (new_core 0 None) Enterprise) cs"

lemma demo_sound: "schema_sound demo_server"
  by (rule plain_server_sound) (simp add: demo_core_def)

theorem served_snapshots_are_billed_witness:
  "sg_speculative (um_state_generations (sv_usage_meters (demo_session demo_calls))) = sb_hits (cs_backend (sv_backend (demo_session demo_calls))) \<and>
   sb_hits (cs_backend (sv_backend (demo_session demo_calls))) = 2"
proof
  have "length demo_calls < 2 ^ 64" by (simp add: demo_calls_def Let_def)
  from served_snapshots_are_billed [OF after_calls_history [OF demo_sound] this plain_server_simps]
  show "sg_speculative (um_state_generations (sv_usage_meters (demo_session demo_calls))) = sb_hits (cs_backend (sv_backend (demo_session demo_calls)))"
    unfolding demo_session_def .
  show "sb_hits (cs_backend (sv_backend (demo_session demo_calls))) = 2" by code_simp
qed

theorem skill_actions_are_billed_witness:
  "um_actions_executed (sv_usage_meters (demo_session [(''run_skill'', no_arguments)])) = 1 \<and>
   (\<exists>n result r. run 1024 typing_skill (page_skill_runtime (ce_skill_page demo_core n) (JObject [(''field'', JString ''#name'')])) new_page_runtime =
      Ret (result, r) \<and> length (filter acted_ok (pr_calls r)) mod 2 ^ 64 = 1)"
proof -
  let ?start = "new_with_plan (new_core 0 None) Enterprise"
  have s: "um_actions_executed (sv_usage_meters (demo_session [(''run_skill'', no_arguments)])) = 1"
    "(case call_tool_output demo_server ''run_skill'' no_arguments ?start of
        Ret (Inr out, sv') \<Rightarrow> status_of (to_structured_content out) = Some ''completed'' | _ \<Rightarrow> False)" by code_simp+
  obtain res where c: "call_tool_output demo_server ''run_skill'' no_arguments ?start = Ret (res, demo_session [(''run_skill'', no_arguments)])"
    using after_calls_step [OF demo_sound, of "''run_skill''" no_arguments ?start "[]"] by (auto simp: demo_session_def after_calls_def)
  with s(2) obtain out where out: "res = Inr out" "status_of (to_structured_content out) = Some ''completed''" by (cases res) auto
  then have "status_of (to_structured_content out) \<notin> {Some ''not_found'', Some ''requires_human_approval''}" by simp
  from skill_actions_are_billed [OF plain_server_simps(1) c [unfolded out(1)] this]
  obtain n skill_name params skill result r where "ce_reads_skill demo_core no_arguments = Some (skill_name, params)"
    "map_of (ce_skills demo_core) skill_name = Some skill"
    "run (ce_operation_limit demo_core) skill (page_skill_runtime (ce_skill_page demo_core n) params) new_page_runtime = Ret (result, r)"
    "um_actions_executed (sv_usage_meters (demo_session [(''run_skill'', no_arguments)])) =
       um_actions_executed (sv_usage_meters ?start) + of_nat (length (filter acted_ok (pr_calls r)))" by blast
  moreover have "um_actions_executed (sv_usage_meters ?start) = 0" by (simp add: new_with_plan_def no_usage_def)
  ultimately have "of_nat (length (filter acted_ok (pr_calls r))) = (1 :: u64)"
    "run 1024 typing_skill (page_skill_runtime (ce_skill_page demo_core n) (JObject [(''field'', JString ''#name'')])) new_page_runtime = Ret (result, r)"
    using s(1) by (auto simp: demo_core_def)
  moreover from this(1) have "unat (of_nat (length (filter acted_ok (pr_calls r))) :: u64) = unat (1 :: u64)" by simp
  then have "length (filter acted_ok (pr_calls r)) mod 2 ^ 64 = 1" by (simp add: unat_of_nat)
  ultimately show ?thesis using s(1) by blast
qed

text \<open>
  A skill that verifies and acts in a circle is stopped by the limit on its operations: the actions took place, but
  the server bills none of them, and the next call for a skill that does not exist is billed for them.
\<close>

definition circling_skill :: SkillDefinition where
  "circling_skill = \<lparr>schema_version = 1, sk_name = ''type'', steps =
     [Verify \<lparr>ve_id = Some ''v'', ve_target = ''id:1'', ve_expected = ''Name'', ve_control = default_control\<rparr>,
      Act \<lparr>ac_id = None, ac_action = ''click'', ac_target = ''id:1'', ac_value = None, ac_control = default_control\<lparr>on_success := Some ''v''\<rparr>\<rparr>]\<rparr>"

lemma stopped_skills_are_not_billed:
  "let cenv = demo_core\<lparr>ce_skills := [(''type'', circling_skill)], ce_operation_limit := 4,
         ce_reads_skill := (\<lambda>j. Some (if j = JNull then ''none'' else ''type'', JObject []))\<rparr>;
       env = plain_server (core_backend cenv) (ce_reads cenv); start = new_with_plan (new_core 0 None) Enterprise
   in um_actions_executed (sv_usage_meters (after_calls env start [(''run_skill'', no_arguments)])) = 0 \<and>
      ud_actions_executed (cs_skill_delta (sv_backend (after_calls env start [(''run_skill'', no_arguments)]))) = 2 \<and>
      um_actions_executed (sv_usage_meters (after_calls env start [(''run_skill'', no_arguments), (''run_skill'', JNull)])) = 2"
  by code_simp

end
