(* ===== verification/Spec2Isabelle.thy ===== *)
theory Spec2Isabelle
  imports Act Sem_Keys Hitl_Bridge Mcp_Core
begin

text \<open>
  A verification development for dragon-head, a browser runtime that lets an agent read and act on
  web pages under a policy. Written below as \<open>core\<close> is \<open>src/core-runtime/src\<close>.

  \<^bold>\<open>The program.\<close> A page is captured from the DOM into a semantic tree
  (\<open>core/sre\<close>); the agent gets the tree, views of it or deltas. An action names a node by id or
  by stable key; before it reaches the page a policy engine (\<open>core/policy.rs\<close>) looks at the
  node and at the text around it and allows, blocks or asks for a human approval; plugins may veto
  (\<open>core/plugin_hooks.rs\<close>). Everything is recorded in an audit trail (\<open>core/audit.rs\<close>).

  \<^bold>\<open>Theories.\<close>
  \<^item> \<open>Prelude\<close>: Rust strings as their UTF-8 bytes, results as sums (\<open>Inl\<close> is \<open>Err\<close>),
    stateful operations that may fail, saturating words, hash maps as association lists.
  \<^item> \<open>Rust_Float\<close>: \<open>f64\<close> and \<open>f32\<close> as bits; exact rounding of quotients and literals.
  \<^item> \<open>Policy\<close>: \<open>core/policy.rs\<close> and the embedded default rules.
  \<^item> \<open>Sem_Tree\<close>, \<open>Sem_Index\<close>: the tree and the walks of \<open>core/browser/helpers.rs\<close>
    and \<open>core/browser/navigation_policy.rs\<close>; each is related to the list of the nodes in
    document order.
  \<^item> \<open>Sem_State\<close>, \<open>Sem_View\<close>, \<open>Sem_Keys\<close>: \<open>core/sre/state.rs\<close> (content hash; views
    and deltas) and \<open>core/sre/stable_key.rs\<close>.
  \<^item> \<open>Dom_Signature\<close>: \<open>core/dom_signature.rs\<close>, the recovery of lost elements.
  \<^item> \<open>Json\<close>, \<open>Bounded_Log\<close>, \<open>Audit_Trail\<close>: JSON values; the contract of the bounded buffers as a
    locale, interpreted on the recent audit events and on the action log; \<open>core/audit.rs\<close>.
  \<^item> \<open>Plugin_Hooks\<close>: \<open>core/plugin_hooks.rs\<close> and \<open>apply_state_hooks\<close>.
  \<^item> \<open>Approvals\<close>: the approval state of a session (\<open>core/browser/mod.rs\<close>,
    \<open>core/browser/policy.rs\<close>, \<open>core/browser/approval_context.rs\<close>); \<open>approval_history\<close> is
    the step relation of a session in which requests, decisions, uses, navigations and document
    changes interleave.
  \<^item> \<open>Enforce\<close>: capture, \<open>enforce_policy\<close> and the decision on a navigation.
  \<^item> \<open>Act\<close>: \<open>core/browser/act.rs\<close>, the action log and the visual capture.
  \<^item> \<open>Nav_Url\<close>, \<open>Nav_Observe\<close>, \<open>Nav_Intercept\<close>, \<open>Nav_Public\<close>: navigation
    (\<open>core/browser/navigation.rs\<close>, \<open>persistent_navigation.rs\<close>): the network classes of addresses and
    the validation of a URL; the observation of the main frame; the decision on a paused request,
    whose phases \<open>nav_history\<close> interleaves with events and other requests; an explicit navigation
    with its waiting loop, a \<open>partial_function\<close>.
  \<^item> \<open>Speculative\<close>: \<open>core/speculative\<close>, the table of the transitions that were seen and the
    snapshots served from it before the page is read; its codec over an abstract file format.
  \<^item> \<open>Mcp_Convert\<close>, \<open>Spec_Backend\<close>, \<open>Spec_History\<close>: \<open>src/mcp-server/src\<close>, the conversions of
    \<open>convert.rs\<close> and the state tools of \<open>backend.rs\<close> and \<open>backend_tools.rs\<close>; \<open>backend_history\<close>
    interleaves the tools and the failures of the browser, and a ghost log of what happened to the
    page says what the engine may have learned. The browser answers by the number of the call.
  \<^item> \<open>Skill_Runtime\<close>: \<open>src/mcp-server/src/skill_runtime.rs\<close> and \<open>extract.rs\<close>, the operations of
    a skill on a page and its templates, filled in from parameters and from extracted page content.
  \<^item> \<open>Metering\<close>, \<open>Mcp_Server\<close>, \<open>Mcp_Core\<close>: \<open>metering.rs\<close>, \<open>server.rs\<close> and
    \<open>protocol.rs\<close> of \<open>src/mcp-server/src\<close>: usage and its costs, a tool call over any backend (validation,
    plan, retry, restart, metering), JSON-RPC; the contract of a backend that counts what it serves in
    advance is a locale, interpreted on the backend of the product, which \<open>Mcp_Core\<close> builds from
    \<open>Spec_Backend\<close> and \<open>Skill_Runtime\<close>.
  \<^item> \<open>Skills\<close>: \<open>src/skills-engine/src/lib.rs\<close>, the validation of a skill, its interpreter
    and the runtime that demands a verification before an action; \<open>skill_edge\<close> is the graph of
    its steps.
  \<^item> \<open>Hitl_Audit\<close>, \<open>Hitl_Gateway\<close>, \<open>Hitl_Bridge\<close>: \<open>src/hitl-bridge\<close>, which brings the
    decisions of human reviewers to a session: its audit trail on a file system that may fail, the
    contract of an approval gateway as a locale interpreted on the page and on the mock of the
    tests, and the phases in which requests are claimed, resolved and polled (\<open>bridge_history\<close>).

  \<^bold>\<open>What the lemmas show.\<close> The policy is decided by the first matching rule, a projected amount
  only makes it stricter, and rule sets are accepted exactly when they are valid. The tree walks
  return the first node in document order; the index, the policy and the stable keys agree on
  them. The content hash identifies the content, and a client that follows the updates has it. A
  node is recovered only if it is the single best match on two signals. Plugins fail closed. An
  approval is used only for what was approved, once if it is for one action. Nothing reaches the
  page unless the policy let the call pass, and the nodes acted on are those the call meant; two
  closed examples show the limits of this: a state plugin changes what the policy sees, and the
  fallback by stable key acts on a node the policy did not look at. A request of the
  main frame is let through only to a public destination the policy permitted in the same attempt,
  whatever interleaves; a revision identifies a document even if the page leaves it and comes back.
  The speculative engine learns only transitions that took place if the reading of a captured page
  never fails (a closed example shows what it learns otherwise), and two snapshots are never served
  without a look at the page between them. A skill that was accepted ends
  within its bound and acts only on what it has just verified. Page content never decides what a skill acts on. The server sends a tool that changes the page once,
  restarts the browser only after a health check, keeps the features of a plan from other plans, and
  bills what was served and done. A decision of a reviewer is
  applied once, to the request that was shown, and is recorded once; where the file system fails
  or a process dies between two phases, closed examples show what is lost or stays blocked.

  \<^bold>\<open>Parameters.\<close> Third-party code is an argument: regular expressions, the URL parser, SHA-256,
  the JSON libraries, Unicode lower casing, redaction; so are the browser, the clock and the
  generator of UUIDs, which in \<open>Enforce\<close> and \<open>Act\<close> are functions of a counter of the answers
  given, so that a page may change between any two of them. The file system of the HITL bridge
  answers each operation from an oracle, which may fail it. No fuel is used but the bound the code
  has itself, the 1024 operations of a skill: every other recursion is structural or has a measure,
  but the loops that wait for the browser, which return if the clock runs on.

  \<^bold>\<open>Not modelled.\<close> Chrome and the network, the locks (taken as never poisoned), log output, the
  DOM normalization, the
  front ends of the HITL bridge, the audit sinks, the marketplace, the plugin host and the
  configuration of the MCP server; they are listed in the manifest with the reason or the plan.
\<close>

end
